(* ===== verification/Prelude.thy ===== *)
theory Prelude
  imports Main "HOL-Library.Char_ord"
begin

text \<open>
  Shared vocabulary of the development: the ways an operation of the C code can end other
  than by returning (the error type and the result type), the character classes of the C locale,
  the C string and \<open>sscanf\<close> primitives the sources use, and the generic list lemmas that the
  component theories share.

  A NUL-terminated \<open>char *\<close> is a \<open>string\<close> (the bytes before the terminator); a pointer that may
  be NULL is a \<open>string option\<close>. A read or write outside an object, which is undefined in C, is
  the value \<open>Undefined\<close> of the error type, so no definition silently repairs it.
\<close>

named_theorems scan_simps \<open>evaluation of the scanning primitives\<close>
named_theorems length_facts \<open>length bounds used by termination proofs\<close>

declare Let_def [simp]

subsection \<open>How an operation can end\<close>

datatype cf_error =
    FatalErr string     \<comment> \<open>\<open>FatalError\<close> of errors.c: prints its message and exits\<close>
  | Exits nat           \<comment> \<open>a direct call of \<open>exit\<close>\<close>
  | Undefined string    \<comment> \<open>behaviour undefined in C: out of bounds, uninitialised\<close>

type_synonym 'a outcome = "cf_error + 'a"

definition bind_outcome :: "'a outcome \<Rightarrow> ('a \<Rightarrow> 'b outcome) \<Rightarrow> 'b outcome" where
  "bind_outcome m f = (case m of Inl e \<Rightarrow> Inl e | Inr a \<Rightarrow> f a)"

lemma bind_outcome_simps [simp]:
  "bind_outcome (Inl e) f = Inl e"
  "bind_outcome (Inr a) f = f a"
  by (simp_all add: bind_outcome_def)

lemma bind_outcome_InrE:
  assumes "bind_outcome m f = Inr b"
  obtains a where "m = Inr a" and "f a = Inr b"
  using assms by (cases m) auto

lemma bind_outcome_cong [fundef_cong]:
  "m = m' \<Longrightarrow> (\<And>a. m' = Inr a \<Longrightarrow> f a = g a) \<Longrightarrow> bind_outcome m f = bind_outcome m' g"
  by (cases m') auto

subsection \<open>Character classes of the C locale\<close>

abbreviation byte :: "char \<Rightarrow> nat" where
  "byte c \<equiv> of_char c"

definition isdigit :: "char \<Rightarrow> bool" where
  "isdigit c = (48 \<le> byte c \<and> byte c \<le> 57)"

definition isupper :: "char \<Rightarrow> bool" where
  "isupper c = (65 \<le> byte c \<and> byte c \<le> 90)"

definition islower :: "char \<Rightarrow> bool" where
  "islower c = (97 \<le> byte c \<and> byte c \<le> 122)"

definition isalpha :: "char \<Rightarrow> bool" where
  "isalpha c = (isupper c \<or> islower c)"

definition isalnum :: "char \<Rightarrow> bool" where
  "isalnum c = (isalpha c \<or> isdigit c)"

definition isspace :: "char \<Rightarrow> bool" where
  "isspace c = (byte c = 32 \<or> (9 \<le> byte c \<and> byte c \<le> 13))"

definition isxdigit :: "char \<Rightarrow> bool" where
  "isxdigit c = (isdigit c \<or> (65 \<le> byte c \<and> byte c \<le> 70) \<or> (97 \<le> byte c \<and> byte c \<le> 102))"

definition ispunct :: "char \<Rightarrow> bool" where
  "ispunct c = (33 \<le> byte c \<and> byte c \<le> 126 \<and> \<not> isalnum c)"

lemmas ctype_defs =
  isdigit_def isupper_def islower_def isalpha_def isalnum_def isspace_def isxdigit_def ispunct_def

lemma not_xdigit_colon [simp]: "\<not> isxdigit CHR '':''"
  by (simp add: ctype_defs)

subsection \<open>C string primitives\<close>

text \<open>\<open>strncmp (s, t, n) == 0\<close> on NUL-terminated strings: equal up to \<open>n\<close> bytes or both ended.\<close>

definition strncmp_eq :: "string \<Rightarrow> string \<Rightarrow> nat \<Rightarrow> bool" where
  "strncmp_eq s t n = (take n s = take n t)"

lemma strncmp_eq_prefix: "strncmp_eq s t (length t) = (\<exists>u. s = t @ u)"
proof
  assume "strncmp_eq s t (length t)"
  then have "take (length t) s = t" by (simp add: strncmp_eq_def)
  then show "\<exists>u. s = t @ u" by (metis append_take_drop_id)
next
  assume "\<exists>u. s = t @ u"
  then show "strncmp_eq s t (length t)" by (auto simp: strncmp_eq_def)
qed

text \<open>The sign of \<open>strcmp\<close>: bytes compare as unsigned, a prefix comes first.\<close>

fun strcmp :: "string \<Rightarrow> string \<Rightarrow> int" where
  "strcmp [] [] = 0"
| "strcmp [] (_ # _) = - 1"
| "strcmp (_ # _) [] = 1"
| "strcmp (c # s) (d # t) =
     (if c = d then strcmp s t else if byte c < byte d then - 1 else 1)"

lemma byte_eq_iff: "byte c = (byte d :: nat) \<longleftrightarrow> c = d"
  by simp

lemma strcmp_eq_0 [simp]: "strcmp s t = 0 \<longleftrightarrow> s = t"
  by (induction s t rule: strcmp.induct) auto

lemma strcmp_refl [simp]: "strcmp s s = 0"
  by simp

lemma strcmp_swap: "strcmp t s = - strcmp s t"
  by (induction s t rule: strcmp.induct) (auto simp: not_less le_less)

lemma strcmp_trans: "strcmp s t \<le> 0 \<Longrightarrow> strcmp t u \<le> 0 \<Longrightarrow> strcmp s u \<le> 0"
proof (induction s t arbitrary: u rule: strcmp.induct)
  case (2 d t)
  show ?case by (cases u) simp_all
next
  case (4 c s d t)
  then show ?case by (cases u) (auto split: if_splits)
qed simp_all

text \<open>\<open>strstr (big, small) != NULL\<close>.\<close>

fun strstr :: "string \<Rightarrow> string \<Rightarrow> bool" where
  "strstr [] small = (small = [])"
| "strstr (c # cs) small = (take (length small) (c # cs) = small \<or> strstr cs small)"

lemma strstr_iff: "strstr big small = (\<exists>u v. big = u @ small @ v)"
proof (induction big)
  case Nil
  then show ?case by simp
next
  case (Cons c cs)
  show ?case
  proof
    assume "strstr (c # cs) small"
    then consider "take (length small) (c # cs) = small" | "strstr cs small" by auto
    then show "\<exists>u v. c # cs = u @ small @ v"
    proof cases
      case 1
      then have "c # cs = [] @ small @ drop (length small) (c # cs)"
        by (metis append_Nil append_take_drop_id)
      then show ?thesis by blast
    next
      case 2
      with Cons.IH show ?thesis by (metis append_Cons)
    qed
  next
    assume "\<exists>u v. c # cs = u @ small @ v"
    then obtain u v where uv: "c # cs = u @ small @ v" by blast
    show "strstr (c # cs) small"
    proof (cases u)
      case Nil
      with uv have "take (length small) (c # cs) = small" by simp
      then show ?thesis by simp
    next
      case (Cons a u')
      with uv have "cs = u' @ small @ v" by simp
      with Cons.IH show ?thesis by auto
    qed
  qed
qed

lemma strstr_single: "strstr s [c] = (c \<in> set s)"
  by (induction s) auto

text \<open>
  \<open>sscanf (s, "%[^set]", buf)\<close> and \<open>sscanf (s, "%n[^set]", buf)\<close>: the longest prefix without a
  character of the set. The callers clear the buffer first, so no match leaves the empty string.
\<close>

definition scan_not :: "string \<Rightarrow> string \<Rightarrow> string" where
  "scan_not seps s = takeWhile (\<lambda>c. c \<notin> set seps) s"

definition scan_not_n :: "nat \<Rightarrow> string \<Rightarrow> string \<Rightarrow> string" where
  "scan_not_n n seps s = take n (scan_not seps s)"

lemma scan_not_Nil [scan_simps, simp]: "scan_not seps [] = []"
  by (simp add: scan_not_def)

lemma scan_not_Cons [scan_simps]:
  "scan_not seps (c # s) = (if c \<in> set seps then [] else c # scan_not seps s)"
  by (simp add: scan_not_def)

lemma length_scan_not [length_facts]: "length (scan_not seps s) \<le> length s"
  by (simp add: scan_not_def length_takeWhile_le)

lemma length_scan_not_n [length_facts]: "length (scan_not_n n seps s) \<le> length s"
  unfolding scan_not_n_def using length_scan_not [of seps s] by simp

lemma scan_not_clean: "c \<in> set (scan_not seps s) \<Longrightarrow> c \<notin> set seps"
  by (auto simp: scan_not_def dest: set_takeWhileD)

lemma scan_not_append:
  "\<forall>c \<in> set s. c \<notin> set seps \<Longrightarrow> c \<in> set seps \<Longrightarrow> scan_not seps (s @ c # t) = s"
  by (simp add: scan_not_def takeWhile_append2)

lemma scan_not_all: "\<forall>c \<in> set s. c \<notin> set seps \<Longrightarrow> scan_not seps s = s"
  by (simp add: scan_not_def)

lemma scan_not_single [simp]: "sep \<notin> set t \<Longrightarrow> scan_not [sep] t = t"
  by (rule scan_not_all) auto

lemma sep_notin_scan [simp]: "sep \<notin> set (scan_not [sep] s)" "sep \<notin> set (scan_not_n n [sep] s)"
  using scan_not_clean [of sep "[sep]" s] by (auto simp: scan_not_n_def dest: in_set_takeD)

text \<open>
  \<open>sscanf (s, "%d", \<dots>)\<close> and \<open>%ld\<close>: white space, an optional sign, at least one digit. The value is
  the mathematical one; the rest of the string is what a following conversion would read.
\<close>

definition digits_value :: "string \<Rightarrow> int" where
  "digits_value ds = foldl (\<lambda>v d. 10 * v + (int (byte d) - 48)) 0 ds"

definition scan_unsigned :: "string \<Rightarrow> (int \<times> string) option" where
  "scan_unsigned s = (let ds = takeWhile isdigit s in
     if ds = [] then None else Some (digits_value ds, drop (length ds) s))"

definition scan_int :: "string \<Rightarrow> (int \<times> string) option" where
  "scan_int s = (case dropWhile isspace s of
       [] \<Rightarrow> None
     | c # r \<Rightarrow>
         if c = CHR ''-'' then map_option (\<lambda>(v, t). (- v, t)) (scan_unsigned r)
         else if c = CHR ''+'' then scan_unsigned r
         else scan_unsigned (c # r))"

text \<open>A conversion into an initialised variable: the old value stays when nothing matches.\<close>

definition scan_int_or :: "int \<Rightarrow> string \<Rightarrow> int" where
  "scan_int_or old s = (case scan_int s of None \<Rightarrow> old | Some (v, _) \<Rightarrow> v)"

text \<open>The text \<open>printf\<close> gives for \<open>%d\<close> of a number that is not negative, which the scans read back.\<close>

fun show_nat :: "nat \<Rightarrow> string" where
  "show_nat n = (if n < 10 then [char_of (48 + n)] else show_nat (n div 10) @ [char_of (48 + n mod 10)])"

declare show_nat.simps [simp del]

lemma show_nat_digits: "list_all isdigit (show_nat n)"
proof (induction n rule: show_nat.induct)
  case (1 n)
  have "isdigit (char_of (48 + n mod 10))" by (simp add: isdigit_def)
  moreover have "n < 10 \<Longrightarrow> n mod 10 = n" by simp
  ultimately show ?case using 1 by (subst show_nat.simps) auto
qed

lemma show_nat_nonempty [simp]: "show_nat n \<noteq> []"
  by (subst show_nat.simps) simp

lemma length_show_nat: "n < 10 ^ Suc k \<Longrightarrow> length (show_nat n) \<le> Suc k"
proof (induction k arbitrary: n)
  case 0
  then show ?case by (subst show_nat.simps) simp
next
  case (Suc k)
  then have "n div 10 < 10 ^ Suc k" by auto
  with Suc.IH [of "n div 10"] show ?case by (subst show_nat.simps) simp
qed

lemma digits_value_snoc: "digits_value (ds @ [d]) = 10 * digits_value ds + (int (byte d) - 48)"
  by (simp add: digits_value_def)

lemma digits_value_show [simp]: "digits_value (show_nat n) = int n"
proof (induction n rule: show_nat.induct)
  case (1 n)
  show ?case
  proof (cases "n < 10")
    case True
    then show ?thesis by (subst show_nat.simps) (simp add: digits_value_def)
  next
    case False
    have "int n = int (10 * (n div 10) + n mod 10)" by simp
    then have "10 * int (n div 10) + int (n mod 10) = int n" by linarith
    with 1 False show ?thesis by (subst show_nat.simps) (simp add: digits_value_snoc)
  qed
qed

lemma scan_unsigned_show:
  assumes "r = [] \<or> \<not> isdigit (hd r)"
  shows "scan_unsigned (show_nat n @ r) = Some (int n, r)"
proof -
  have digits: "\<And>c. c \<in> set (show_nat n) \<Longrightarrow> isdigit c"
    using show_nat_digits [of n] by (simp add: list_all_iff)
  have "takeWhile isdigit (show_nat n @ r) = show_nat n"
    using assms digits by (cases r) (auto simp: takeWhile_append2)
  then show ?thesis by (simp add: scan_unsigned_def)
qed

lemma isdigit_not: "isdigit c \<Longrightarrow> \<not> isspace c \<and> c \<noteq> CHR ''-'' \<and> c \<noteq> CHR ''+''"
  by (auto simp: isdigit_def isspace_def)

lemma scan_int_show:
  assumes "r = [] \<or> \<not> isdigit (hd r)"
  shows "scan_int (show_nat n @ r) = Some (int n, r)"
proof -
  obtain c s where cs: "show_nat n = c # s" using show_nat_nonempty by (cases "show_nat n") auto
  then have "isdigit c" using show_nat_digits [of n] by simp
  with scan_unsigned_show [OF assms, of n] isdigit_not [of c] cs show ?thesis
    by (simp add: scan_int_def)
qed

text \<open>A loop over an array that stops at the first element with a property.\<close>

fun index_from :: "('a \<Rightarrow> bool) \<Rightarrow> nat \<Rightarrow> 'a list \<Rightarrow> nat option" where
  "index_from P i [] = None"
| "index_from P i (x # xs) = (if P x then Some i else index_from P (Suc i) xs)"

subsection \<open>Generic list lemmas\<close>

lemma takeWhile_dropWhile_split: "s = takeWhile P s @ dropWhile P s"
  by simp

lemma Suc_double_less:
  "m < n \<Longrightarrow> Suc (2 * m) < 2 * (n :: nat)" "m < n \<Longrightarrow> Suc (2 * m) \<le> 2 * (n :: nat)"
  by simp_all

lemma takeWhile_upto: "x \<notin> set n \<Longrightarrow> takeWhile (\<lambda>c. c \<noteq> x) (n @ x # s) = n"
  by (induction n) auto

lemma length_drop_takeWhile [length_facts]: "length (dropWhile P s) \<le> length s"
  by (induction s) auto

lemma drop_length_scan_not: "drop (length (scan_not seps s)) s = dropWhile (\<lambda>c. c \<notin> set seps) s"
  by (simp add: scan_not_def dropWhile_eq_drop)

lemma butlast_snoc_brackets: "butlast (tl (x # xs @ [y])) = xs"
  by simp

end
