(* ===== verification/Items.thy ===== *)
theory Items
  imports Prelude "HOL-Library.Multiset"
begin

text \<open>
  item.c: the singly linked \<open>struct Item\<close> lists that hold every collection of the program (the
  class heap, the lines of an edited file, list variables), the lists of lists, the splitting of
  strings into lists, and the two merge sorts. A list of nodes is a HOL list; a node pointer is
  its index. \<open>malloc\<close> is taken to succeed.

  The locale \<open>name_set\<close> is the contract the clients of an item list rely on (what is found after
  an append); \<open>merge_order\<close> is what the merge sort needs of its comparison, and \<open>stable_merge\<close>
  what makes it stable. All three are interpreted below on the functions of item.c.
\<close>

subsection \<open>The node and the list operations\<close>

record item =
  it_name :: string
  it_classes :: "string option"
  it_counter :: int

definition mk_item :: "string \<Rightarrow> string option \<Rightarrow> item" where
  "mk_item s c = \<lparr>it_name = s, it_classes = c, it_counter = 0\<rparr>"

lemma mk_item_simps [simp]:
  "it_name (mk_item s c) = s" "it_classes (mk_item s c) = c" "it_counter (mk_item s c) = 0"
  by (simp_all add: mk_item_def)

definition ListLen :: "item list \<Rightarrow> nat" where
  "ListLen xs = foldl (\<lambda>count _. count + 1) 0 xs"

definition ByteSizeList :: "item list \<Rightarrow> nat" where
  "ByteSizeList xs = foldl (\<lambda>count ip. count + length (it_name ip)) 0 xs"

fun name_among :: "item list \<Rightarrow> string \<Rightarrow> bool" where
  "name_among [] s = False"
| "name_among (p # ps) s = (if it_name p = s then True else name_among ps s)"

definition IsItemIn :: "item list \<Rightarrow> string option \<Rightarrow> bool" where
  "IsItemIn xs item = (case item of
       None \<Rightarrow> True
     | Some s \<Rightarrow> if length s = 0 then True else name_among xs s)"

fun counter_of :: "item list \<Rightarrow> string \<Rightarrow> int" where
  "counter_of [] s = - 1"
| "counter_of (p # ps) s = (if it_name p = s then it_counter p else counter_of ps s)"

definition GetItemListCounter :: "item list \<Rightarrow> string option \<Rightarrow> int" where
  "GetItemListCounter xs item = (case item of
       None \<Rightarrow> - 1
     | Some s \<Rightarrow> if length s = 0 then - 1 else counter_of xs s)"

fun update_counter :: "(int \<Rightarrow> int) \<Rightarrow> item list \<Rightarrow> string \<Rightarrow> item list" where
  "update_counter f [] s = []"
| "update_counter f (p # ps) s =
     (if it_name p = s then p\<lparr>it_counter := f (it_counter p)\<rparr> # ps else p # update_counter f ps s)"

definition IncrementItemListCounter :: "item list \<Rightarrow> string option \<Rightarrow> item list" where
  "IncrementItemListCounter xs item = (case item of
       None \<Rightarrow> xs
     | Some s \<Rightarrow> if length s = 0 then xs else update_counter (\<lambda>n. n + 1) xs s)"

definition SetItemListCounter :: "item list \<Rightarrow> string option \<Rightarrow> int \<Rightarrow> item list" where
  "SetItemListCounter xs item value = (case item of
       None \<Rightarrow> xs
     | Some s \<Rightarrow> if length s = 0 then xs else update_counter (\<lambda>_. value) xs s)"

text \<open>
  The global \<open>NUMBEROFEDITS\<close> counts every change of a list. \<open>PrependItem\<close>, \<open>AppendItem\<close> and
  \<open>DeleteItem\<close> return it beside the list; the list parts alone (\<open>prepended\<close>, \<open>appended\<close>) serve the
  callers whose lists are not edited files.
\<close>

definition prepended :: "item list \<Rightarrow> string \<Rightarrow> string option \<Rightarrow> item list" where
  "prepended xs s c = mk_item s c # xs"

definition appended :: "item list \<Rightarrow> string \<Rightarrow> string option \<Rightarrow> item list" where
  "appended xs s c = xs @ [mk_item s c]"

definition PrependItem ::
  "item list \<times> nat \<Rightarrow> string \<Rightarrow> string option \<Rightarrow> item list \<times> nat" where
  "PrependItem st s c = (case st of (xs, edits) \<Rightarrow> (prepended xs s c, edits + 1))"

definition AppendItem ::
  "item list \<times> nat \<Rightarrow> string \<Rightarrow> string option \<Rightarrow> item list \<times> nat" where
  "AppendItem st s c = (case st of (xs, edits) \<Rightarrow> (appended xs s c, edits + 1))"

definition String2List :: "string \<Rightarrow> item list" where
  "String2List s = appended [] s (Some [])"

definition CopyList :: "item list \<Rightarrow> item list \<Rightarrow> item list outcome" where
  "CopyList dest source =
     (if dest \<noteq> [] then Inl (FatalErr ''CopyList - list not initialized'')
      else if source = [] then Inr dest
      else Inr (foldl (\<lambda>d ip. appended d (it_name ip) (it_classes ip)) dest source))"

definition ConcatLists :: "item list \<Rightarrow> item list \<Rightarrow> item list outcome" where
  "ConcatLists list1 list2 =
     (if list1 = [] then Inl (FatalErr ''ConcatLists: first argument must have at least one element'')
      else Inr (list1 @ list2))"

text \<open>
  \<open>DeleteItem\<close> gets a pointer: \<open>None\<close> is NULL, \<open>Some i\<close> the node at index \<open>i\<close>. The walk to the
  predecessor of a node that is not in the list runs off its end.
\<close>

definition DeleteItem :: "item list \<times> nat \<Rightarrow> nat option \<Rightarrow> (item list \<times> nat) outcome" where
  "DeleteItem st ptr = (case st of (xs, edits) \<Rightarrow> (case ptr of
       None \<Rightarrow> Inr (xs, edits)
     | Some i \<Rightarrow>
         if i < length xs then Inr (take i xs @ drop (i + 1) xs, edits + 1)
         else Inl (Undefined ''DeleteItem: node not in the list'')))"

fun ItemListsEqual :: "item list \<Rightarrow> item list \<Rightarrow> bool" where
  "ItemListsEqual [] [] = True"
| "ItemListsEqual [] (_ # _) = False"
| "ItemListsEqual (_ # _) [] = False"
| "ItemListsEqual (p # ps) (q # qs) =
     (if it_name p \<noteq> it_name q then False else ItemListsEqual ps qs)"

text \<open>\<open>InstallItem\<close> does not set the counter, which keeps what \<open>malloc\<close> left there (\<open>junk\<close>).\<close>

record sched_item = item +
  it_ifelapsed :: int
  it_expireafter :: int
  it_logaudit :: bool
  it_audit :: "nat option"
  it_lineno :: int

record install_globals =
  PIFELAPSED :: int
  PEXPIREAFTER :: int
  AUDITP :: bool
  AUDITPTR :: "nat option"
  LINENUMBER :: int

definition InstallItem ::
  "install_globals \<Rightarrow> int \<Rightarrow> sched_item list \<times> nat \<Rightarrow> string \<Rightarrow> string option \<Rightarrow> int \<Rightarrow> int
     \<Rightarrow> sched_item list \<times> nat" where
  "InstallItem g junk st s c ifelapsed expireafter = (case st of (xs, edits) \<Rightarrow>
     (xs @ [\<lparr>it_name = s, it_classes = c, it_counter = junk,
             it_ifelapsed = (if PIFELAPSED g \<noteq> - 1 then PIFELAPSED g else ifelapsed),
             it_expireafter = (if PEXPIREAFTER g \<noteq> - 1 then PEXPIREAFTER g else expireafter),
             it_logaudit = AUDITP g, it_audit = AUDITPTR g, it_lineno = LINENUMBER g\<rparr>],
      edits + 1))"

subsection \<open>Lists of lists\<close>

record lol =
  lol_name :: string
  lol_list :: "item list"

definition PrependLoL :: "lol list \<Rightarrow> string \<Rightarrow> lol list" where
  "PrependLoL ls name =
     (if \<exists>ip \<in> set ls. lol_name ip = name then ls
      else \<lparr>lol_name = name, lol_list = []\<rparr> # ls)"

fun AddToLoL :: "lol list \<Rightarrow> string \<Rightarrow> string \<Rightarrow> lol list" where
  "AddToLoL [] name itemstring = []"
| "AddToLoL (ip # ls) name itemstring =
     (if lol_name ip = name then ip\<lparr>lol_list := prepended (lol_list ip) itemstring None\<rparr> # ls
      else ip # AddToLoL ls name itemstring)"

definition lol_lookup :: "lol list \<Rightarrow> string \<Rightarrow> item list option" where
  "lol_lookup ls name = map_of (map (\<lambda>l. (lol_name l, lol_list l)) ls) name"

subsection \<open>Splitting a string into a list\<close>

text \<open>
  \<open>SplitStringAsItemList\<close> reads maximal runs without the separator, in pieces of at most 255.
\<close>

function split_items :: "string \<Rightarrow> char \<Rightarrow> item list" where
  "split_items s sep = (case s of
       [] \<Rightarrow> []
     | c # cs \<Rightarrow>
         (let node = scan_not_n 255 [sep] s in
          if length node = 0 then split_items cs sep
          else mk_item node None # split_items (drop (length node) s) sep))"
  by pat_completeness auto
termination
  by (relation "measure (\<lambda>(s, sep). length s)") (auto simp: scan_not_n_def)

declare split_items.simps [simp del]

definition SplitStringAsItemList :: "string \<Rightarrow> char \<Rightarrow> item list" where
  "SplitStringAsItemList string sep = split_items string sep"

text \<open>
  \<open>AppendItems\<close> works on a copy of at most 1023 bytes, cuts a token after 250 bytes and drops the
  byte after each token. After a token that ends at the terminator the pointer moves one byte
  beyond it, which is inside the zeroed copy only when the copy is not full.
\<close>

definition item_seps :: string where
  "item_seps = [CHR '' '', CHR '','', CHR 0x0A, CHR 0x09]"

function append_items :: "bool \<Rightarrow> item list \<times> nat \<Rightarrow> string \<Rightarrow> string option
    \<Rightarrow> (item list \<times> nat) outcome" where
  "append_items full st s c = (case s of
       [] \<Rightarrow> Inr st
     | a # as \<Rightarrow>
         (let currentitem = scan_not_n 250 item_seps s in
          if length currentitem = 0 then append_items full st as c
          else if currentitem = s then
            (if full then Inl (Undefined ''AppendItems: read past local'')
             else Inr (AppendItem st currentitem c))
          else append_items full (AppendItem st currentitem c)
                 (drop (length currentitem + 1) s) c))"
  by pat_completeness auto
termination
  by (relation "measure (\<lambda>(full, st, s, c). length s)") auto

declare append_items.simps [simp del]

definition AppendItems ::
  "item list \<times> nat \<Rightarrow> string option \<Rightarrow> string option \<Rightarrow> (item list \<times> nat) outcome" where
  "AppendItems st itemstring c = (case itemstring of
       None \<Rightarrow> Inr st
     | Some s \<Rightarrow>
         if length s = 0 then Inr st
         else append_items (1023 \<le> length s) st (take 1023 s) c)"

subsection \<open>The merge sorts\<close>

text \<open>
  Both sorts share one loop: passes that merge neighbouring runs of \<open>insize\<close> nodes, with
  \<open>insize\<close> doubled until a pass does at most one merge. \<open>first p q\<close> is the test that takes the
  next node from the left run. \<open>insize\<close> starts at 1, so the guard on 0 is never taken.
\<close>

fun merge_runs :: "('a \<Rightarrow> 'a \<Rightarrow> bool) \<Rightarrow> 'a list \<Rightarrow> 'a list \<Rightarrow> 'a list" where
  "merge_runs first [] qs = qs"
| "merge_runs first (p # ps) [] = p # ps"
| "merge_runs first (p # ps) (q # qs) =
     (if first p q then p # merge_runs first ps (q # qs)
      else q # merge_runs first (p # ps) qs)"

function merge_pass :: "('a \<Rightarrow> 'a \<Rightarrow> bool) \<Rightarrow> nat \<Rightarrow> 'a list \<Rightarrow> 'a list \<times> nat" where
  "merge_pass first insize xs =
     (if xs = [] \<or> insize = 0 then (xs, 0)
      else (let p = take insize xs; q = take insize (drop insize xs) in
        (case merge_pass first insize (drop insize (drop insize xs)) of
           (rest, nmerges) \<Rightarrow> (merge_runs first p q @ rest, nmerges + 1))))"
  by pat_completeness auto
termination
  by (relation "measure (\<lambda>(first, insize, xs). length xs)") auto

declare merge_pass.simps [simp del]

lemma merge_pass_Nil [simp]: "merge_pass first insize [] = ([], 0)"
  by (subst merge_pass.simps) simp

lemma merge_pass_step:
  "xs \<noteq> [] \<Longrightarrow> 0 < insize \<Longrightarrow> merge_pass first insize xs =
     (case merge_pass first insize (drop insize (drop insize xs)) of (rest, n) \<Rightarrow>
        (merge_runs first (take insize xs) (take insize (drop insize xs)) @ rest, n + 1))"
  by (subst merge_pass.simps) simp

lemma merge_pass_fst:
  "xs \<noteq> [] \<Longrightarrow> 0 < insize \<Longrightarrow> fst (merge_pass first insize xs) =
     merge_runs first (take insize xs) (take insize (drop insize xs))
       @ fst (merge_pass first insize (drop insize (drop insize xs)))"
  by (subst merge_pass_step) (simp_all split: prod.splits)

lemma merge_pass_snd:
  "xs \<noteq> [] \<Longrightarrow> 0 < insize \<Longrightarrow> snd (merge_pass first insize xs) =
     snd (merge_pass first insize (drop insize (drop insize xs))) + 1"
  by (subst merge_pass_step) (simp_all split: prod.splits)

lemma merge_pass_count:
  "merge_pass first insize xs = (ys, n) \<Longrightarrow> 2 \<le> n \<Longrightarrow> 0 < insize \<and> 2 * insize < length xs"
proof (induction first insize xs arbitrary: ys n rule: merge_pass.induct)
  case (1 first insize xs)
  from 1(2,3) have ne: "xs \<noteq> []" "insize \<noteq> 0"
    by (auto simp: merge_pass.simps [of first insize xs] split: if_splits)
  let ?r = "drop insize (drop insize xs)"
  obtain zs m where zs: "merge_pass first insize ?r = (zs, m)" by fastforce
  with 1(2) ne have "n = m + 1"
    by (auto simp: merge_pass.simps [of first insize xs])
  with 1(3) have "1 \<le> m" by simp
  have "?r \<noteq> []"
  proof
    assume "?r = []"
    with zs \<open>1 \<le> m\<close> show False by (simp only: merge_pass_Nil) simp
  qed
  with ne show ?case by simp
qed

lemma merge_runs_length: "length (merge_runs first ps qs) = length ps + length qs"
  by (induction first ps qs rule: merge_runs.induct) auto

lemma merge_pass_length: "length (fst (merge_pass first insize xs)) = length xs"
proof (induction first insize xs rule: merge_pass.induct)
  case (1 first insize xs)
  then show ?case
    by (auto simp: merge_pass.simps [of first insize xs] merge_runs_length split: prod.splits)
qed

function sort_loop :: "('a \<Rightarrow> 'a \<Rightarrow> bool) \<Rightarrow> nat \<Rightarrow> 'a list \<Rightarrow> 'a list" where
  "sort_loop first insize xs = (case merge_pass first insize xs of
       (ys, nmerges) \<Rightarrow> if nmerges \<le> 1 then ys else sort_loop first (2 * insize) ys)"
  by pat_completeness auto
termination
proof (relation "measure (\<lambda>(first, insize, xs). length xs - insize)", goal_cases)
  case (2 first insize xs ys n)
  then have *: "merge_pass first insize xs = (ys, n)" and "2 \<le> n" by auto
  with merge_pass_count [OF *] merge_pass_length [of first insize xs] show ?case by auto
qed simp

declare sort_loop.simps [simp del]

definition SortItemListNames :: "item list \<Rightarrow> item list" where
  "SortItemListNames xs =
     (if xs = [] then [] else sort_loop (\<lambda>p q. strcmp (it_name p) (it_name q) \<le> 0) 1 xs)"

definition SortItemListCounters :: "item list \<Rightarrow> item list" where
  "SortItemListCounters xs =
     (if xs = [] then [] else sort_loop (\<lambda>p q. it_counter p > it_counter q) 1 xs)"

subsection \<open>The contract of an item list\<close>

text \<open>The idiom \<open>if (!IsItemIn (list, s)) AppendItem (&list, s, \<dots>)\<close> of the clients.\<close>

definition add_once :: "('s \<Rightarrow> string \<Rightarrow> bool) \<Rightarrow> ('s \<Rightarrow> string \<Rightarrow> 's) \<Rightarrow> 's \<Rightarrow> string \<Rightarrow> 's" where
  "add_once isin add st s = (if isin st s then st else add st s)"

locale name_set =
  fixes names :: "'s \<Rightarrow> string list"
    and isin :: "'s \<Rightarrow> string \<Rightarrow> bool"
    and add :: "'s \<Rightarrow> string \<Rightarrow> 's"
  assumes isin_iff: "isin st s \<longleftrightarrow> s = [] \<or> s \<in> set (names st)"
    and names_add: "names (add st s) = names st @ [s]"
begin

lemma isin_add: "isin (add st s) t \<longleftrightarrow> isin st t \<or> t = s"
  by (auto simp: isin_iff names_add)

lemma names_add_once:
  "set (names (add_once isin add st s)) = set (names st) \<union> ({s} - {[]})"
  by (auto simp: add_once_def isin_iff names_add)

lemma distinct_add_once: "distinct (names st) \<Longrightarrow> distinct (names (add_once isin add st s))"
  by (auto simp: add_once_def isin_iff names_add)

lemma isin_add_once: "isin (add_once isin add st s) t \<longleftrightarrow> isin st t \<or> t = s"
  by (auto simp: add_once_def isin_iff names_add)

lemma add_once_idem: "add_once isin add (add_once isin add st s) s = add_once isin add st s"
  by (auto simp: add_once_def isin_iff names_add)

lemma names_fold_add_once:
  "set (names (foldl (add_once isin add) st ss)) = set (names st) \<union> (set ss - {[]})"
  by (induction ss arbitrary: st) (auto simp: names_add_once)

lemma distinct_fold_add_once:
  "distinct (names st) \<Longrightarrow> distinct (names (foldl (add_once isin add) st ss))"
  by (induction ss arbitrary: st) (auto simp: distinct_add_once)

lemma prefix_fold_add_once:
  "\<exists>new. names (foldl (add_once isin add) st ss) = names st @ new"
proof (induction ss arbitrary: st)
  case Nil
  then show ?case by simp
next
  case (Cons s ss)
  obtain new where "names (foldl (add_once isin add) (add_once isin add st s) ss)
      = names (add_once isin add st s) @ new"
    using Cons.IH by blast
  moreover obtain new' where "names (add_once isin add st s) = names st @ new'"
    by (cases "isin st s") (auto simp: add_once_def names_add)
  ultimately show ?case by simp
qed

end

lemma name_among_iff: "name_among xs s \<longleftrightarrow> s \<in> it_name ` set xs"
  by (induction xs) auto

lemma IsItemIn_iff: "IsItemIn xs (Some s) \<longleftrightarrow> s = [] \<or> s \<in> set (map it_name xs)"
  by (simp add: IsItemIn_def name_among_iff)

interpretation il: name_set "map it_name" "\<lambda>xs s. IsItemIn xs (Some s)" "\<lambda>xs s. appended xs s c"
  for c
  by unfold_locales (simp_all only: IsItemIn_iff, simp add: appended_def)

subsection \<open>Correctness of the merge sort\<close>

definition chunks_sorted :: "('a \<Rightarrow> 'a \<Rightarrow> bool) \<Rightarrow> nat \<Rightarrow> 'a list \<Rightarrow> bool" where
  "chunks_sorted R k xs \<longleftrightarrow> (\<forall>i. sorted_wrt R (take k (drop (i * k) xs)))"

lemma chunks_sorted_1: "chunks_sorted R (Suc 0) xs"
  unfolding chunks_sorted_def
proof
  fix i
  show "sorted_wrt R (take (Suc 0) (drop (i * Suc 0) xs))"
    by (cases "drop i xs") simp_all
qed

lemma chunks_sorted_parts:
  assumes "chunks_sorted R k xs"
  shows "sorted_wrt R (take k xs)" and "sorted_wrt R (take k (drop k xs))"
    and "chunks_sorted R k (drop k (drop k xs))"
proof -
  have ch: "sorted_wrt R (take k (drop (i * k) xs))" for i
    using assms by (simp add: chunks_sorted_def)
  show "sorted_wrt R (take k xs)" using ch [of 0] by simp
  show "sorted_wrt R (take k (drop k xs))" using ch [of 1] by simp
  have "sorted_wrt R (take k (drop (i * k) (drop k (drop k xs))))" for i
    using ch [of "i + 2"] by (simp add: algebra_simps)
  then show "chunks_sorted R k (drop k (drop k xs))" by (simp add: chunks_sorted_def)
qed

lemma chunks_sorted_append:
  assumes "sorted_wrt R ys" and "chunks_sorted R k zs" and "length ys = k \<or> (length ys < k \<and> zs = [])"
  shows "chunks_sorted R k (ys @ zs)"
  unfolding chunks_sorted_def
proof
  fix i
  show "sorted_wrt R (take k (drop (i * k) (ys @ zs)))"
  proof (cases i)
    case 0
    with assms show ?thesis by auto
  next
    case (Suc j)
    then have "drop (i * k) (ys @ zs) = drop (j * k) zs" using assms(3) by auto
    with assms(2) show ?thesis by (simp add: chunks_sorted_def)
  qed
qed

lemma mset_merge_runs: "mset (merge_runs first ps qs) = mset ps + mset qs"
  by (induction first ps qs rule: merge_runs.induct) auto

lemma set_merge_runs [simp]: "set (merge_runs first ps qs) = set ps \<union> set qs"
  by (metis mset_merge_runs set_mset_mset set_mset_union)

lemma mset_take_drop3:
  "mset (take k xs) + (mset (take k (drop k xs)) + mset (drop k (drop k xs))) = mset xs"
  by (metis append_take_drop_id mset_append)

lemma mset_merge_pass: "mset (fst (merge_pass first k xs)) = mset xs"
proof (induction first k xs rule: merge_pass.induct)
  case (1 first k xs)
  show ?case
  proof (cases "xs = [] \<or> k = 0")
    case True
    then show ?thesis by (subst merge_pass.simps) simp
  next
    case False
    with 1 have "mset (fst (merge_pass first k (drop k (drop k xs)))) = mset (drop k (drop k xs))"
      by blast
    with False show ?thesis
      using mset_take_drop3 [of k xs]
      by (auto simp: merge_pass_step mset_merge_runs add.assoc simp del: drop_drop split: prod.splits)
  qed
qed

lemma mset_sort_loop: "mset (sort_loop first k xs) = mset xs"
proof (induction first k xs rule: sort_loop.induct)
  case (1 first k xs)
  have m: "mset (fst (merge_pass first k xs)) = mset xs" by (rule mset_merge_pass)
  with 1 show ?case
    by (subst sort_loop.simps) (auto split: prod.splits)
qed

locale merge_order =
  fixes first :: "'a \<Rightarrow> 'a \<Rightarrow> bool" and R :: "'a \<Rightarrow> 'a \<Rightarrow> bool"
  assumes take_left: "first p q \<Longrightarrow> R p q"
    and take_right: "\<not> first p q \<Longrightarrow> R q p"
    and R_trans: "R p q \<Longrightarrow> R q r \<Longrightarrow> R p r"
begin

lemma sorted_merge_runs:
  "f = first \<Longrightarrow> sorted_wrt R ps \<Longrightarrow> sorted_wrt R qs \<Longrightarrow> sorted_wrt R (merge_runs f ps qs)"
proof (induction f ps qs rule: merge_runs.induct)
  case (3 f p ps q qs)
  show ?case
  proof (cases "f p q")
    case True
    with "3.prems" have "R p q" and "sorted_wrt R (merge_runs f ps (q # qs))"
      using "3.IH"(1) take_left by auto
    with True "3.prems" show ?thesis by (auto intro: R_trans)
  next
    case False
    with "3.prems" have "R q p" and "sorted_wrt R (merge_runs f (p # ps) qs)"
      using "3.IH"(2) take_right by auto
    with False "3.prems" show ?thesis by (auto intro: R_trans)
  qed
qed auto

lemma sorted_merge_pass:
  "f = first \<Longrightarrow> 0 < k \<Longrightarrow> chunks_sorted R k xs \<Longrightarrow>
     chunks_sorted R (2 * k) (fst (merge_pass f k xs))"
proof (induction f k xs rule: merge_pass.induct)
  case (1 f k xs)
  show ?case
  proof (cases "xs = []")
    case True
    then show ?thesis by (simp add: chunks_sorted_def)
  next
    case False
    let ?r = "drop k (drop k xs)"
    note parts = chunks_sorted_parts [OF "1.prems"(3)]
    let ?m = "merge_runs f (take k xs) (take k (drop k xs))"
    let ?rest = "fst (merge_pass f k ?r)"
    have m: "sorted_wrt R ?m" using "1.prems"(1) parts sorted_merge_runs by blast
    have rest: "chunks_sorted R (2 * k) ?rest"
      using "1.IH" False "1.prems"(1,2) parts(3) by blast
    have "length ?m = 2 * k \<or> length ?m < 2 * k \<and> ?rest = []"
      using merge_pass_length [of f k ?r] by (auto simp: merge_runs_length min_def)
    with m rest have "chunks_sorted R (2 * k) (?m @ ?rest)" by (rule chunks_sorted_append)
    then show ?thesis
      using False "1.prems"(2) by (simp only: merge_pass_fst not_False_eq_True)
  qed
qed

lemma sorted_merge_pass_once:
  assumes "0 < k" and "chunks_sorted R k xs" and "merge_pass first k xs = (ys, n)" and "n \<le> 1"
  shows "sorted_wrt R ys"
proof (cases "xs = []")
  case True
  with assms show ?thesis by simp
next
  case False
  let ?r = "drop k (drop k xs)"
  have "?r = []"
  proof (rule ccontr)
    assume "?r \<noteq> []"
    then have "1 \<le> snd (merge_pass first k ?r)"
      using merge_pass_snd [of ?r k first] assms(1) by (simp del: drop_drop)
    moreover have "snd (merge_pass first k xs) = snd (merge_pass first k ?r) + 1"
      using False assms(1) by (rule merge_pass_snd)
    ultimately show False using assms(3,4) by simp
  qed
  then have "ys = merge_runs first (take k xs) (take k (drop k xs))"
    using merge_pass_fst [of xs k first] False assms by (simp del: drop_drop)
  with chunks_sorted_parts [OF assms(2)] show ?thesis by (simp add: sorted_merge_runs)
qed

lemma sorted_sort_loop:
  "f = first \<Longrightarrow> 0 < k \<Longrightarrow> chunks_sorted R k xs \<Longrightarrow> sorted_wrt R (sort_loop f k xs)"
proof (induction f k xs rule: sort_loop.induct)
  case (1 f k xs)
  obtain ys n where ys: "merge_pass f k xs = (ys, n)" by fastforce
  show ?case
  proof (cases "n \<le> 1")
    case True
    with ys 1 show ?thesis by (subst sort_loop.simps) (simp add: sorted_merge_pass_once)
  next
    case False
    with ys 1 sorted_merge_pass [of f k xs] show ?thesis
      by (subst sort_loop.simps) simp
  qed
qed

lemma sort_loop_correct:
  "sorted_wrt R (sort_loop first 1 xs) \<and> mset (sort_loop first 1 xs) = mset xs"
  by (simp add: sorted_sort_loop chunks_sorted_1 mset_sort_loop)

end

text \<open>
  The sort is stable when the test takes the left node of two that compare equal: the nodes
  equal to any given one keep their order.
\<close>

locale stable_merge = merge_order +
  assumes tie_left: "R p q \<Longrightarrow> R q p \<Longrightarrow> first p q"
begin

definition tied :: "'a \<Rightarrow> 'a \<Rightarrow> bool" where
  "tied a x \<longleftrightarrow> R a x \<and> R x a"

lemma filter_merge_runs:
  "f = first \<Longrightarrow> sorted_wrt R ps \<Longrightarrow>
     filter (tied a) (merge_runs f ps qs) = filter (tied a) ps @ filter (tied a) qs"
proof (induction f ps qs rule: merge_runs.induct)
  case (3 f p ps q qs)
  show ?case
  proof (cases "f p q")
    case True
    with 3 show ?thesis by simp
  next
    case False
    have "tied a q \<Longrightarrow> \<not> tied a p'" if "p' \<in> set (p # ps)" for p'
    proof
      assume q: "tied a q" and p': "tied a p'"
      have "R p p' \<or> p = p'" using that "3.prems"(2) by auto
      with q p' have "R p q" unfolding tied_def using R_trans by blast
      moreover have "R q p" using False "3.prems"(1) take_right by simp
      ultimately show False using False "3.prems"(1) tie_left by simp
    qed
    then have "filter (tied a) (p # ps) = [] \<or> \<not> tied a q"
      by (auto simp: filter_empty_conv)
    with False 3 show ?thesis by auto
  qed
qed auto

lemma filter_merge_pass:
  "f = first \<Longrightarrow> 0 < k \<Longrightarrow> chunks_sorted R k xs \<Longrightarrow>
     filter (tied a) (fst (merge_pass f k xs)) = filter (tied a) xs"
proof (induction f k xs rule: merge_pass.induct)
  case (1 f k xs)
  show ?case
  proof (cases "xs = []")
    case True
    then show ?thesis by simp
  next
    case False
    let ?r = "drop k (drop k xs)"
    note parts = chunks_sorted_parts [OF "1.prems"(3)]
    have "filter (tied a) (fst (merge_pass f k ?r)) = filter (tied a) ?r"
      using "1.IH" False "1.prems"(1,2) parts(3) by blast
    then have "filter (tied a) (fst (merge_pass f k xs)) =
        filter (tied a) (take k xs @ take k (drop k xs) @ ?r)"
      using False "1.prems" parts(1)
      by (simp only: merge_pass_fst filter_append filter_merge_runs append_assoc not_False_eq_True)
    then show ?thesis by (simp only: append_take_drop_id)
  qed
qed

lemma sort_loop_stable:
  "f = first \<Longrightarrow> 0 < k \<Longrightarrow> chunks_sorted R k xs \<Longrightarrow>
     filter (tied a) (sort_loop f k xs) = filter (tied a) xs"
proof (induction f k xs rule: sort_loop.induct)
  case (1 f k xs)
  obtain ys n where ys: "merge_pass f k xs = (ys, n)" by fastforce
  with 1 have "filter (tied a) ys = filter (tied a) xs"
    using filter_merge_pass [of f k xs] by simp
  with ys 1 sorted_merge_pass [of f k xs] show ?case
    by (subst sort_loop.simps) simp
qed

end

definition name_le :: "item \<Rightarrow> item \<Rightarrow> bool" where
  "name_le p q \<longleftrightarrow> strcmp (it_name p) (it_name q) \<le> 0"

definition counter_ge :: "item \<Rightarrow> item \<Rightarrow> bool" where
  "counter_ge p q \<longleftrightarrow> it_counter q \<le> it_counter p"

interpretation by_name: stable_merge "\<lambda>p q. strcmp (it_name p) (it_name q) \<le> 0" name_le
proof
  fix p q r
  show "strcmp (it_name p) (it_name q) \<le> 0 \<Longrightarrow> name_le p q" by (simp add: name_le_def)
  show "\<not> strcmp (it_name p) (it_name q) \<le> 0 \<Longrightarrow> name_le q p"
    using strcmp_swap [of "it_name p" "it_name q"] by (simp add: name_le_def)
  show "name_le p q \<Longrightarrow> name_le q r \<Longrightarrow> name_le p r"
    unfolding name_le_def by (rule strcmp_trans)
  show "name_le p q \<Longrightarrow> name_le q p \<Longrightarrow> strcmp (it_name p) (it_name q) \<le> 0"
    by (simp add: name_le_def)
qed

interpretation by_counter: merge_order "\<lambda>p q. it_counter p > it_counter q" counter_ge
  by unfold_locales (auto simp: counter_ge_def)

lemma tied_name: "by_name.tied a = (\<lambda>x. it_name x = it_name a)"
proof
  fix x
  show "by_name.tied a x = (it_name x = it_name a)"
    using strcmp_swap [of "it_name a" "it_name x"]
    by (auto simp: by_name.tied_def name_le_def intro: order.antisym)
qed

subsection \<open>Lemmas on the operations\<close>

lemma ListLen_length: "ListLen xs = length xs"
proof -
  have "foldl (\<lambda>count _. count + 1) n xs = n + length xs" for n
    by (induction xs arbitrary: n) auto
  then show ?thesis by (simp add: ListLen_def)
qed

lemma ItemListsEqual_iff: "ItemListsEqual xs ys \<longleftrightarrow> map it_name xs = map it_name ys"
  by (induction xs ys rule: ItemListsEqual.induct) auto

lemma CopyList_copies:
  "CopyList [] source = Inr (map (\<lambda>ip. mk_item (it_name ip) (it_classes ip)) source)"
proof -
  have "foldl (\<lambda>d ip. appended d (it_name ip) (it_classes ip)) dest source
      = dest @ map (\<lambda>ip. mk_item (it_name ip) (it_classes ip)) source" for dest
    by (induction source arbitrary: dest) (simp_all add: appended_def)
  then show ?thesis by (simp add: CopyList_def)
qed

lemma counter_of_update:
  "s \<noteq> [] \<Longrightarrow> counter_of (update_counter f xs s) t =
     (if t = s \<and> name_among xs s then f (counter_of xs s) else counter_of xs t)"
  by (induction xs) auto

lemma split_items_Nil [simp]: "split_items [] sep = []"
  by (subst split_items.simps) simp

lemma scan_not_n_sep: "scan_not_n 255 [sep] (c # cs) = [] \<longleftrightarrow> c = sep"
  by (simp add: scan_not_n_def scan_not_Cons)

lemma split_items_sep [simp]: "split_items (sep # cs) sep = split_items cs sep"
  by (subst split_items.simps) (simp add: scan_not_n_sep)

lemma split_items_node:
  "c \<noteq> sep \<Longrightarrow> split_items (c # cs) sep =
     mk_item (scan_not_n 255 [sep] (c # cs)) None
       # split_items (drop (length (scan_not_n 255 [sep] (c # cs))) (c # cs)) sep"
  by (subst split_items.simps) (simp add: scan_not_n_sep Let_def)

lemma split_items_token:
  assumes "t \<noteq> []" and "length t \<le> 255" and "sep \<notin> set t" and "rest = [] \<or> (\<exists>r. rest = sep # r)"
  shows "split_items (t @ rest) sep = mk_item t None # split_items rest sep"
proof -
  obtain c cs where t: "t = c # cs" using assms(1) by (cases t) auto
  have "scan_not [sep] (t @ rest) = t"
    using assms(3,4) scan_not_append [of t "[sep]" sep] by auto
  with assms(2) have "scan_not_n 255 [sep] (c # cs @ rest) = t"
    by (simp add: scan_not_n_def t)
  then show ?thesis
    using split_items_node [of c sep "cs @ rest"] assms(3) by (auto simp: t)
qed

fun join_names :: "char \<Rightarrow> string list \<Rightarrow> string" where
  "join_names sep [] = []"
| "join_names sep [t] = t"
| "join_names sep (t # u # ts) = t @ sep # join_names sep (u # ts)"

lemma split_join:
  "\<forall>t \<in> set ts. t \<noteq> [] \<and> length t \<le> 255 \<and> sep \<notin> set t \<Longrightarrow>
     map it_name (split_items (join_names sep ts) sep) = ts"
proof (induction ts rule: join_names.induct)
  case (2 sep t)
  then show ?case using split_items_token [of t sep "[]"] by simp
next
  case (3 sep t u ts)
  then show ?case using split_items_token [of t sep "sep # join_names sep (u # ts)"] by simp
qed simp

lemma drop_take_scan:
  "drop (length (scan_not_n n [sep] s)) s = t \<Longrightarrow> scan_not_n n [sep] s @ t = s"
  unfolding scan_not_n_def scan_not_def
  by (metis append_take_drop_id append_eq_conv_conj takeWhile_dropWhile_id append.assoc)

lemma split_items_concat: "concat (map it_name (split_items s sep)) = filter (\<lambda>c. c \<noteq> sep) s"
proof (induction s sep rule: split_items.induct)
  case (1 s sep)
  show ?case
  proof (cases s)
    case Nil
    then show ?thesis by simp
  next
    case (Cons c cs)
    show ?thesis
    proof (cases "c = sep")
      case True
      with 1 Cons show ?thesis by (simp add: scan_not_n_sep)
    next
      case False
      let ?n = "scan_not_n 255 [sep] s"
      have "?n \<noteq> []" using False Cons scan_not_n_sep by auto
      then have IH: "concat (map it_name (split_items (drop (length ?n) s) sep))
          = filter (\<lambda>c. c \<noteq> sep) (drop (length ?n) s)"
        using "1.IH"(2) [OF Cons refl] Cons by simp
      have "filter (\<lambda>c. c \<noteq> sep) ?n = ?n"
        by (rule filter_True) (metis sep_notin_scan(2))
      moreover have "s = ?n @ drop (length ?n) s" using drop_take_scan [OF refl] by simp
      ultimately have "filter (\<lambda>c. c \<noteq> sep) s = ?n @ filter (\<lambda>c. c \<noteq> sep) (drop (length ?n) s)"
        by (metis filter_append)
      with IH False Cons show ?thesis by (simp add: split_items_node)
    qed
  qed
qed

lemma split_items_names:
  "p \<in> set (split_items s sep) \<Longrightarrow>
     it_name p \<noteq> [] \<and> length (it_name p) \<le> 255 \<and> sep \<notin> set (it_name p)"
proof (induction s sep rule: split_items.induct)
  case (1 s sep)
  show ?case
  proof (cases s)
    case Nil
    with 1 show ?thesis by simp
  next
    case (Cons c cs)
    show ?thesis
    proof (cases "c = sep")
      case True
      with 1 Cons show ?thesis by (simp add: scan_not_n_sep)
    next
      case False
      let ?n = "scan_not_n 255 [sep] s"
      have n: "?n \<noteq> []" "length ?n \<le> 255" "sep \<notin> set ?n"
        using False Cons scan_not_n_sep [of sep c cs] by (simp_all, simp add: scan_not_n_def)
      from "1.prems" False Cons consider "it_name p = ?n" |
          "p \<in> set (split_items (drop (length ?n) s) sep)"
        by (auto simp: split_items_node)
      then show ?thesis using n "1.IH"(2) [OF Cons refl] Cons by cases auto
    qed
  qed
qed

lemma lol_lookup_Prepend:
  "lol_lookup (PrependLoL ls name) n =
     (if n = name \<and> lol_lookup ls name = None then Some [] else lol_lookup ls n)"
proof -
  have "(\<exists>ip \<in> set ls. lol_name ip = name) \<longleftrightarrow> lol_lookup ls name \<noteq> None"
    by (induction ls) (auto simp: lol_lookup_def)
  then show ?thesis by (auto simp: PrependLoL_def lol_lookup_def)
qed

lemma lol_lookup_Add:
  "lol_lookup (AddToLoL ls name s) n =
     (if n = name then map_option (\<lambda>l. prepended l s None) (lol_lookup ls name)
      else lol_lookup ls n)"
  by (induction ls) (auto simp: lol_lookup_def)

subsection \<open>Properties\<close>

text \<open>
  C9. \<open>SortItemListNames\<close> returns a permutation of its list that is in \<open>strcmp\<close> order and in
  which nodes of equal name keep the order they had: a correct and stable sort.
\<close>

theorem SortItemListNames_correct:
  "sorted_wrt (\<lambda>p q. strcmp (it_name p) (it_name q) \<le> 0) (SortItemListNames xs)
   \<and> mset (SortItemListNames xs) = mset xs
   \<and> filter (\<lambda>p. it_name p = s) (SortItemListNames xs) = filter (\<lambda>p. it_name p = s) xs"
proof (cases "xs = []")
  case True
  then show ?thesis by (simp add: SortItemListNames_def)
next
  case False
  note correct = by_name.sort_loop_correct [of xs]
  have "filter (by_name.tied (mk_item s None)) (SortItemListNames xs)
      = filter (by_name.tied (mk_item s None)) xs"
    using False by (simp add: SortItemListNames_def by_name.sort_loop_stable chunks_sorted_1)
  then show ?thesis
    using False correct
    by (auto simp: SortItemListNames_def tied_name name_le_def [symmetric])
qed

text \<open>
  \<open>SortItemListCounters\<close> returns a permutation of its list with the counters in descending
  order.
\<close>

lemma SortItemListCounters_correct:
  "sorted_wrt (\<lambda>p q. it_counter q \<le> it_counter p) (SortItemListCounters xs)
   \<and> mset (SortItemListCounters xs) = mset xs"
  using by_counter.sort_loop_correct [of xs]
  by (simp add: SortItemListCounters_def counter_ge_def [abs_def])

text \<open>The comment in the loop says a left node that is higher \<open>or same\<close> goes first; it does not.\<close>

lemma SortItemListCounters_swaps_ties:
  "it_counter p = it_counter q \<Longrightarrow> SortItemListCounters [p, q] = [q, p]"
  by (simp add: SortItemListCounters_def sort_loop.simps merge_pass_step)

text \<open>
  Splitting the names joined by the separator gives the names back, when none is empty,
  longer than 255 bytes or contains the separator.
\<close>

lemma SplitStringAsItemList_join:
  "\<forall>t \<in> set ts. t \<noteq> [] \<and> length t \<le> 255 \<and> sep \<notin> set t \<Longrightarrow>
     map it_name (SplitStringAsItemList (join_names sep ts) sep) = ts"
  unfolding SplitStringAsItemList_def by (rule split_join)

lemma SplitStringAsItemList_join_witness:
  "map it_name (SplitStringAsItemList (join_names CHR '':'' [''a'', ''bc'']) CHR '':'') = [''a'', ''bc'']"
  by (rule SplitStringAsItemList_join) simp

text \<open>
  Whatever the input, \<open>SplitStringAsItemList\<close> loses nothing but separators: the names it
  returns, concatenated, are the string without its separators, and each name is nonempty, at most
  255 bytes long and free of the separator.
\<close>

lemma SplitStringAsItemList_content:
  "concat (map it_name (SplitStringAsItemList s sep)) = filter (\<lambda>c. c \<noteq> sep) s
   \<and> list_all (\<lambda>p. it_name p \<noteq> [] \<and> length (it_name p) \<le> 255 \<and> sep \<notin> set (it_name p))
        (SplitStringAsItemList s sep)"
  unfolding SplitStringAsItemList_def list_all_iff
  using split_items_concat split_items_names by blast

end
