(* ===== verification/ItemEdit.thy ===== *)
theory ItemEdit
  imports Items
begin

text \<open>
  item-ext.c: the line editor behind \<open>editfiles\<close>. A file is a list of items, one per line; the
  editor state holds the current line pointer and number and the count of edits. A line pointer is
  NULL, a line index, or dangling (the node it pointed to was freed). POSIX regular expressions
  are the parameter \<open>rx\<close>: \<open>rx pattern\<close> is \<open>None\<close> when \<open>regcomp\<close> fails and otherwise the function
  \<open>regexec\<close> computes, the span of the match or \<open>None\<close>. Lines have a name, so the tests for a NULL
  name never fire.
\<close>

subsection \<open>Regular expressions and the abort test\<close>

type_synonym matcher = "string \<Rightarrow> (nat \<times> nat) option"
type_synonym regcomp = "string \<Rightarrow> matcher option"

definition CF_BUFSIZE :: nat where
  "CF_BUFSIZE = 4096"

definition CfRegcomp :: "regcomp \<Rightarrow> string \<Rightarrow> matcher option" where
  "CfRegcomp rx regex = (if regex = [] then None else rx regex)"

text \<open>\<open>regexec\<close> succeeds and the match is the whole line.\<close>

definition whole_match :: "matcher \<Rightarrow> string \<Rightarrow> bool" where
  "whole_match m line = (case m line of
       None \<Rightarrow> False
     | Some (so, eo) \<Rightarrow> so = 0 \<and> eo = length line)"

definition ItemMatchesRegEx :: "regcomp \<Rightarrow> string \<Rightarrow> string \<Rightarrow> bool" where
  "ItemMatchesRegEx rx item regex = (case CfRegcomp rx regex of
       None \<Rightarrow> True
     | Some m \<Rightarrow> whole_match m item)"

definition LineMatches :: "regcomp \<Rightarrow> string \<Rightarrow> string \<Rightarrow> bool" where
  "LineMatches rx line regexp = (case CfRegcomp rx regexp of
       None \<Rightarrow> False
     | Some m \<Rightarrow> whole_match m line)"

definition RegexOK :: "regcomp \<Rightarrow> string \<Rightarrow> bool" where
  "RegexOK rx s = (CfRegcomp rx s \<noteq> None)"

record edit_ctx =
  EDABORTMODE :: bool
  VEDITABORT :: string
  EDITGROUPLEVEL :: int

definition aborts :: "regcomp \<Rightarrow> edit_ctx \<Rightarrow> string \<Rightarrow> bool" where
  "aborts rx ctx line = (EDABORTMODE ctx \<and> ItemMatchesRegEx rx line (VEDITABORT ctx))"

subsection \<open>The editor state\<close>

datatype lineptr = NullLine | At nat | Dangling

record editor =
  filestart :: "item list"
  CURRENTLINEPTR :: lineptr
  CURRENTLINENUMBER :: int
  NUMBEROFEDITS :: nat

definition line_at :: "item list \<Rightarrow> nat \<Rightarrow> lineptr" where
  "line_at xs i = (if i < length xs then At i else NullLine)"

definition put_file :: "editor \<Rightarrow> item list \<times> nat \<Rightarrow> editor" where
  "put_file ed r = ed\<lparr>filestart := fst r, NUMBEROFEDITS := snd r\<rparr>"

subsection \<open>Searching\<close>

text \<open>The search loops: stop at the first line that aborts or that is a hit.\<close>

fun locate :: "(string \<Rightarrow> bool) \<Rightarrow> (string \<Rightarrow> bool) \<Rightarrow> nat \<Rightarrow> item list \<Rightarrow> nat option" where
  "locate abort hit k [] = None"
| "locate abort hit k (p # ps) =
     (if abort (it_name p) then None
      else if hit (it_name p) then Some k
      else locate abort hit (Suc k) ps)"

definition LocateNextItemContaining ::
  "regcomp \<Rightarrow> edit_ctx \<Rightarrow> item list \<Rightarrow> string \<Rightarrow> nat option" where
  "LocateNextItemContaining rx ctx xs s = locate (aborts rx ctx) (\<lambda>l. strstr l s) 0 xs"

definition LocateNextItemMatching ::
  "regcomp \<Rightarrow> edit_ctx \<Rightarrow> item list \<Rightarrow> string \<Rightarrow> nat option" where
  "LocateNextItemMatching rx ctx xs s = (case CfRegcomp rx s of
       None \<Rightarrow> None
     | Some m \<Rightarrow> locate (aborts rx ctx) (whole_match m) 0 xs)"

definition LocateNextItemStarting ::
  "regcomp \<Rightarrow> edit_ctx \<Rightarrow> item list \<Rightarrow> string \<Rightarrow> nat option" where
  "LocateNextItemStarting rx ctx xs s =
     locate (aborts rx ctx) (\<lambda>l. strncmp_eq l s (length s)) 0 xs"

text \<open>
  The two searches that move the current line start at the line of index \<open>start\<close>. Only the first
  counts the lines it passes; the second leaves its line counter at 1.
\<close>

definition LocateItemMatchingRegExp ::
  "regcomp \<Rightarrow> edit_ctx \<Rightarrow> editor \<Rightarrow> nat \<Rightarrow> string \<Rightarrow> editor \<times> nat option" where
  "LocateItemMatchingRegExp rx ctx ed start s = (case CfRegcomp rx s of
       None \<Rightarrow> (ed, None)
     | Some m \<Rightarrow>
         (case locate (aborts rx ctx) (whole_match m) start (drop start (filestart ed)) of
            None \<Rightarrow> (ed, None)
          | Some i \<Rightarrow>
              (ed\<lparr>CURRENTLINENUMBER := CURRENTLINENUMBER ed + int (i - start),
                  CURRENTLINEPTR := At i\<rparr>, Some i)))"

definition LocateItemContainingRegExp ::
  "regcomp \<Rightarrow> edit_ctx \<Rightarrow> editor \<Rightarrow> nat \<Rightarrow> string \<Rightarrow> editor \<times> nat option" where
  "LocateItemContainingRegExp rx ctx ed start s = (case CfRegcomp rx s of
       None \<Rightarrow> (ed, None)
     | Some m \<Rightarrow>
         (case locate (aborts rx ctx) (\<lambda>l. m l \<noteq> None) start (drop start (filestart ed)) of
            None \<Rightarrow> (ed, None)
          | Some i \<Rightarrow> (ed\<lparr>CURRENTLINENUMBER := 1, CURRENTLINEPTR := At i\<rparr>, Some i)))"

definition GotoLastItem :: "editor \<Rightarrow> editor" where
  "GotoLastItem ed = (let n = length (filestart ed) in
     ed\<lparr>CURRENTLINENUMBER := 1 + int (n - 1),
        CURRENTLINEPTR := (if n = 0 then NullLine else At (n - 1))\<rparr>)"

subsection \<open>Inserting\<close>

definition InsertItemAfter :: "editor \<Rightarrow> string \<Rightarrow> editor outcome" where
  "InsertItemAfter ed s = (case CURRENTLINEPTR ed of
       NullLine \<Rightarrow>
         (case filestart ed of
            [] \<Rightarrow> Inr (ed\<lparr>filestart := [mk_item s None], CURRENTLINEPTR := At 0,
                        CURRENTLINENUMBER := 1, NUMBEROFEDITS := NUMBEROFEDITS ed + 1\<rparr>)
          | p # ps \<Rightarrow> Inr (ed\<lparr>filestart := p # mk_item s None # ps, CURRENTLINEPTR := At 1,
                        CURRENTLINENUMBER := 1, NUMBEROFEDITS := NUMBEROFEDITS ed + 1\<rparr>))
     | At i \<Rightarrow>
         Inr (ed\<lparr>filestart := take (i + 1) (filestart ed) @ mk_item s None # drop (i + 1) (filestart ed),
                 CURRENTLINEPTR := At (i + 1), CURRENTLINENUMBER := CURRENTLINENUMBER ed + 1,
                 NUMBEROFEDITS := NUMBEROFEDITS ed + 1\<rparr>)
     | Dangling \<Rightarrow> Inl (Undefined ''InsertItemAfter: freed current line''))"

subsection \<open>Deleting\<close>

datatype matchtypes =
    literalStart | literalComplete | literalSomewhere | regexComplete
  | NOTliteralStart | NOTliteralComplete | NOTliteralSomewhere | NOTregexComplete

text \<open>
  The test of \<open>DeleteItemGeneral\<close>. \<open>matchlen\<close> is set for \<open>literalStart\<close> only, so
  \<open>NOTliteralStart\<close> compares zero bytes. \<open>m\<close> is the compiled expression of the regex cases.
\<close>

definition matchlen :: "matchtypes \<Rightarrow> string \<Rightarrow> nat" where
  "matchlen type s = (if type = literalStart then length s else 0)"

fun delete_match :: "matcher \<Rightarrow> string \<Rightarrow> matchtypes \<Rightarrow> string \<Rightarrow> bool" where
  "delete_match m s NOTliteralStart line = (\<not> strncmp_eq line s (matchlen NOTliteralStart s))"
| "delete_match m s literalStart line = strncmp_eq line s (matchlen literalStart s)"
| "delete_match m s NOTliteralComplete line = (line \<noteq> s)"
| "delete_match m s literalComplete line = (line = s)"
| "delete_match m s NOTliteralSomewhere line = (\<not> strstr line s)"
| "delete_match m s literalSomewhere line = strstr line s"
| "delete_match m s NOTregexComplete line = (\<not> whole_match m line)"
| "delete_match m s regexComplete line = whole_match m line"

definition DeleteItemGeneral ::
  "regcomp \<Rightarrow> edit_ctx \<Rightarrow> item list \<times> nat \<Rightarrow> string \<Rightarrow> matchtypes \<Rightarrow> (item list \<times> nat) \<times> bool" where
  "DeleteItemGeneral rx ctx st s type = (case st of (xs, edits) \<Rightarrow>
     (let compiled = (if type = regexComplete \<or> type = NOTregexComplete then CfRegcomp rx s
                      else Some (\<lambda>_. None)) in
      case compiled of
        None \<Rightarrow> (st, False)
      | Some m \<Rightarrow>
          (case locate (aborts rx ctx) (delete_match m s type) 0 xs of
             None \<Rightarrow> (st, False)
           | Some i \<Rightarrow> ((take i xs @ drop (i + 1) xs, edits + 1), True))))"

definition DeleteItemStarting where
  "DeleteItemStarting rx ctx st s = DeleteItemGeneral rx ctx st s literalStart"

definition DeleteItemNotStarting where
  "DeleteItemNotStarting rx ctx st s = DeleteItemGeneral rx ctx st s NOTliteralStart"

definition DeleteItemLiteral where
  "DeleteItemLiteral rx ctx st s = DeleteItemGeneral rx ctx st s literalComplete"

definition DeleteItemMatching where
  "DeleteItemMatching rx ctx st s = DeleteItemGeneral rx ctx st s regexComplete"

definition DeleteItemNotMatching where
  "DeleteItemNotMatching rx ctx st s = DeleteItemGeneral rx ctx st s NOTregexComplete"

definition DeleteItemContaining where
  "DeleteItemContaining rx ctx st s = DeleteItemGeneral rx ctx st s literalSomewhere"

definition DeleteItemNotContaining where
  "DeleteItemNotContaining rx ctx st s = DeleteItemGeneral rx ctx st s NOTliteralSomewhere"

text \<open>
  \<open>DeleteToRegExp\<close>: the lines from the current one up to, not including, the first that matches.
  The second loop repeats the abort test before each line it deletes.
\<close>

fun delete_until :: "(string \<Rightarrow> bool) \<Rightarrow> nat \<Rightarrow> item list \<Rightarrow> nat \<Rightarrow> (item list \<times> nat) \<times> bool" where
  "delete_until abort 0 ps edits = ((ps, edits), True)"
| "delete_until abort (Suc k) [] edits = (([], edits), True)"
| "delete_until abort (Suc k) (p # ps) edits =
     (if abort (it_name p) then ((p # ps, edits), False)
      else delete_until abort k ps (edits + 1))"

definition DeleteToRegExp ::
  "regcomp \<Rightarrow> edit_ctx \<Rightarrow> editor \<Rightarrow> string \<Rightarrow> (editor \<times> bool) outcome" where
  "DeleteToRegExp rx ctx ed s = (case CURRENTLINEPTR ed of
       NullLine \<Rightarrow> Inr (ed, True)
     | Dangling \<Rightarrow> Inl (Undefined ''DeleteToRegExp: freed current line'')
     | At c \<Rightarrow> (case CfRegcomp rx s of
         None \<Rightarrow> Inr (ed, False)
       | Some m \<Rightarrow>
           (case locate (aborts rx ctx) (whole_match m) 0 (drop c (filestart ed)) of
              None \<Rightarrow> Inr (ed, False)
            | Some k \<Rightarrow>
                (case delete_until (aborts rx ctx) k (drop c (filestart ed)) (NUMBEROFEDITS ed) of
                   ((rest, edits), ok) \<Rightarrow>
                     Inr (put_file ed (take c (filestart ed) @ rest, edits), ok)))))"

text \<open>\<open>DeleteSeveralLines\<close>: up to \<open>N\<close> lines from the current one.\<close>

definition DeleteSeveralLines ::
  "regcomp \<Rightarrow> edit_ctx \<Rightarrow> editor \<Rightarrow> string \<Rightarrow> (editor \<times> bool) outcome" where
  "DeleteSeveralLines rx ctx ed s = (let N = scan_int_or (- 99) s in
     if N < 1 then Inr (ed, False)
     else (case CURRENTLINEPTR ed of
         NullLine \<Rightarrow> Inr (ed, True)
       | Dangling \<Rightarrow> Inl (Undefined ''DeleteSeveralLines: freed current line'')
       | At c \<Rightarrow>
           (case delete_until (aborts rx ctx) (nat N) (drop c (filestart ed)) (NUMBEROFEDITS ed) of
              ((rest, edits), ok) \<Rightarrow>
                Inr ((put_file ed (take c (filestart ed) @ rest, edits))
                       \<lparr>CURRENTLINEPTR := (if rest = [] then NullLine else At c)\<rparr>, ok))))"

subsection \<open>Lemmas\<close>

text \<open>What a search returns: the first hit, when nothing up to it aborts.\<close>

lemma locate_Some:
  "locate abort hit k xs = Some i \<longleftrightarrow>
     k \<le> i \<and> i - k < length xs \<and> hit (it_name (xs ! (i - k)))
     \<and> (\<forall>j < i - k. \<not> hit (it_name (xs ! j))) \<and> (\<forall>j \<le> i - k. \<not> abort (it_name (xs ! j)))"
proof (induction xs arbitrary: k)
  case Nil
  then show ?case by simp
next
  case (Cons p ps)
  have all_less: "(\<forall>j < Suc n. P j) \<longleftrightarrow> P 0 \<and> (\<forall>j < n. P (Suc j))" for P and n :: nat
    by (metis less_Suc_eq_0_disj)
  have all_le: "(\<forall>j \<le> Suc n. P j) \<longleftrightarrow> P 0 \<and> (\<forall>j \<le> n. P (Suc j))" for P and n :: nat
    by (metis Suc_le_mono not0_implies_Suc zero_le)
  show ?case
  proof (cases "k < i")
    case True
    then obtain n where i: "i = Suc (k + n)" by (metis less_imp_Suc_add)
    then have "i - k = Suc n" by simp
    moreover have "i - Suc k = n" using i by simp
    ultimately show ?thesis using Cons.IH [of "Suc k"] i by (auto simp: all_less all_le)
  next
    case False
    then show ?thesis by (auto simp: Cons.IH)
  qed
qed

lemma locate_0_Some:
  assumes "locate abort hit 0 xs = Some i"
  shows "i < length xs" and "hit (it_name (xs ! i))"
    and "j < i \<Longrightarrow> \<not> hit (it_name (xs ! j))" and "j \<le> i \<Longrightarrow> \<not> abort (it_name (xs ! j))"
  using assms by (simp_all add: locate_Some)

lemma locate_no_hit: "(\<And>l. \<not> hit l) \<Longrightarrow> locate abort hit k xs = None"
  by (induction xs arbitrary: k) auto

lemma delete_until_runs:
  "(\<forall>j < k. j < length ps \<longrightarrow> \<not> abort (it_name (ps ! j))) \<Longrightarrow>
     delete_until abort k ps edits = ((drop k ps, edits + min k (length ps)), True)"
proof (induction abort k ps edits rule: delete_until.induct)
  case (3 abort k p ps edits)
  have "\<not> abort (it_name p)" using "3.prems" by force
  moreover have "\<forall>j < k. j < length ps \<longrightarrow> \<not> abort (it_name (ps ! j))"
    using "3.prems" by (metis Suc_less_eq length_Cons nth_Cons_Suc)
  ultimately show ?case using "3.IH" by simp
qed auto

subsection \<open>Properties\<close>

text \<open>
  A \<open>DeleteItem*\<close> operation that reports success has removed exactly one line, the first one
  that its test selects, and counted one edit.
\<close>

lemma DeleteItemGeneral_first:
  assumes "DeleteItemGeneral rx ctx (xs, edits) s type = ((ys, edits'), True)"
  shows "\<exists>i m. i < length xs \<and> ys = take i xs @ drop (i + 1) xs \<and> edits' = edits + 1
     \<and> delete_match m s type (it_name (xs ! i))
     \<and> (\<forall>j < i. \<not> delete_match m s type (it_name (xs ! j)))
     \<and> (type = regexComplete \<or> type = NOTregexComplete \<longrightarrow> CfRegcomp rx s = Some m)"
  using assms unfolding DeleteItemGeneral_def
  by (auto simp: Let_def dest: locate_0_Some split: if_splits option.splits)

lemma DeleteItemGeneral_first_witness:
  "\<exists>i m. i < length [mk_item ''a'' None, mk_item ''b'' None]
     \<and> [mk_item ''a'' None] = take i [mk_item ''a'' None, mk_item ''b'' None]
          @ drop (i + 1) [mk_item ''a'' None, mk_item ''b'' None] \<and> (8::nat) = 7 + 1
     \<and> delete_match m ''b'' literalComplete (it_name ([mk_item ''a'' None, mk_item ''b'' None] ! i))
     \<and> (\<forall>j < i. \<not> delete_match m ''b'' literalComplete
                   (it_name ([mk_item ''a'' None, mk_item ''b'' None] ! j)))
     \<and> (literalComplete = regexComplete \<or> literalComplete = NOTregexComplete \<longrightarrow>
          CfRegcomp (\<lambda>_. None) ''b'' = Some m)"
  by (rule DeleteItemGeneral_first
        [of _ "\<lparr>EDABORTMODE = False, VEDITABORT = [], EDITGROUPLEVEL = 0\<rparr>"])
    (simp add: DeleteItemGeneral_def aborts_def)

text \<open>
  \<open>DeleteItemNotStarting\<close> never deletes anything: its test compares zero bytes.
\<close>

lemma DeleteItemNotStarting_noop: "DeleteItemNotStarting rx ctx st s = (st, False)"
  by (cases st) (simp add: DeleteItemNotStarting_def DeleteItemGeneral_def matchlen_def
      strncmp_eq_def locate_no_hit)

text \<open>
  C21. \<open>DeleteToRegExp\<close> with a matching line ahead removes exactly the lines from the current one
  up to that line, keeps the rest of the file, counts each removed line, and leaves the current
  line pointer on the line that matched.
\<close>

theorem DeleteToRegExp_deletes:
  assumes "CURRENTLINEPTR ed = At c" and "CfRegcomp rx s = Some m"
    and "locate (aborts rx ctx) (whole_match m) 0 (drop c (filestart ed)) = Some k"
  shows "DeleteToRegExp rx ctx ed s = Inr
     (ed\<lparr>filestart := take c (filestart ed) @ drop (c + k) (filestart ed),
         NUMBEROFEDITS := NUMBEROFEDITS ed + k\<rparr>, True)"
proof -
  have "delete_until (aborts rx ctx) k (drop c (filestart ed)) (NUMBEROFEDITS ed)
      = ((drop k (drop c (filestart ed)),
          NUMBEROFEDITS ed + min k (length (drop c (filestart ed)))), True)"
    using locate_0_Some(4) [OF assms(3)] by (intro delete_until_runs) (metis less_imp_le)
  with locate_0_Some(1) [OF assms(3)] assms show ?thesis
    by (simp add: DeleteToRegExp_def put_file_def min_def add.commute)
qed

theorem DeleteToRegExp_deletes_witness:
  "DeleteToRegExp (\<lambda>p. Some (\<lambda>l. if l = p then Some (0, length l) else None))
     \<lparr>EDABORTMODE = False, VEDITABORT = [], EDITGROUPLEVEL = 0\<rparr>
     \<lparr>filestart = map (\<lambda>s. mk_item s None) [''a'', ''b'', ''c''], CURRENTLINEPTR = At 0,
      CURRENTLINENUMBER = 1, NUMBEROFEDITS = 0\<rparr> ''c''
   = Inr (\<lparr>filestart = [mk_item ''c'' None], CURRENTLINEPTR = At 0,
           CURRENTLINENUMBER = 1, NUMBEROFEDITS = 2\<rparr>, True)"
proof -
  let ?ed = "\<lparr>filestart = map (\<lambda>s. mk_item s None) [''a'', ''b'', ''c''], CURRENTLINEPTR = At 0,
      CURRENTLINENUMBER = 1, NUMBEROFEDITS = 0\<rparr> :: editor"
  show ?thesis
    by (subst DeleteToRegExp_deletes [of ?ed 0 _ "''c''"
          "\<lambda>l. if l = ''c'' then Some (0, length l) else None" _ 2])
      (simp_all add: CfRegcomp_def whole_match_def aborts_def)
qed

text \<open>
  The line number after a search: \<open>LocateItemMatchingRegExp\<close> adds the lines it passed, whereas
  \<open>LocateItemContainingRegExp\<close> sets it to 1 wherever it finds the line.
\<close>

lemma LocateItemContainingRegExp_number:
  "LocateItemContainingRegExp rx ctx ed start s = (ed', Some i) \<Longrightarrow>
     CURRENTLINENUMBER ed' = 1 \<and> CURRENTLINEPTR ed' = At i"
  by (auto simp: LocateItemContainingRegExp_def split: option.splits)

lemma LocateItemMatchingRegExp_number:
  "LocateItemMatchingRegExp rx ctx ed start s = (ed', Some i) \<Longrightarrow>
     CURRENTLINENUMBER ed' = CURRENTLINENUMBER ed + int (i - start) \<and> CURRENTLINEPTR ed' = At i"
  by (auto simp: LocateItemMatchingRegExp_def split: option.splits)

end
