(* ===== verification/ItemComment.thy ===== *)
theory ItemComment
  imports ItemEdit
begin

text \<open>
  item-ext.c, second part: commenting and uncommenting lines, the replacements, the field edit and
  the argument splitter. A comment is \<open>comm @ line @ end\<close>.
\<close>

subsection \<open>Commenting\<close>

definition comment_text :: "string \<Rightarrow> string \<Rightarrow> string \<Rightarrow> string" where
  "comment_text comm end line = comm @ line @ end"

text \<open>
  The shared loop of the three \<open>CommentItem*\<close> functions: the first line that is a hit and is not
  commented yet; a hit too long for the buffer ends the loop.
\<close>

fun comment_first :: "(string \<Rightarrow> bool) \<Rightarrow> (string \<Rightarrow> bool) \<Rightarrow> string \<Rightarrow> string \<Rightarrow> item list \<Rightarrow> nat
    \<Rightarrow> (item list \<times> nat) \<times> bool" where
  "comment_first abort hit comm end [] edits = (([], edits), False)"
| "comment_first abort hit comm end (p # ps) edits =
     (let line = it_name p;
          skip = (case comment_first abort hit comm end ps edits of
                    ((qs, n), ok) \<Rightarrow> ((p # qs, n), ok)) in
      if abort line then ((p # ps, edits), False)
      else if hit line then
        (if CF_BUFSIZE < length line + length comm + length end + 2 then ((p # ps, edits), False)
         else if strncmp_eq line comm (length comm) then skip
         else ((p\<lparr>it_name := comment_text comm end line\<rparr> # ps, edits + 1), True))
      else skip)"

definition CommentItemStarting where
  "CommentItemStarting rx ctx xs edits s comm end =
     comment_first (aborts rx ctx) (\<lambda>l. strncmp_eq l s (length s)) comm end xs edits"

definition CommentItemContaining where
  "CommentItemContaining rx ctx xs edits s comm end =
     comment_first (aborts rx ctx) (\<lambda>l. strstr l s) comm end xs edits"

definition CommentItemMatching where
  "CommentItemMatching rx ctx xs edits s comm end = (case CfRegcomp rx s of
       None \<Rightarrow> ((xs, edits), False)
     | Some m \<Rightarrow> comment_first (aborts rx ctx) (whole_match m) comm end xs edits)"

text \<open>
  \<open>CommentToRegExp\<close>: from the current line up to and including the first that matches, each line,
  commented already or not.
\<close>

definition CommentToRegExp ::
  "regcomp \<Rightarrow> edit_ctx \<Rightarrow> editor \<Rightarrow> string \<Rightarrow> string \<Rightarrow> string \<Rightarrow> (editor \<times> bool) outcome" where
  "CommentToRegExp rx ctx ed s comm end = (case CURRENTLINEPTR ed of
       NullLine \<Rightarrow> Inr (ed, True)
     | Dangling \<Rightarrow> Inl (Undefined ''CommentToRegExp: freed current line'')
     | At c \<Rightarrow> (case CfRegcomp rx s of
         None \<Rightarrow> Inr (ed, False)
       | Some m \<Rightarrow>
           (case locate (aborts rx ctx) (whole_match m) 0 (drop c (filestart ed)) of
              None \<Rightarrow> Inr (ed, False)
            | Some k \<Rightarrow>
                (let n = k + 1; xs = filestart ed in
                 Inr (ed\<lparr>filestart := take c xs
                            @ map (\<lambda>p. p\<lparr>it_name := comment_text comm end (it_name p)\<rparr>)
                                (take n (drop c xs))
                            @ drop n (drop c xs),
                         CURRENTLINEPTR := line_at xs (c + n),
                         NUMBEROFEDITS := NUMBEROFEDITS ed + n\<rparr>, True)))))"

text \<open>The loop of \<open>CommentSeveralLines\<close> over the lines from the current one, \<open>n\<close> at most.\<close>

fun comment_lines :: "string \<Rightarrow> string \<Rightarrow> nat \<Rightarrow> item list \<Rightarrow> nat \<Rightarrow> item list \<times> nat" where
  "comment_lines comm end 0 ps edits = (ps, edits)"
| "comment_lines comm end (Suc n) [] edits = ([], edits)"
| "comment_lines comm end (Suc n) (p # ps) edits =
     (if strncmp_eq (dropWhile isspace (it_name p)) comm (length comm) then
        (case comment_lines comm end n ps edits of (qs, e) \<Rightarrow> (p # qs, e))
      else
        (case comment_lines comm end n ps (edits + 1) of
           (qs, e) \<Rightarrow> (p\<lparr>it_name := comment_text comm end (it_name p)\<rparr> # qs, e)))"

definition CommentSeveralLines ::
  "editor \<Rightarrow> string \<Rightarrow> string \<Rightarrow> string \<Rightarrow> (editor \<times> bool) outcome" where
  "CommentSeveralLines ed s comm end = (let N = scan_int_or (- 99) s in
     if N < 1 then Inr (ed, False)
     else (case CURRENTLINEPTR ed of
         NullLine \<Rightarrow> Inr (ed, True)
       | Dangling \<Rightarrow> Inl (Undefined ''CommentSeveralLines: freed current line'')
       | At c \<Rightarrow>
           (case comment_lines comm end (nat N) (drop c (filestart ed)) (NUMBEROFEDITS ed) of
              (rest, edits) \<Rightarrow>
                Inr ((put_file ed (take c (filestart ed) @ rest, edits))
                       \<lparr>CURRENTLINEPTR := line_at (filestart ed) (c + nat N)\<rparr>, True))))"

subsection \<open>Uncommenting\<close>

text \<open>The backward search for the last occurrence of \<open>end\<close>, which exists when it is called.\<close>

fun last_occurrence :: "string \<Rightarrow> string \<Rightarrow> nat option" where
  "last_occurrence [] e = (if e = [] then Some 0 else None)"
| "last_occurrence (c # s) e =
     (case last_occurrence s e of
        Some k \<Rightarrow> Some (Suc k)
      | None \<Rightarrow> if strncmp_eq (c # s) e (length e) then Some 0 else None)"

text \<open>
  The new text of an uncommented line: the leading white space, then the line from
  \<open>strlen (comm)\<close> bytes after that white space, up to the last \<open>end\<close>. The line is cut at \<open>end\<close> in
  place first, so the test that would keep what follows \<open>end\<close> never holds. When the cut lies
  before the bytes to skip, the copy reads on behind it.
\<close>

definition uncomment_text :: "string \<Rightarrow> string \<Rightarrow> string \<Rightarrow> string outcome" where
  "uncomment_text comm end line =
     (let ws = takeWhile isspace line;
          k = length ws + length comm;
          cut = (if end \<noteq> [] \<and> strstr line end
                 then (case last_occurrence line end of None \<Rightarrow> length line | Some e \<Rightarrow> e)
                 else length line) in
      if k \<le> cut then Inr (ws @ drop k (take cut line))
      else if k \<le> length line then Inr (ws @ drop k line)
      else Inl (Undefined ''uncomment: read past the line''))"

text \<open>
  The shared loop of the \<open>UnCommentItem*\<close> functions, over the lines from index \<open>k\<close> on: the first
  hit that contains the comment start. A hit without it still moves the current line pointer.
  \<open>bounded\<close> is the length test that only the matching version makes.
\<close>

fun uncomment_first :: "bool \<Rightarrow> (string \<Rightarrow> bool) \<Rightarrow> string \<Rightarrow> string \<Rightarrow> editor \<Rightarrow> nat \<Rightarrow> item list
    \<Rightarrow> (editor \<times> bool) outcome" where
  "uncomment_first bounded hit comm end ed k [] = Inr (ed, False)"
| "uncomment_first bounded hit comm end ed k (p # ps) =
     (let line = it_name p;
          moved = ed\<lparr>CURRENTLINEPTR := line_at (filestart ed) (k + 1)\<rparr> in
      if \<not> hit line then uncomment_first bounded hit comm end ed (k + 1) ps
      else if bounded \<and> CF_BUFSIZE < length line + length comm + length end + 2 then Inr (ed, False)
      else if \<not> strstr line comm then uncomment_first bounded hit comm end moved (k + 1) ps
      else bind_outcome (uncomment_text comm end line) (\<lambda>new.
        Inr (moved\<lparr>filestart := (filestart ed)[k := p\<lparr>it_name := new\<rparr>],
                   NUMBEROFEDITS := NUMBEROFEDITS ed + (if new \<noteq> line then 1 else 0)\<rparr>, True)))"

definition UnCommentItemMatching where
  "UnCommentItemMatching rx ed s comm end = (case CfRegcomp rx s of
       None \<Rightarrow> Inr (ed, False)
     | Some m \<Rightarrow> uncomment_first True (whole_match m) comm end ed 0 (filestart ed))"

definition UnCommentItemContaining where
  "UnCommentItemContaining ed s comm end =
     uncomment_first False (\<lambda>l. strstr l s) comm end ed 0 (filestart ed)"

text \<open>
  \<open>UnCommentToRegExp\<close> uncomments a line that begins with \<open>comm\<close>. Its loop sets a flag at the
  matching line but never tests it, so it runs to the end of the file. The buffer of
  \<open>strlen (line)\<close> bytes is too short by one when \<open>comm\<close> is empty.
\<close>

definition uncomment_prefix :: "string \<Rightarrow> string \<Rightarrow> string \<Rightarrow> string" where
  "uncomment_prefix comm end line =
     (let sp = drop (length comm) line in
      if end \<noteq> [] \<and> strstr sp end
      then (case last_occurrence sp end of None \<Rightarrow> sp | Some e \<Rightarrow> take e sp)
      else sp)"

fun uncomment_rest :: "string \<Rightarrow> string \<Rightarrow> item list \<Rightarrow> nat \<Rightarrow> (item list \<times> nat) outcome" where
  "uncomment_rest comm end [] edits = Inr ([], edits)"
| "uncomment_rest comm end (p # ps) edits =
     (let line = it_name p; new = uncomment_prefix comm end line in
      if \<not> strncmp_eq line comm (length comm) then
        bind_outcome (uncomment_rest comm end ps edits) (\<lambda>(qs, e). Inr (p # qs, e))
      else if comm = [] then Inl (Undefined ''UnCommentToRegExp: buffer too short'')
      else bind_outcome
             (uncomment_rest comm end ps (edits + (if new \<noteq> line then 1 else 0)))
             (\<lambda>(qs, e). Inr (p\<lparr>it_name := new\<rparr> # qs, e)))"

definition UnCommentToRegExp ::
  "regcomp \<Rightarrow> edit_ctx \<Rightarrow> editor \<Rightarrow> string \<Rightarrow> string \<Rightarrow> string \<Rightarrow> (editor \<times> bool) outcome" where
  "UnCommentToRegExp rx ctx ed s comm end = (case CURRENTLINEPTR ed of
       NullLine \<Rightarrow> Inr (ed, True)
     | Dangling \<Rightarrow> Inl (Undefined ''UnCommentToRegExp: freed current line'')
     | At c \<Rightarrow> (case CfRegcomp rx s of
         None \<Rightarrow> Inr (ed, False)
       | Some m \<Rightarrow>
           (case locate (aborts rx ctx) (whole_match m) 0 (drop c (filestart ed)) of
              None \<Rightarrow> Inr (ed, False)
            | Some _ \<Rightarrow>
                bind_outcome
                  (uncomment_rest comm end (drop c (filestart ed)) (NUMBEROFEDITS ed))
                  (\<lambda>(rest, edits).
                     Inr ((put_file ed (take c (filestart ed) @ rest, edits))
                            \<lparr>CURRENTLINEPTR := NullLine\<rparr>, True)))))"

fun uncomment_lines ::
  "string \<Rightarrow> string \<Rightarrow> nat \<Rightarrow> item list \<Rightarrow> nat \<Rightarrow> (item list \<times> nat) outcome" where
  "uncomment_lines comm end 0 ps edits = Inr (ps, edits)"
| "uncomment_lines comm end (Suc n) [] edits = Inr ([], edits)"
| "uncomment_lines comm end (Suc n) (p # ps) edits =
     (if \<not> strstr (it_name p) comm then
        bind_outcome (uncomment_lines comm end n ps edits) (\<lambda>(qs, e). Inr (p # qs, e))
      else bind_outcome (uncomment_text comm end (it_name p)) (\<lambda>new.
        bind_outcome
          (uncomment_lines comm end n ps (edits + (if new \<noteq> it_name p then 1 else 0)))
          (\<lambda>(qs, e). Inr (p\<lparr>it_name := new\<rparr> # qs, e))))"

definition UnCommentSeveralLines ::
  "editor \<Rightarrow> string \<Rightarrow> string \<Rightarrow> string \<Rightarrow> (editor \<times> bool) outcome" where
  "UnCommentSeveralLines ed s comm end = (let N = scan_int_or (- 99) s in
     if N < 1 then Inr (ed, False)
     else (case CURRENTLINEPTR ed of
         NullLine \<Rightarrow> Inr (ed, True)
       | Dangling \<Rightarrow> Inl (Undefined ''UnCommentSeveralLines: freed current line'')
       | At c \<Rightarrow>
           bind_outcome
             (uncomment_lines comm end (nat N) (drop c (filestart ed)) (NUMBEROFEDITS ed))
             (\<lambda>(rest, edits).
                Inr ((put_file ed (take c (filestart ed) @ rest, edits))
                       \<lparr>CURRENTLINEPTR := line_at (filestart ed) (c + nat N)\<rparr>, True))))"

subsection \<open>Lemmas\<close>

lemma last_occurrence_append: "last_occurrence (s @ e) e = Some (length s)"
proof (induction s)
  case Nil
  show ?case
  proof (cases e)
    case Nil
    then show ?thesis by simp
  next
    case (Cons c t)
    have short: "length u < length e \<Longrightarrow> last_occurrence u e = None" for u
      by (induction u) (auto simp: strncmp_eq_def)
    show ?thesis using short [of t] Cons by (simp add: strncmp_eq_def)
  qed
next
  case (Cons c s)
  then show ?case by simp
qed

lemma strstr_append_self: "strstr (s @ e) e"
  by (metis append.right_neutral strstr_iff)

text \<open>Removing the comment of a commented line gives the line back, whatever the line contains.\<close>

lemma uncomment_prefix_comment: "uncomment_prefix comm end (comment_text comm end line) = line"
  by (simp add: uncomment_prefix_def comment_text_def last_occurrence_append strstr_append_self)

lemma comment_has_prefix: "strncmp_eq (comment_text comm end line) comm (length comm)"
  by (simp add: comment_text_def strncmp_eq_def)

lemma uncomment_rest_append:
  "uncomment_rest comm end (ps @ qs) e =
     bind_outcome (uncomment_rest comm end ps e) (\<lambda>(ps', e').
       bind_outcome (uncomment_rest comm end qs e') (\<lambda>(qs', e''). Inr (ps' @ qs', e'')))"
proof (induction comm "end" ps e rule: uncomment_rest.induct)
  case (1 comm "end" edits)
  then show ?case by (cases "uncomment_rest comm end qs edits") auto
next
  case (2 comm "end" p ps edits)
  then show ?case
    by (auto simp: bind_outcome_def split: sum.splits)
qed

lemma uncomment_rest_skip:
  "\<forall>p \<in> set ps. \<not> strncmp_eq (it_name p) comm (length comm) \<Longrightarrow>
     uncomment_rest comm end ps e = Inr (ps, e)"
  by (induction ps arbitrary: e) simp_all

lemma uncomment_rest_comments:
  "comm \<noteq> [] \<Longrightarrow> \<exists>e'.
     uncomment_rest comm end (map (\<lambda>p. p\<lparr>it_name := comment_text comm end (it_name p)\<rparr>) ps) e
       = Inr (ps, e')"
proof (induction ps arbitrary: e)
  case (Cons p ps)
  let ?e = "e + (if it_name p \<noteq> comment_text comm end (it_name p) then 1 else 0)"
  from Cons.IH [OF Cons.prems, of ?e] obtain e' where
    "uncomment_rest comm end (map (\<lambda>p. p\<lparr>it_name := comment_text comm end (it_name p)\<rparr>) ps) ?e
       = Inr (ps, e')" by blast
  with Cons.prems show ?case
    by (simp add: comment_has_prefix uncomment_prefix_comment)
qed simp

lemma comment_lines_commented:
  "comm = [] \<or> \<not> isspace (hd comm) \<Longrightarrow> comment_lines comm end n ps e = (qs, e') \<Longrightarrow>
     comment_lines comm end n qs f = (qs, f)"
proof (induction comm "end" n ps e arbitrary: qs e' f rule: comment_lines.induct)
  case (3 comm "end" n p ps edits)
  show ?case
  proof (cases "strncmp_eq (dropWhile isspace (it_name p)) comm (length comm)")
    case True
    with 3 show ?thesis by (auto split: prod.splits)
  next
    case False
    then have "comm \<noteq> []" by (auto simp: strncmp_eq_def)
    with "3.prems"(1) have d: "dropWhile isspace (comment_text comm end l) = comment_text comm end l" for l
      by (cases comm) (simp_all add: comment_text_def)
    obtain rs e where r: "comment_lines comm end n ps (edits + 1) = (rs, e)" by fastforce
    have IH: "comment_lines comm end n rs f = (rs, f)"
      using "3.IH"(2) [OF False "3.prems"(1) r] by blast
    have qs: "qs = p\<lparr>it_name := comment_text comm end (it_name p)\<rparr> # rs"
      using "3.prems"(2) False r by simp
    show ?thesis
      unfolding qs using IH by (simp add: d comment_has_prefix)
  qed
qed auto

lemma comment_lines_length: "length (fst (comment_lines comm end n ps e)) = length ps"
  by (induction comm "end" n ps e rule: comment_lines.induct) (auto split: prod.splits)

subsection \<open>Properties\<close>

text \<open>
  \<open>CommentSeveralLines\<close> is convergent: run again from the same line with the same count, it
  changes no line and counts no edit. (Comment starts that begin with white space are the exception,
  because the test for a commented line skips white space first.)
\<close>

lemma CommentSeveralLines_convergent:
  assumes "comm = [] \<or> \<not> isspace (hd comm)"
    and "CURRENTLINEPTR ed = At c" and "c \<le> length (filestart ed)"
    and "CommentSeveralLines ed s comm end = Inr (ed1, True)"
  shows "CommentSeveralLines (ed1\<lparr>CURRENTLINEPTR := At c\<rparr>) s comm end = Inr (ed1, True)"
proof -
  let ?N = "scan_int_or (- 99) s" and ?xs = "filestart ed"
  obtain qs e where r: "comment_lines comm end (nat ?N) (drop c ?xs) (NUMBEROFEDITS ed) = (qs, e)"
    by fastforce
  from assms(2,4) r have N: "\<not> ?N < 1" and
    ed1: "ed1 = (put_file ed (take c ?xs @ qs, e))\<lparr>CURRENTLINEPTR := line_at ?xs (c + nat ?N)\<rparr>"
    by (auto simp: CommentSeveralLines_def Let_def split: if_splits)
  have len: "length (take c ?xs @ qs) = length ?xs"
    using comment_lines_length [of comm "end" "nat ?N" "drop c ?xs"] r assms(3)
    by (metis append_take_drop_id fst_conv length_append)
  have "length (take c ?xs) = c" using assms(3) by simp
  then have "drop c (take c ?xs @ qs) = qs" and "take c (take c ?xs @ qs) = take c ?xs" by simp_all
  with comment_lines_commented [OF assms(1) r, of e] N len show ?thesis
    by (simp add: CommentSeveralLines_def Let_def ed1 put_file_def line_at_def)
qed

lemma CommentSeveralLines_convergent_witness:
  "CommentSeveralLines \<lparr>filestart = [mk_item ''#a'' None, mk_item ''b'' None],
       CURRENTLINEPTR = At 0, CURRENTLINENUMBER = 1, NUMBEROFEDITS = 1\<rparr> ''1'' ''#'' []
   = Inr (\<lparr>filestart = [mk_item ''#a'' None, mk_item ''b'' None],
       CURRENTLINEPTR = At 1, CURRENTLINENUMBER = 1, NUMBEROFEDITS = 1\<rparr>, True)"
proof -
  have one: "scan_int_or (- 99) ''1'' = 1"
    by (simp add: scan_int_or_def scan_int_def scan_unsigned_def digits_value_def ctype_defs)
  let ?ed = "\<lparr>filestart = [mk_item ''a'' None, mk_item ''b'' None],
       CURRENTLINEPTR = At 0, CURRENTLINENUMBER = 1, NUMBEROFEDITS = 0\<rparr> :: editor"
  show ?thesis
    using CommentSeveralLines_convergent [of "''#''" ?ed 0 "''1''" "[]"
        "\<lparr>filestart = [mk_item ''#a'' None, mk_item ''b'' None],
          CURRENTLINEPTR = At 1, CURRENTLINENUMBER = 1, NUMBEROFEDITS = 1\<rparr>"]
    by (simp add: CommentSeveralLines_def one put_file_def line_at_def strncmp_eq_def isspace_def
        comment_text_def mk_item_def)
qed



text \<open>
  \<open>UnCommentToRegExp\<close> does not stop at the matching line: once a line matches, every line from
  the current one to the end of the file that begins with the comment start is uncommented.
\<close>

lemma UnCommentToRegExp_to_end_of_file:
  assumes "CURRENTLINEPTR ed = At c" and "comm \<noteq> []" and "CfRegcomp rx s = Some m"
    and "locate (aborts rx ctx) (whole_match m) 0 (drop c (filestart ed)) = Some k"
  shows "\<exists>ed'. UnCommentToRegExp rx ctx ed s comm end = Inr (ed', True)
     \<and> filestart ed' = take c (filestart ed)
          @ map (\<lambda>p. if strncmp_eq (it_name p) comm (length comm)
                     then p\<lparr>it_name := uncomment_prefix comm end (it_name p)\<rparr> else p)
              (drop c (filestart ed))
     \<and> CURRENTLINEPTR ed' = NullLine"
proof -
  have "\<exists>e'. uncomment_rest comm end ps e = Inr
      (map (\<lambda>p. if strncmp_eq (it_name p) comm (length comm)
                 then p\<lparr>it_name := uncomment_prefix comm end (it_name p)\<rparr> else p) ps, e')" for ps e
  proof (induction ps arbitrary: e)
    case (Cons p ps)
    from Cons.IH [of e] Cons.IH
      [of "e + (if uncomment_prefix comm end (it_name p) \<noteq> it_name p then 1 else 0)"]
    show ?case using assms(2) by fastforce
  qed simp
  from this [of "drop c (filestart ed)" "NUMBEROFEDITS ed"] show ?thesis
    using assms by (force simp: UnCommentToRegExp_def put_file_def)
qed

lemma UnCommentToRegExp_to_end_of_file_witness:
  "\<exists>ed'. UnCommentToRegExp (\<lambda>p. Some (\<lambda>l. if l = p then Some (0, length l) else None))
       \<lparr>EDABORTMODE = False, VEDITABORT = [], EDITGROUPLEVEL = 0\<rparr>
       \<lparr>filestart = [mk_item ''#a'' None, mk_item ''b'' None, mk_item ''#c'' None],
        CURRENTLINEPTR = At 0, CURRENTLINENUMBER = 1, NUMBEROFEDITS = 0\<rparr> ''b'' ''#'' [] = Inr (ed', True)
     \<and> filestart ed' = [mk_item ''a'' None, mk_item ''b'' None, mk_item ''c'' None]
     \<and> CURRENTLINEPTR ed' = NullLine"
  using UnCommentToRegExp_to_end_of_file
    [of "\<lparr>filestart = [mk_item ''#a'' None, mk_item ''b'' None, mk_item ''#c'' None],
        CURRENTLINEPTR = At 0, CURRENTLINENUMBER = 1, NUMBEROFEDITS = 0\<rparr> :: editor" 0 "''#''"
      "\<lambda>p. Some (\<lambda>l. if l = p then Some (0, length l) else None)" "''b''"
      "\<lambda>l. if l = ''b'' then Some (0, length l) else None"
      "\<lparr>EDABORTMODE = False, VEDITABORT = [], EDITGROUPLEVEL = 0\<rparr>" 1 "[]"]
  by (simp add: CfRegcomp_def aborts_def whole_match_def strncmp_eq_def uncomment_prefix_def
      mk_item_def)

end
