(* ===== verification/ItemReplace.thy ===== *)
theory ItemReplace
  imports ItemComment
begin

text \<open>
  item-ext.c, third part: \<open>GlobalReplace\<close>, \<open>SingleReplace\<close>, the replacement of lines by a field,
  \<open>AppendToLine\<close>, and the splitting of quoted arguments.
\<close>

subsection \<open>Replacing what a regular expression matches\<close>

text \<open>
  The copy loop of \<open>GlobalReplace\<close> at a position of the line: \<open>nxt\<close> is the pending match, as its
  distance and its length. After a match the pointer stands on the last byte of the match and the
  next search starts there, one byte early; a match found at that very byte is never reached.
  An empty match moves the pointer back, which is not followed.
\<close>

function subst_all :: "matcher \<Rightarrow> string \<Rightarrow> string \<Rightarrow> (nat \<times> nat) option \<Rightarrow> string outcome" where
  "subst_all m replace s nxt = (case s of
       [] \<Rightarrow> Inr []
     | c # cs \<Rightarrow> (case nxt of
         None \<Rightarrow> bind_outcome (subst_all m replace cs None) (\<lambda>r. Inr (c # r))
       | Some (Suc k, len) \<Rightarrow>
           bind_outcome (subst_all m replace cs (Some (k, len))) (\<lambda>r. Inr (c # r))
       | Some (0, len) \<Rightarrow>
           if len = 0 then Inl (Undefined ''GlobalReplace: empty match'')
           else (let sp = drop (len - 1) s;
                     nxt' = (case m sp of
                               None \<Rightarrow> None
                             | Some (so, eo) \<Rightarrow> if so = 0 then None else Some (so - 1, eo - so)) in
                 bind_outcome (subst_all m replace (tl sp) nxt') (\<lambda>r. Inr (replace @ r)))))"
  by pat_completeness auto
termination
  by (relation "measure (\<lambda>(m, replace, s, nxt). length s)") auto

declare subst_all.simps [simp del]

definition replaced_line :: "matcher \<Rightarrow> string \<Rightarrow> string \<Rightarrow> nat \<times> nat \<Rightarrow> string outcome" where
  "replaced_line m replace line span = (case span of (so, eo) \<Rightarrow>
     bind_outcome (subst_all m replace line (Some (so, eo - so))) (\<lambda>new.
       if CF_BUFSIZE \<le> length new then Inl (Undefined ''GlobalReplace: VBUFF overflow'')
       else Inr new))"

text \<open>
  Putting the new line in: \<open>InsertItemAfter\<close> at the line of index \<open>k\<close>, then \<open>DeleteItem\<close> of that
  line. Both count as edits, and the insertion also counts the line number up.
\<close>

definition swap_line :: "editor \<Rightarrow> nat \<Rightarrow> string \<Rightarrow> editor outcome" where
  "swap_line ed k new =
     bind_outcome (InsertItemAfter (ed\<lparr>CURRENTLINEPTR := At k\<rparr>) new) (\<lambda>ed1.
       bind_outcome (DeleteItem (filestart ed1, NUMBEROFEDITS ed1) (Some k)) (\<lambda>st.
         Inr ((put_file ed1 st)\<lparr>CURRENTLINEPTR := At k\<rparr>)))"

fun global_loop :: "matcher \<Rightarrow> edit_ctx \<Rightarrow> string \<Rightarrow> editor \<Rightarrow> nat \<Rightarrow> nat \<Rightarrow> (editor \<times> bool) outcome" where
  "global_loop m ctx replace ed k 0 = Inr (ed, True)"
| "global_loop m ctx replace ed k (Suc n) =
     (let line = it_name (filestart ed ! k) in
      case m line of
        None \<Rightarrow> global_loop m ctx replace ed (k + 1) n
      | Some span \<Rightarrow>
          bind_outcome (replaced_line m replace line span) (\<lambda>new.
            if m new \<noteq> None \<and> \<not> whole_match m new \<and> EDITGROUPLEVEL ctx \<le> 0
            then Inr (ed, False)
            else bind_outcome (swap_line ed k new) (\<lambda>ed'.
                   global_loop m ctx replace ed' (k + 1) n)))"

definition GlobalReplace ::
  "regcomp \<Rightarrow> edit_ctx \<Rightarrow> editor \<Rightarrow> string \<Rightarrow> string \<Rightarrow> (editor \<times> bool) outcome" where
  "GlobalReplace rx ctx ed search replace = (case CfRegcomp rx search of
       None \<Rightarrow> Inr (ed, False)
     | Some m \<Rightarrow> global_loop m ctx replace ed 0 (length (filestart ed)))"

text \<open>\<open>SingleReplace\<close>: the first match of every line.\<close>

fun single_loop :: "matcher \<Rightarrow> string \<Rightarrow> editor \<Rightarrow> nat \<Rightarrow> nat \<Rightarrow> (editor \<times> bool) outcome" where
  "single_loop m replace ed k 0 = Inr (ed, True)"
| "single_loop m replace ed k (Suc n) =
     (let line = it_name (filestart ed ! k) in
      case m line of
        None \<Rightarrow> single_loop m replace ed (k + 1) n
      | Some (so, eo) \<Rightarrow>
          (let new = take so line @ replace @ drop eo line in
           if CF_BUFSIZE \<le> length new then Inl (Undefined ''SingleReplace: VBUFF overflow'')
           else bind_outcome (swap_line ed k new) (\<lambda>ed'. single_loop m replace ed' (k + 1) n)))"

definition SingleReplace ::
  "regcomp \<Rightarrow> editor \<Rightarrow> string \<Rightarrow> string \<Rightarrow> (editor \<times> bool) outcome" where
  "SingleReplace rx ed search replace = (case CfRegcomp rx search of
       None \<Rightarrow> Inr (ed, False)
     | Some m \<Rightarrow> single_loop m replace ed 0 (length (filestart ed)))"

subsection \<open>Replacing lines by a field\<close>

text \<open>
  The scan for the field of number \<open>mf\<close>: the field count reached, the start and the end. A field
  after the first starts at the separator before it.
\<close>

fun field_scan :: "int \<Rightarrow> char \<Rightarrow> string \<Rightarrow> nat \<Rightarrow> int \<Rightarrow> nat option
    \<Rightarrow> int \<times> nat option \<times> nat option" where
  "field_scan mf split [] i fcount sps = (fcount, sps, None)"
| "field_scan mf split (c # s) i fcount sps =
     (if c = split \<and> fcount = mf then (fcount, sps, Some i)
      else (let fcount' = (if c = split then fcount + 1 else fcount);
                sps' = (if fcount' = mf \<and> sps = None then Some i else sps) in
            field_scan mf split s (i + 1) fcount' sps'))"

definition line_field :: "int \<Rightarrow> char \<Rightarrow> string \<Rightarrow> string" where
  "line_field mf split line = (case field_scan mf split line 0 1 None of
     (fcount, sps, spe) \<Rightarrow>
       (let e = (case spe of None \<Rightarrow> length line | Some e \<Rightarrow> e);
            b = (case sps of None \<Rightarrow> e | Some b \<Rightarrow> b) in
        take (e - b) (drop b line)))"

definition replace_field_line ::
  "int \<Rightarrow> char \<Rightarrow> string \<Rightarrow> string \<Rightarrow> item \<Rightarrow> nat \<Rightarrow> item \<times> nat" where
  "replace_field_line mf split key replace p edits =
     (if line_field mf split (it_name p) = key \<and> it_name p \<noteq> replace
      then (p\<lparr>it_name := replace\<rparr>, edits + 1) else (p, edits))"

fun replace_field_lines ::
  "int \<Rightarrow> char \<Rightarrow> string \<Rightarrow> string \<Rightarrow> item list \<Rightarrow> nat \<Rightarrow> item list \<times> nat" where
  "replace_field_lines mf split key replace [] edits = ([], edits)"
| "replace_field_lines mf split key replace (p # ps) edits =
     (case replace_field_line mf split key replace p edits of (q, e) \<Rightarrow>
        (case replace_field_lines mf split key replace ps e of (qs, e') \<Rightarrow> (q # qs, e')))"

definition ReplaceWithFieldMatch ::
  "item list \<times> nat \<Rightarrow> string \<Rightarrow> string option \<Rightarrow> char \<Rightarrow> (item list \<times> nat) outcome" where
  "ReplaceWithFieldMatch st field replace split = (case replace of
       None \<Rightarrow> Inr st
     | Some r \<Rightarrow>
         if length r = 0 then Inr st
         else (let mf = scan_int_or 0 field in
           (case field_scan mf split r 0 1 None of (fcount, sps, spe) \<Rightarrow>
              if fcount < mf then Inr st
              else (case sps of
                  None \<Rightarrow> Inl (Undefined ''ReplaceWithFieldMatch: NULL field start'')
                | Some b \<Rightarrow>
                    (let e = (case spe of None \<Rightarrow> length r | Some e \<Rightarrow> e);
                         key = take (e - b) (drop b r) in
                     (case st of (xs, edits) \<Rightarrow>
                        Inr (replace_field_lines mf split key r xs edits)))))))"

definition AppendToLine :: "item option \<Rightarrow> nat \<Rightarrow> string \<Rightarrow> (item \<times> nat) outcome" where
  "AppendToLine current edits text = (case current of
       None \<Rightarrow> Inl (FatalErr ''Software error -- attempt to append to a non-existent line (shouldn't happen)'')
     | Some p \<Rightarrow>
         if strstr (it_name p) text then Inr (p, edits)
         else Inr (p\<lparr>it_name := it_name p @ text\<rparr>, edits + 1))"

subsection \<open>Comparing and splitting\<close>

fun OrderedListsMatch :: "item list \<Rightarrow> item list \<Rightarrow> bool" where
  "OrderedListsMatch (p # ps) (q # qs) =
     (if it_name p \<noteq> it_name q then False else OrderedListsMatch ps qs)"
| "OrderedListsMatch ps qs = (ps = [] \<and> qs = [])"

text \<open>
  \<open>ListFromArgs\<close>: the state of the loop is the last byte copied, the two quote levels, the
  parenthesis level and the argument so far. An escaped quote overwrites its backslash.
\<close>

record arg_state =
  lastch :: "char option"
  inquotes_level :: bool
  inquote_level :: bool
  paren_level :: int
  arg :: string

definition put_arg :: "arg_state \<Rightarrow> char \<Rightarrow> arg_state" where
  "put_arg st c = st\<lparr>arg := arg st @ [c], lastch := Some c\<rparr>"

fun list_args :: "string \<Rightarrow> arg_state \<Rightarrow> item list \<Rightarrow> item list outcome" where
  "list_args [] st ip = Inr (appended ip (arg st) (Some []))"
| "list_args (c # s) st ip =
     (if c = CHR 0x22 \<or> c = CHR 0x27 then
        (if lastch st = Some (CHR 0x5C) then
           (if \<not> inquotes_level st then Inl (FatalErr ''Unrecoverable'')
            else list_args s (put_arg (st\<lparr>arg := butlast (arg st)\<rparr>) c) ip)
         else if c = CHR 0x22 then
           list_args s (st\<lparr>inquotes_level := \<not> inquotes_level st\<rparr>) ip
         else list_args s (st\<lparr>inquote_level := \<not> inquote_level st\<rparr>) ip)
      else if c = CHR ''('' then
        list_args s (put_arg (if inquotes_level st then st
                              else st\<lparr>paren_level := paren_level st + 1\<rparr>) c) ip
      else if c = CHR '')'' then
        list_args s (put_arg (if inquotes_level st then st
                              else st\<lparr>paren_level := paren_level st - 1\<rparr>) c) ip
      else if c = CHR '','' \<and> \<not> inquotes_level st \<and> paren_level st = 0 then
        list_args s (st\<lparr>arg := []\<rparr>) (appended ip (arg st) (Some []))
      else list_args s (put_arg st c) ip)"

definition ListFromArgs :: "string \<Rightarrow> item list outcome" where
  "ListFromArgs s = list_args s
     \<lparr>lastch = None, inquotes_level = False, inquote_level = False, paren_level = 0, arg = []\<rparr> []"

subsection \<open>Lemmas\<close>

lemma replace_field_lines_idem:
  "line_field mf split r = key \<Longrightarrow> replace_field_lines mf split key r ps e = (qs, e') \<Longrightarrow>
     replace_field_lines mf split key r qs f = (qs, f)"
  by (induction mf split key r ps e arbitrary: qs e' f rule: replace_field_lines.induct)
    (auto simp: replace_field_line_def split: prod.splits if_splits)

definition plain_arg :: "string \<Rightarrow> bool" where
  "plain_arg t \<longleftrightarrow> (\<forall>c \<in> set t. c \<notin> {CHR 0x22, CHR 0x27, CHR ''('', CHR '')'', CHR '',''})"

lemma list_args_plain:
  "plain_arg t \<Longrightarrow> list_args (t @ s) st ip = list_args s (foldl put_arg st t) ip"
  by (induction t arbitrary: st) (simp_all add: plain_arg_def)

lemma foldl_put_arg [simp]:
  "arg (foldl put_arg st t) = arg st @ t"
  "inquotes_level (foldl put_arg st t) = inquotes_level st"
  "paren_level (foldl put_arg st t) = paren_level st"
  by (induction t arbitrary: st) (simp_all add: put_arg_def)

lemma list_args_join:
  "\<forall>t \<in> set ts. plain_arg t \<Longrightarrow> ts \<noteq> [] \<Longrightarrow> \<not> inquotes_level st \<Longrightarrow> paren_level st = 0 \<Longrightarrow>
     arg st = [] \<Longrightarrow>
     list_args (join_names CHR '','' ts) st ip = Inr (ip @ map (\<lambda>t. mk_item t (Some [])) ts)"
proof (induction "CHR '',''" ts arbitrary: st ip rule: join_names.induct)
  case (2 t)
  then show ?case using list_args_plain [of t "[]" st ip] by (simp add: appended_def)
next
  case (3 t u ts)
  let ?st = "(foldl put_arg st t)\<lparr>arg := []\<rparr>"
  have "list_args (join_names CHR '','' (t # u # ts)) st ip
      = list_args (join_names CHR '','' (u # ts)) ?st (appended ip t (Some []))"
    using "3.prems" by (simp add: list_args_plain)
  also have "\<dots> = Inr (appended ip t (Some []) @ map (\<lambda>t. mk_item t (Some [])) (u # ts))"
    using "3.prems" by (intro "3.hyps") simp_all
  finally show ?case by (simp add: appended_def)
qed simp

subsection \<open>Properties\<close>

text \<open>The two comparisons of lists by name, \<open>OrderedListsMatch\<close> and \<open>ItemListsEqual\<close>, agree.\<close>

lemma OrderedListsMatch_ItemListsEqual: "OrderedListsMatch xs ys = ItemListsEqual xs ys"
proof (induction xs ys rule: ItemListsEqual.induct)
  case (2 q qs)
  show ?case by simp
qed simp_all

text \<open>
  C28. \<open>ReplaceWithFieldMatch\<close> is convergent: a second run with the same arguments changes nothing
  and counts no edit.
\<close>

theorem ReplaceWithFieldMatch_convergent:
  assumes "ReplaceWithFieldMatch st field replace split = Inr (xs, edits)"
  shows "ReplaceWithFieldMatch (xs, edits) field replace split = Inr (xs, edits)"
proof (cases "replace = None \<or> replace = Some []")
  case True
  with assms show ?thesis by (auto simp: ReplaceWithFieldMatch_def)
next
  case False
  then obtain r where r: "replace = Some r" "r \<noteq> []" by (cases replace) auto
  obtain ys e where st: "st = (ys, e)" by fastforce
  let ?mf = "scan_int_or 0 field"
  obtain n sps spe where sc: "field_scan ?mf split r 0 1 None = (n, sps, spe)"
    by (metis prod_cases3)
  show ?thesis
  proof (cases "n < ?mf")
    case True
    with r sc show ?thesis by (simp add: ReplaceWithFieldMatch_def)
  next
    case False
    with assms r sc st obtain b where b: "sps = Some b"
      by (cases sps) (simp_all add: ReplaceWithFieldMatch_def)
    let ?e = "case spe of None \<Rightarrow> length r | Some e \<Rightarrow> e"
    let ?key = "take (?e - b) (drop b r)"
    have key: "line_field ?mf split r = ?key" using sc b by (simp add: line_field_def)
    have "replace_field_lines ?mf split ?key r ys e = (xs, edits)"
      using assms r sc st b False by (simp add: ReplaceWithFieldMatch_def)
    from replace_field_lines_idem [OF key this] r sc b False show ?thesis
      by (simp add: ReplaceWithFieldMatch_def)
  qed
qed

theorem ReplaceWithFieldMatch_convergent_witness:
  "ReplaceWithFieldMatch ([mk_item ''r:new'' None], 1) ''1'' (Some ''r:new'') CHR '':''
     = Inr ([mk_item ''r:new'' None], 1)"
  by (rule ReplaceWithFieldMatch_convergent [of "([mk_item ''r:old'' None], 0)"])
    (simp add: ReplaceWithFieldMatch_def scan_int_or_def scan_int_def scan_unsigned_def
      digits_value_def ctype_defs replace_field_line_def line_field_def mk_item_def)

text \<open>
  \<open>ListFromArgs\<close> splits a comma separated list of plain arguments, empty ones included, into
  exactly these arguments.
\<close>

lemma ListFromArgs_join:
  assumes "ts \<noteq> []" and "\<forall>t \<in> set ts. plain_arg t"
  shows "ListFromArgs (join_names CHR '','' ts) = Inr (map (\<lambda>t. mk_item t (Some [])) ts)"
  using list_args_join [OF assms(2,1)] by (simp add: ListFromArgs_def)

lemma ListFromArgs_join_witness:
  "ListFromArgs (join_names CHR '','' [''a'', [], ''b c'']) =
     Inr (map (\<lambda>t. mk_item t (Some [])) [''a'', [], ''b c''])"
  by (rule ListFromArgs_join) (simp_all add: plain_arg_def)

text \<open>
  A search string of one byte: after the first replacement the next search starts on the byte just
  matched, finds it again, and no later occurrence is replaced.
\<close>

definition find_char :: "char \<Rightarrow> matcher" where
  "find_char c s = (let k = length (takeWhile (\<lambda>d. d \<noteq> c) s) in
     if k < length s then Some (k, k + 1) else None)"

lemma subst_all_eqs [simp]:
  "subst_all m replace [] nxt = Inr []"
  "subst_all m replace (c # cs) None =
     bind_outcome (subst_all m replace cs None) (\<lambda>r. Inr (c # r))"
  "subst_all m replace (c # cs) (Some (Suc k, len)) =
     bind_outcome (subst_all m replace cs (Some (k, len))) (\<lambda>r. Inr (c # r))"
  "subst_all m replace (c # cs) (Some (0, Suc 0)) =
     bind_outcome (subst_all m replace cs
       (case m (c # cs) of None \<Rightarrow> None
          | Some (so, eo) \<Rightarrow> if so = 0 then None else Some (so - 1, eo - so)))
       (\<lambda>r. Inr (replace @ r))"
  by (subst subst_all.simps, simp)+

lemma subst_all_None: "subst_all m replace s None = Inr s"
proof (induction s)
qed simp_all

lemma subst_all_skip:
  "k \<le> length s \<Longrightarrow> subst_all m replace s (Some (k, len)) =
     bind_outcome (subst_all m replace (drop k s) (Some (0, len))) (\<lambda>r. Inr (take k s @ r))"
proof (induction k arbitrary: s)
  case 0
  then show ?case by (cases "subst_all m replace s (Some (0, len))") simp_all
next
  case (Suc k)
  then obtain c cs where s: "s = c # cs" "k \<le> length cs" by (cases s) auto
  with Suc.IH [of cs] show ?case
    by (cases "subst_all m replace (drop k cs) (Some (0, len))") simp_all
qed

text \<open>
  With a search expression of a single character, \<open>GlobalReplace\<close> rewrites only the first
  occurrence on a line: the rest of the line is copied unchanged.
\<close>

lemma GlobalReplace_single_character:
  assumes "line = u @ c # v" and "c \<notin> set u" and "length (u @ replace @ v) < CF_BUFSIZE"
  shows "find_char c line = Some (length u, length u + 1)
     \<and> replaced_line (find_char c) replace line (length u, length u + 1) = Inr (u @ replace @ v)"
proof -
  have tw: "takeWhile (\<lambda>d. d \<noteq> c) (u @ c # v) = u"
    using assms(2) by (induction u) auto
  have here: "find_char c (c # v) = Some (0, 1)" by (simp add: find_char_def)
  have "subst_all (find_char c) replace (c # v) (Some (0, 1)) = Inr (replace @ v)"
    by (simp add: here subst_all_None)
  then have "subst_all (find_char c) replace line (Some (length u, 1)) = Inr (u @ replace @ v)"
    using subst_all_skip [of "length u" "u @ c # v" "find_char c" replace 1]
    by (simp add: assms(1) here subst_all_None)
  then have "replaced_line (find_char c) replace line (length u, length u + 1) = Inr (u @ replace @ v)"
    using assms(3) by (simp add: replaced_line_def)
  moreover have "find_char c line = Some (length u, length u + 1)"
    by (simp add: find_char_def assms(1) tw)
  ultimately show ?thesis by simp
qed

lemma GlobalReplace_single_character_witness:
  "find_char CHR ''a'' ''banana'' = Some (length ''b'', length ''b'' + 1)
   \<and> replaced_line (find_char CHR ''a'') ''o'' ''banana'' (length ''b'', length ''b'' + 1)
       = Inr (''b'' @ ''o'' @ ''nana'')"
  by (rule GlobalReplace_single_character) (simp_all add: CF_BUFSIZE_def)

end
