(* ===== verification/Filenames.thy ===== *)
theory Filenames
  imports ItemEdit
begin

text \<open>
  filenames.c: path names and the string utilities of the program (the Unix configuration, where
  only the slash separates). The functions that edit a string in place return the new string.
\<close>

definition CF_BUFFERMARGIN :: nat where "CF_BUFFERMARGIN = 32"
definition CF_EXPANDSIZE :: nat where "CF_EXPANDSIZE = 2 * CF_BUFSIZE"
definition CF_MAXLINKSIZE :: nat where "CF_MAXLINKSIZE = 256"
definition CF_MAXVARSIZE :: nat where "CF_MAXVARSIZE = 1024"

subsection \<open>Characters and strings\<close>

fun IsIn :: "char \<Rightarrow> string \<Rightarrow> bool" where
  "IsIn c [] = False"
| "IsIn c (d # ds) = (if d = c then True else IsIn c ds)"

lemma IsIn_iff [simp]: "IsIn c s \<longleftrightarrow> c \<in> set s"
  by (induction s) auto

definition char_add :: "char \<Rightarrow> nat \<Rightarrow> char" where
  "char_add c n = char_of ((byte c + n) mod 256 :: nat)"

definition ToLower :: "char \<Rightarrow> char" where
  "ToLower ch =
     (if isdigit ch \<or> ispunct ch then ch
      else if islower ch then ch
      else char_add ch 32)"

definition ToUpper :: "char \<Rightarrow> char" where
  "ToUpper ch =
     (if isdigit ch \<or> ispunct ch then ch
      else if isupper ch then ch
      else char_add ch 224)"

text \<open>A NUL byte written into the buffer ends the string the caller sees.\<close>

definition until_nul :: "string \<Rightarrow> string" where
  "until_nul s = takeWhile (\<lambda>c. byte c \<noteq> (0::nat)) s"

definition ToUpperStr :: "string \<Rightarrow> string outcome" where
  "ToUpperStr s =
     (if CF_BUFSIZE \<le> length s then Inl (FatalErr ''String too long in ToUpperStr'')
      else Inr (until_nul (map ToUpper s)))"

definition ToLowerStr :: "string \<Rightarrow> string outcome" where
  "ToLowerStr s =
     (if CF_BUFSIZE - 1 \<le> length s then Inl (FatalErr ''String too long in ToLowerStr'')
      else Inr (until_nul (map ToLower s)))"

definition CanonifyName :: "string \<Rightarrow> string" where
  "CanonifyName s = map (\<lambda>c. if \<not> isalnum c \<or> c = CHR ''.'' then CHR ''_'' else c) s"

definition Space2Score :: "string \<Rightarrow> string" where
  "Space2Score s = map (\<lambda>c. if c = CHR '' '' then CHR ''_'' else c) s"

text \<open>\<open>Chop\<close> removes trailing white space; on a string of white space it runs off the front.\<close>

definition Chop :: "string \<Rightarrow> string outcome" where
  "Chop s =
     (if length s = 0 then Inr s
      else if CF_BUFSIZE < length s then Inr s
      else if list_all isspace s then Inl (Undefined ''Chop: read before the string'')
      else Inr (rev (dropWhile isspace (rev s))))"

definition DeleteNewline :: "string \<Rightarrow> string" where
  "DeleteNewline s =
     (if length s = 0 then s else if last s = CHR 0x0A then butlast s else s)"

definition BufferOverflow :: "string \<Rightarrow> string \<Rightarrow> bool" where
  "BufferOverflow str1 str2 = (length str1 + length str2 > CF_BUFSIZE - CF_BUFFERMARGIN)"

definition ExpandOverflow :: "string \<Rightarrow> string \<Rightarrow> bool" where
  "ExpandOverflow str1 str2 = (length str1 + length str2 > CF_EXPANDSIZE - CF_BUFFERMARGIN)"

fun append_classes :: "string \<Rightarrow> item list \<Rightarrow> string" where
  "append_classes buffer [] = buffer"
| "append_classes buffer (ip # ips) =
     (if length buffer + length (it_name ip) + 3 > CF_MAXLINKSIZE then buffer
      else append_classes (buffer @ ''.'' @ it_name ip) ips)"

definition ASUniqueName :: "item list \<Rightarrow> string \<Rightarrow> string" where
  "ASUniqueName VADDCLASSES s = append_classes s VADDCLASSES"

subsection \<open>Path names\<close>

definition IsFileSep :: "char \<Rightarrow> bool" where
  "IsFileSep c = (c = CHR ''/'')"

definition IsAbsoluteFileName :: "string \<Rightarrow> bool" where
  "IsAbsoluteFileName f = (f \<noteq> [] \<and> hd f = CHR ''/'')"

definition RootDirLength :: "string \<Rightarrow> nat" where
  "RootDirLength f = (if f \<noteq> [] \<and> hd f = CHR ''/'' then 1 else 0)"

definition AddSlash :: "string \<Rightarrow> string outcome" where
  "AddSlash s =
     (let f = CHR ''/'' \<in> set s; b = CHR 0x5C \<in> set s;
          sep = (if f \<and> \<not> b then ''/'' else if b \<and> \<not> f then [CHR 0x5C] else ''/'') in
      if s = [] then Inl (Undefined ''AddSlash: read before the string'')
      else if \<not> IsFileSep (last s) then Inr (s @ sep) else Inr s)"

definition DeleteSlash :: "string \<Rightarrow> string" where
  "DeleteSlash s =
     (if length s = 0 then s
      else if s = ''/'' then s
      else if IsFileSep (last s) then butlast s
      else s)"

text \<open>The index of the last separator.\<close>

fun last_sep :: "string \<Rightarrow> nat option" where
  "last_sep [] = None"
| "last_sep (c # s) = (case last_sep s of
       Some k \<Rightarrow> Some (Suc k)
     | None \<Rightarrow> if IsFileSep c then Some 0 else None)"

definition LastFileSeparator :: "string \<Rightarrow> nat option" where
  "LastFileSeparator s = last_sep s"

definition ChopLastNode :: "string \<Rightarrow> (string \<times> bool) outcome" where
  "ChopLastNode s = (case LastFileSeparator s of
       None \<Rightarrow> if length s = 0 then bind_outcome (AddSlash s) (\<lambda>t. Inr (t, False)) else Inr (s, False)
     | Some k \<Rightarrow>
         (let t = take k s in
          if length t = 0 then bind_outcome (AddSlash t) (\<lambda>u. Inr (u, True)) else Inr (t, True)))"

definition ReadLastNode :: "string \<Rightarrow> string" where
  "ReadLastNode s = (case LastFileSeparator s of None \<Rightarrow> s | Some k \<Rightarrow> drop (k + 1) s)"

text \<open>
  The loop of \<open>CompressPath\<close> at a position of the source path. The length of a node is tested
  inside the loop that measures it, so nodes of up to 257 bytes pass.
\<close>

function compress_loop :: "string \<Rightarrow> string \<Rightarrow> (string \<times> bool) outcome" where
  "compress_loop dest s = (case s of
       [] \<Rightarrow> Inr (dest, True)
     | c # cs \<Rightarrow>
         if IsFileSep c then compress_loop dest cs
         else (let node = takeWhile (\<lambda>c. \<not> IsFileSep c) s; rest = drop (length node) s in
           if CF_MAXLINKSIZE + 1 < length node then Inr (dest, False)
           else if node = ''.'' then compress_loop dest rest
           else if node = ''..'' then
             bind_outcome (ChopLastNode dest) (\<lambda>(dest', ok).
               if \<not> ok then Inr (dest', False) else compress_loop dest' rest)
           else bind_outcome (AddSlash dest) (\<lambda>dest'.
             if BufferOverflow dest' node then Inr (dest', False)
             else compress_loop (dest' @ node) rest)))"
  by pat_completeness auto
termination
  by (relation "measure (\<lambda>(dest, s). length s)") auto

declare compress_loop.simps [simp del]

definition CompressPath :: "string \<Rightarrow> (string \<times> bool) outcome" where
  "CompressPath src =
     (let rootlen = RootDirLength src in compress_loop (take rootlen src) (drop rootlen src))"

subsection \<open>What CompressPath computes\<close>

text \<open>
  The reference: the components are pushed on a stack; a dot is dropped, two dots pop. Popping the
  last component is excluded, because \<open>AddSlash\<close> then reads before the empty string.
\<close>

fun normalise :: "string list \<Rightarrow> string list \<Rightarrow> string list option" where
  "normalise stack [] = Some stack"
| "normalise stack (n # ns) =
     (if n = [] \<or> n = ''.'' then normalise stack ns
      else if n = ''..'' then
        (case stack of _ # m # st \<Rightarrow> normalise (m # st) ns | _ \<Rightarrow> None)
      else normalise (n # stack) ns)"

definition show_path :: "string list \<Rightarrow> string" where
  "show_path stack = (if stack = [] then ''/'' else concat (map (\<lambda>n. CHR ''/'' # n) (rev stack)))"

fun slash_join :: "string list \<Rightarrow> string" where
  "slash_join [] = []"
| "slash_join (n # ns) = n @ CHR ''/'' # slash_join ns"

lemma show_path_Cons: "show_path (n # st) = (if st = [] then [] else show_path st) @ CHR ''/'' # n"
  by (simp add: show_path_def)

lemma last_sep_append: "CHR ''/'' \<notin> set n \<Longrightarrow> last_sep (s @ CHR ''/'' # n) = Some (length s)"
proof (induction s)
  case Nil
  then have "last_sep n = None" by (induction n) (auto simp: IsFileSep_def)
  then show ?case by (simp add: IsFileSep_def)
qed simp

lemma show_path_nonempty [simp]: "show_path st \<noteq> []"
  by (cases st) (simp_all add: show_path_def)

lemma AddSlash_show_path:
  assumes "\<forall>n \<in> set st. n \<noteq> [] \<and> CHR ''/'' \<notin> set n"
  shows "AddSlash (show_path st) = Inr ((if st = [] then [] else show_path st) @ ''/'')"
proof (cases st)
  case Nil
  then show ?thesis by (simp add: AddSlash_def show_path_def IsFileSep_def)
next
  case (Cons n st')
  have "CHR ''/'' \<in> set (show_path st)" using Cons by (simp add: show_path_Cons)
  moreover have "\<not> IsFileSep (last (show_path st))"
    using assms Cons by (auto simp: show_path_Cons IsFileSep_def) (metis last_in_set)
  ultimately show ?thesis using Cons by (auto simp: AddSlash_def)
qed

lemma compress_loop_Nil: "compress_loop dest [] = Inr (dest, True)"
  by (subst compress_loop.simps) simp

lemma compress_loop_slash: "compress_loop dest (CHR ''/'' # s) = compress_loop dest s"
  by (subst compress_loop.simps) (simp add: IsFileSep_def)

lemma compress_loop_Cons:
  "\<not> IsFileSep c \<Longrightarrow> compress_loop dest (c # cs) =
     (let node = takeWhile (\<lambda>c. \<not> IsFileSep c) (c # cs); rest = drop (length node) (c # cs) in
      if CF_MAXLINKSIZE + 1 < length node then Inr (dest, False)
      else if node = ''.'' then compress_loop dest rest
      else if node = ''..'' then
        bind_outcome (ChopLastNode dest) (\<lambda>(dest', ok).
          if \<not> ok then Inr (dest', False) else compress_loop dest' rest)
      else bind_outcome (AddSlash dest) (\<lambda>dest'.
        if BufferOverflow dest' node then Inr (dest', False)
        else compress_loop (dest' @ node) rest))"
  by (subst compress_loop.simps) (simp only: list.case if_False Let_def)

lemma compress_loop_node:
  assumes "n \<noteq> []" and "CHR ''/'' \<notin> set n" and "length n \<le> CF_MAXLINKSIZE + 1"
  shows "compress_loop dest (n @ CHR ''/'' # s) =
     (if n = ''.'' then compress_loop dest s
      else if n = ''..'' then
        bind_outcome (ChopLastNode dest) (\<lambda>(dest', ok).
          if \<not> ok then Inr (dest', False) else compress_loop dest' s)
      else bind_outcome (AddSlash dest) (\<lambda>dest'.
        if BufferOverflow dest' n then Inr (dest', False) else compress_loop (dest' @ n) s))"
proof -
  obtain c cs where n: "n = c # cs" using assms(1) by (cases n) auto
  have tw: "takeWhile (\<lambda>c. \<not> IsFileSep c) (c # cs @ CHR ''/'' # s) = n"
    using assms(2) takeWhile_upto [of "CHR ''/''" n s] by (simp add: IsFileSep_def n)
  have tl: "drop (length n) (c # cs @ CHR ''/'' # s) = CHR ''/'' # s" by (simp add: n)
  have "\<not> IsFileSep c" using assms(2) n by (auto simp: IsFileSep_def)
  note step = compress_loop_Cons [OF this, of dest "cs @ CHR ''/'' # s", unfolded Let_def tw tl]
  have "n @ CHR ''/'' # s = c # cs @ CHR ''/'' # s" by (simp add: n)
  moreover have "\<not> CF_MAXLINKSIZE + 1 < length n" using assms(3) by simp
  ultimately show ?thesis using step by (simp only: compress_loop_slash if_False)
qed

lemma ChopLastNode_show_path:
  assumes "CHR ''/'' \<notin> set n"
  shows "ChopLastNode (show_path (n # m # st)) = Inr (show_path (m # st), True)"
  using last_sep_append [OF assms, of "show_path (m # st)"]
  by (simp add: ChopLastNode_def LastFileSeparator_def show_path_Cons [of n])

lemma compress_normalise:
  assumes "\<forall>n \<in> set ns. CHR ''/'' \<notin> set n \<and> length n \<le> CF_MAXLINKSIZE + 1"
    and "\<forall>n \<in> set st. n \<noteq> [] \<and> CHR ''/'' \<notin> set n"
    and "normalise st ns = Some st'"
    and "length (show_path st) + length (slash_join ns) + 1 \<le> CF_BUFSIZE - CF_BUFFERMARGIN"
  shows "compress_loop (show_path st) (slash_join ns) = Inr (show_path st', True)"
  using assms
proof (induction st ns rule: normalise.induct)
  case (1 st)
  then show ?case by (simp add: compress_loop_Nil)
next
  case (2 st n ns)
  consider (empty) "n = []" | (dot) "n = ''.''" | (dots) "n = ''..''"
    | (node) "n \<noteq> []" "n \<noteq> ''.''" "n \<noteq> ''..''" by blast
  then show ?case
  proof cases
    case empty
    with 2 show ?thesis by (simp add: compress_loop_slash)
  next
    case dot
    with 2 compress_loop_node [of n "show_path st" "slash_join ns"] show ?thesis by simp
  next
    case dots
    with "2.prems"(3) obtain p m st1 where st: "st = p # m # st1"
      by (auto split: list.splits)
    then have "length (show_path (m # st1)) \<le> length (show_path st)"
      by (simp add: show_path_Cons [of p])
    moreover have "ChopLastNode (show_path st) = Inr (show_path (m # st1), True)"
      using "2.prems"(2) st by (simp add: ChopLastNode_show_path)
    ultimately show ?thesis
      using dots st 2 compress_loop_node [of n "show_path st" "slash_join ns"] by simp
  next
    case node
    let ?d = "(if st = [] then [] else show_path st) @ ''/''"
    have len: "length ?d \<le> length (show_path st) + 1" by (auto simp: show_path_def)
    have nx: "?d @ n = show_path (n # st)" by (simp add: show_path_Cons)
    have "\<not> BufferOverflow ?d n"
      using "2.prems"(4) len by (simp add: BufferOverflow_def)
    then have "compress_loop (show_path st) (slash_join (n # ns)) = compress_loop (?d @ n) (slash_join ns)"
      using "2.prems" node by (simp add: compress_loop_node AddSlash_show_path)
    also have "\<dots> = Inr (show_path st', True)"
      unfolding nx using 2 node len
      by (intro "2.IH"(3)) (auto simp flip: nx)
    finally show ?thesis .
  qed
qed

subsection \<open>Properties\<close>



text \<open>
  \<open>CanonifyName\<close> yields a class identifier: it keeps the length, every character of the result
  is alphanumeric or an underscore, and a second application changes nothing.
\<close>

lemma CanonifyName_identifier:
  "length (CanonifyName s) = length s
   \<and> list_all (\<lambda>c. isalnum c \<or> c = CHR ''_'') (CanonifyName s)
   \<and> CanonifyName (CanonifyName s) = CanonifyName s"
  by (auto simp: CanonifyName_def list_all_iff ctype_defs)

text \<open>The mapping of a space: to an at sign in lower case, and to a NUL that ends the string in upper case.\<close>

lemma ToLower_space: "ToLower CHR '' '' = CHR ''@''"
  by code_simp

lemma ToUpperStr_space: "ToUpperStr ''a b'' = Inr ''A''"
  by code_simp

end
