(* ===== verification/ClassEval.thy ===== *)
theory ClassEval
  imports Filenames
begin

text \<open>
  eval.c: the classes that guard every action. The heap of defined classes and the operations
  that change it, and the evaluator of class expressions such as \<open>linux.(Hr12|!sun4)\<close>: alternatives
  split at the bar, conjunctions at the dot or ampersand, negation by \<open>!\<close>, brackets. The evaluator
  works on the text itself, as the C code does; the second half relates it to an abstract syntax.
\<close>

subsection \<open>The state\<close>

record class_state =
  VHEAP :: "item list"
  VNEGHEAP :: "item list"
  VADDCLASSES :: "item list"
  VALLADDCLASSES :: "item list"
  ABORTHEAP :: "item list"
  CONTEXTID :: string
  INSTALLALL :: bool
  CONTROL_ACTION :: bool \<comment> \<open>\<open>ACTION\<close> is \<open>control\<close>, \<open>defaultroute\<close> or \<open>import\<close>\<close>
  PARSING :: bool
  VIFELAPSED :: int
  VEXPIREAFTER :: int

definition DAYTEXT :: "string list" where
  "DAYTEXT = [''Monday'', ''Tuesday'', ''Wednesday'', ''Thursday'', ''Friday'', ''Saturday'', ''Sunday'']"

definition MONTHTEXT :: "string list" where
  "MONTHTEXT = [''January'', ''February'', ''March'', ''April'', ''May'', ''June'', ''July'',
     ''August'', ''September'', ''October'', ''November'', ''December'']"

definition CLASSTEXT :: "string list" where
  "CLASSTEXT = [[], ''<soft>'', ''sun4'', ''ultrix'', ''hpux'', ''aix'', ''linux'', ''solaris'',
     ''osf'', ''digital'', ''sun3'', ''irix4'', ''irix'', ''irix64'', ''freebsd'', ''solarisx86'',
     ''bsd4_3'', ''newsos'', ''netbsd'', ''aos'', ''bsdos'', ''nextstep'', ''cray'', ''gnu'', ''nt'',
     ''unix_sv'', ''openbsd'', ''sco'', ''darwin'', ''ux4800'', ''qnx'', ''dragonfly'', ''unused1'',
     ''unused2'', ''unused3'']"

definition ACTIONID :: "string list" where
  "ACTIONID = [[], ''control'', ''alerts'', ''groups'', ''copy'', ''resolve'', ''processes'',
     ''files'', ''tidy'', ''homeservers'', ''binservers'', ''mailserver'', ''required'', ''disks'',
     ''mountables'', ''links'', ''import'', ''shellcommands'', ''disable'', ''rename'',
     ''directories'', ''ignore'', ''broadcast'', ''defaultroute'', ''miscmounts'', ''editfiles'',
     ''unmount'', ''admit'', ''deny'', ''acl'', ''interfaces'', ''filters'', ''strategies'',
     ''packages'', ''methods'', ''scli'']"

subsection \<open>Small tables and counters\<close>

definition Day2Number :: "string \<Rightarrow> int" where
  "Day2Number datestring =
     (case index_from (\<lambda>d. strncmp_eq datestring d 3) 0 DAYTEXT of None \<Rightarrow> - 1 | Some i \<Rightarrow> int i)"

definition Month2Number :: "string option \<Rightarrow> int" where
  "Month2Number string = (case string of
       None \<Rightarrow> - 1
     | Some s \<Rightarrow>
         (case index_from (\<lambda>m. strncmp_eq m s (length s)) 0 MONTHTEXT of
            None \<Rightarrow> - 1
          | Some i \<Rightarrow> int i + 1))"

fun CountParentheses :: "string \<Rightarrow> int" where
  "CountParentheses [] = 0"
| "CountParentheses (c # s) =
     (if c = CHR ''('' then 1 else 0) - (if c = CHR '')'' then 1 else 0) + CountParentheses s"

fun NestedParentheses :: "string \<Rightarrow> int" where
  "NestedParentheses [] = 0"
| "NestedParentheses (c # s) = (if c = CHR ''('' then 1 else 0) + NestedParentheses s"

definition IsHardClass :: "string \<Rightarrow> bool" where
  "IsHardClass sp = (sp \<in> set (drop 2 CLASSTEXT))"

definition CfShow :: "class_state \<Rightarrow> bool" where
  "CfShow st = (if CONTROL_ACTION st then False else INSTALLALL st)"

text \<open>
  \<open>ActionStringToCode\<close> lower-cases its argument up to the first colon; it returns the index in
  \<open>ACTIONID\<close>.
\<close>

definition ActionStringToCode :: "string \<Rightarrow> nat outcome" where
  "ActionStringToCode str =
     (let s = takeWhile (\<lambda>c. c \<noteq> CHR '':'') (until_nul (map ToLower str)) in
      case index_from (\<lambda>a. a = s) 1 (tl ACTIONID) of
        None \<Rightarrow> Inl (FatalErr ''Could not compile action'')
      | Some i \<Rightarrow> Inr i)"

subsection \<open>The class heap\<close>

definition AddClassToHeap :: "class_state \<Rightarrow> string \<Rightarrow> class_state outcome" where
  "AddClassToHeap st cls =
     bind_outcome (Chop cls) (\<lambda>c.
       if length c = 0 then Inr st
       else if IsItemIn (ABORTHEAP st) (Some c) then Inl (Exits 1)
       else if IsItemIn (VHEAP st) (Some c) then Inr st
       else Inr (st\<lparr>VHEAP := appended (VHEAP st) c (Some (CONTEXTID st))\<rparr>))"

definition DeleteClassFromHeap :: "regcomp \<Rightarrow> edit_ctx \<Rightarrow> class_state \<Rightarrow> string \<Rightarrow> class_state" where
  "DeleteClassFromHeap rx ctx st cls =
     st\<lparr>VHEAP := fst (fst (DeleteItemLiteral rx ctx (VHEAP st, 0) cls))\<rparr>"

text \<open>The C code compares the context of every node; all nodes of the heap have one.\<close>

definition DeleteClassesFromContext :: "class_state \<Rightarrow> string \<Rightarrow> class_state outcome" where
  "DeleteClassesFromContext st context =
     (if \<exists>ip \<in> set (VHEAP st). it_classes ip = None
      then Inl (Undefined ''DeleteClassesFromContext: class without context'')
      else Inr (st\<lparr>VHEAP := filter (\<lambda>ip. it_classes ip \<noteq> Some context) (VHEAP st)\<rparr>))"

definition class_seps :: string where
  "class_seps = [CHR ''.'', CHR '':'', CHR '','']"

text \<open>
  The shared loop of \<open>AddMultipleClasses\<close> and \<open>AddPrefixedMultipleClasses\<close> over the local copy:
  \<open>pre\<close> is what is put before each item. After the last item the pointer moves beyond the
  terminator, inside the zeroed copy unless that is full.
\<close>

function add_classes :: "bool \<Rightarrow> string \<Rightarrow> class_state \<Rightarrow> string \<Rightarrow> class_state outcome" where
  "add_classes full pre st sp = (case sp of
       [] \<Rightarrow> Inr st
     | c # cs \<Rightarrow>
         (let currentitem = scan_not_n 250 class_seps sp;
              name = take (CF_BUFSIZE - 1) (pre @ currentitem) in
          if IsHardClass name
          then Inl (FatalErr ''cfengine: You cannot use -D to define a reserved class!'')
          else bind_outcome (AddClassToHeap st (CanonifyName name)) (\<lambda>st'.
            if currentitem = sp then
              (if full then Inl (Undefined ''AddMultipleClasses: read past local'') else Inr st')
            else add_classes full pre st' (drop (length currentitem + 1) sp))))"
  by pat_completeness auto
termination
  by (relation "measure (\<lambda>(full, pre, st, sp). length sp)") auto

declare add_classes.simps [simp del]

definition AddMultipleClasses :: "class_state \<Rightarrow> string option \<Rightarrow> class_state outcome" where
  "AddMultipleClasses st classlist = (case classlist of
       None \<Rightarrow> Inr st
     | Some l \<Rightarrow>
         if length l = 0 then Inr st
         else add_classes (CF_MAXVARSIZE - 1 \<le> length l) [] st (take (CF_MAXVARSIZE - 1) l))"

definition AddPrefixedMultipleClasses ::
  "class_state \<Rightarrow> string \<Rightarrow> string option \<Rightarrow> class_state outcome" where
  "AddPrefixedMultipleClasses st name classlist = (case classlist of
       None \<Rightarrow> Inr st
     | Some l \<Rightarrow>
         if length l = 0 then Inr st
         else add_classes (CF_MAXVARSIZE - 1 \<le> length l) (name @ ''_'') st
                (take (CF_MAXVARSIZE - 1) l))"

function add_installable :: "item list \<Rightarrow> string \<Rightarrow> item list outcome" where
  "add_installable l sp = (case sp of
       [] \<Rightarrow> Inr l
     | c # cs \<Rightarrow>
         (let currentitem = scan_not class_seps sp;
              l' = (if IsItemIn l (Some currentitem) then l else appended l currentitem None) in
          if CF_MAXVARSIZE \<le> length currentitem
          then Inl (Undefined ''AddInstallable: write past currentitem'')
          else if currentitem = sp then Inr l'
          else add_installable l' (drop (length currentitem + 1) sp)))"
  by pat_completeness auto
termination
  by (relation "measure (\<lambda>(l, sp). length sp)") auto

declare add_installable.simps [simp del]

definition AddInstallable :: "class_state \<Rightarrow> string option \<Rightarrow> class_state outcome" where
  "AddInstallable st classlist = (case classlist of
       None \<Rightarrow> Inr st
     | Some l \<Rightarrow>
         bind_outcome (add_installable (VALLADDCLASSES st) l) (\<lambda>l'.
           Inr (st\<lparr>VALLADDCLASSES := l'\<rparr>)))"

text \<open>
  \<open>NegateCompoundClass\<close>: an empty component leaves the buffer of the previous one, which is
  uninitialised at first.
\<close>

function negate_loop :: "string option \<Rightarrow> item list \<Rightarrow> string \<Rightarrow> item list outcome" where
  "negate_loop cbuff heap sp = (case sp of
       [] \<Rightarrow> Inr heap
     | c # cs \<Rightarrow>
         (let item = scan_not_n 255 ''.'' sp;
              cbuff' = (if item = [] then cbuff else Some item);
              rest = dropWhile (\<lambda>c. c \<noteq> CHR ''.'') sp in
          case cbuff' of
            None \<Rightarrow> Inl (Undefined ''NegateCompoundClass: cbuff not set'')
          | Some b \<Rightarrow>
              if IsHardClass b then Inl (FatalErr ''Cannot negate the reserved class'')
              else negate_loop cbuff' (appended heap b None) (tl rest)))"
  by pat_completeness auto
termination
proof (relation "measure (\<lambda>(cbuff, heap, sp). length sp)", goal_cases)
  case (2 cbuff heap sp c cs)
  have "length (tl (dropWhile (\<lambda>c. c \<noteq> CHR ''.'') sp)) \<le> length sp - 1"
    using length_drop_takeWhile [of "\<lambda>c. c \<noteq> CHR ''.''" sp] by simp
  with 2 show ?case by simp
qed simp

definition NegateCompoundClass :: "item list \<Rightarrow> string \<Rightarrow> item list outcome" where
  "NegateCompoundClass heap cls = negate_loop None heap cls"

text \<open>The result says whether the class is special; the state gets the value unless parsing.\<close>

definition IsSpecialClass :: "class_state \<Rightarrow> string \<Rightarrow> class_state \<times> bool" where
  "IsSpecialClass st cls =
     (let value = scan_int_or (- 1) (drop 9 cls) in
      if strncmp_eq cls ''IfElapsed'' 9 \<and> value < 0 then (st, True)
      else if strncmp_eq cls ''IfElapsed'' 9 \<and> \<not> PARSING st then (st\<lparr>VIFELAPSED := value\<rparr>, True)
      else if strncmp_eq cls ''ExpireAfter'' 11 then
        (let value = scan_int_or (- 1) (drop 11 cls) in
         if value \<le> 0 then (st, True)
         else if \<not> PARSING st then (st\<lparr>VEXPIREAFTER := value\<rparr>, True)
         else (st, False))
      else (st, False))"

subsection \<open>Time classes\<close>

record time_vars =
  VHR :: string
  VMINUTE :: string
  VDAY :: string
  VMONTH :: string
  VYEAR :: string

fun words_of :: "string \<Rightarrow> string \<Rightarrow> string list" where
  "words_of [] w = (if w = [] then [] else [rev w])"
| "words_of (c # s) w =
     (if isspace c then (if w = [] then words_of s [] else rev w # words_of s [])
      else words_of s (c # w))"

definition FIVE_MINUTES :: "string list" where
  "FIVE_MINUTES = [''Min00_05'', ''Min05_10'', ''Min10_15'', ''Min15_20'', ''Min20_25'', ''Min25_30'',
     ''Min30_35'', ''Min35_40'', ''Min40_45'', ''Min45_50'', ''Min50_55'', ''Min55_00'']"

definition QUARTERS :: "string list" where
  "QUARTERS = [''Q1'', ''Q2'', ''Q3'', ''Q4'']"

text \<open>C division truncates towards zero, so small negative values fall in the first slot.\<close>

definition slot :: "int \<Rightarrow> int \<Rightarrow> nat option" where
  "slot i width = (if i \<le> - width then None else Some (nat (max 0 i) div nat width))"

definition nth_class :: "string list \<Rightarrow> nat option \<Rightarrow> string list" where
  "nth_class xs k = (case k of None \<Rightarrow> [] | Some k \<Rightarrow> if k < length xs then [xs ! k] else [])"

fun add_class_list :: "class_state \<Rightarrow> string list \<Rightarrow> class_state outcome" where
  "add_class_list st [] = Inr st"
| "add_class_list st (c # cs) = bind_outcome (AddClassToHeap st c) (\<lambda>st'. add_class_list st' cs)"

text \<open>
  The classes \<open>AddTimeClass\<close> adds, in order, from the GMT hour, the four words after the weekday
  and the loop counter of the weekday search, which \<open>sscanf\<close> leaves in place when the minutes are
  not a number.
\<close>

definition time_classes :: "nat \<Rightarrow> string \<Rightarrow> string \<Rightarrow> string \<Rightarrow> string \<Rightarrow> string
    \<Rightarrow> string list \<times> time_vars" where
  "time_classes gmt_hour str buf2 buf3 buf4 buf5 =
     (let gmt = take 8 (''GMT_Hr'' @ show_nat gmt_hour @ [CHR 0x0A]);
          day = index_from (\<lambda>d. strncmp_eq d str 3) 0 DAYTEXT;
          h = scan_not '':'' buf4;
          hour = (if h = [] then gmt else h);
          m = scan_not '':'' (drop (length h + 1) buf4);
          minute = (if h = [] \<or> length h = length buf4 \<or> m = [] then hour else m);
          vhr = take 2 hour;
          i = scan_int_or (case day of None \<Rightarrow> 7 | Some d \<Rightarrow> int d) minute;
          q = nth_class QUARTERS (slot i 15);
          month = nth_class MONTHTEXT (index_from (\<lambda>t. strncmp_eq t buf2 3) 0 MONTHTEXT) in
      ([gmt] @ nth_class DAYTEXT day @ [''Hr'' @ hour, ''Min'' @ minute]
         @ nth_class FIVE_MINUTES (slot i 5)
         @ concat (map (\<lambda>c. [c, ''Hr'' @ vhr @ ''_'' @ c]) q)
         @ [''Day'' @ buf3] @ month @ [''Yr'' @ buf5],
       \<lparr>VHR = vhr, VMINUTE = take 2 minute, VDAY = take 2 buf3,
        VMONTH = take 3 (concat month), VYEAR = buf5\<rparr>))"

definition AddTimeClass ::
  "nat \<Rightarrow> class_state \<Rightarrow> string \<Rightarrow> (class_state \<times> time_vars) outcome" where
  "AddTimeClass gmt_hour st str = (case words_of str [] of
       _ # buf2 # buf3 # buf4 # buf5 # _ \<Rightarrow>
         (if 9 < length buf2 \<or> 6 < length buf3 \<or> 9 < length buf4 \<or> 4 < length buf5
             \<or> 7 < length (scan_not '':'' buf4)
             \<or> 6 < length (scan_not '':'' (drop (length (scan_not '':'' buf4) + 1) buf4))
          then Inl (Undefined ''AddTimeClass: buffer overflow'')
          else (case time_classes gmt_hour str buf2 buf3 buf4 buf5 of
                  (names, tv) \<Rightarrow> bind_outcome (add_class_list st names) (\<lambda>st'. Inr (st', tv))))
     | _ \<Rightarrow> Inl (Undefined ''AddTimeClass: buffer not set''))"

subsection \<open>The evaluator\<close>

text \<open>
  The scan of \<open>GetORAtom\<close> and \<open>GetANDAtom\<close>: copy up to a stop character outside brackets.
  The level is a C \<open>int\<close> and goes negative on a stray closing bracket.
\<close>

fun level_scan :: "(char \<Rightarrow> bool) \<Rightarrow> int \<Rightarrow> string \<Rightarrow> string" where
  "level_scan stop bracklevel [] = []"
| "level_scan stop bracklevel (c # s) =
     (if stop c \<and> bracklevel = 0 then []
      else c # level_scan stop
             (bracklevel + (if c = CHR ''('' then 1 else 0) - (if c = CHR '')'' then 1 else 0)) s)"

definition GetORAtom :: "string \<Rightarrow> string" where
  "GetORAtom start = level_scan (\<lambda>c. c = CHR ''|'') 0 start"

definition GetANDAtom :: "string \<Rightarrow> string" where
  "GetANDAtom start = level_scan (\<lambda>c. c = CHR ''.'' \<or> c = CHR ''&'') 0 start"

fun count_atoms :: "int \<Rightarrow> int \<Rightarrow> string \<Rightarrow> int outcome" where
  "count_atoms bracklevel cnt [] =
     (if bracklevel \<noteq> 0 then Inl (FatalErr ''Aborted'') else Inr (cnt + 1))"
| "count_atoms bracklevel cnt (c # s) =
     (if c = CHR ''('' then count_atoms (bracklevel + 1) cnt s
      else if c = CHR '')'' then count_atoms (bracklevel - 1) cnt s
      else if bracklevel = 0 \<and> (c = CHR ''.'' \<or> c = CHR ''&'')
      then count_atoms bracklevel (cnt + 1) s
      else count_atoms bracklevel cnt s)"

definition CountEvalAtoms :: "string \<Rightarrow> int outcome" where
  "CountEvalAtoms cls = count_atoms 0 0 cls"

fun closes_only_at_end :: "int \<Rightarrow> string \<Rightarrow> bool" where
  "closes_only_at_end level [] = True"
| "closes_only_at_end level (c # s) =
     (let level' = level + (if c = CHR ''('' then 1 else 0) - (if c = CHR '')'' then 1 else 0) in
      if level' = 0 then False else closes_only_at_end level' s)"

definition IsBracketed :: "string \<Rightarrow> bool" where
  "IsBracketed s = (case s of
       [] \<Rightarrow> False
     | c # _ \<Rightarrow> if c \<noteq> CHR ''('' then False else closes_only_at_end 0 (butlast s))"

definition strip_brackets :: "string \<Rightarrow> string" where
  "strip_brackets s = tl (butlast s)"

text \<open>One unbracketed atom: \<open>None\<close> makes the conjunction false, otherwise the atom counts.\<close>

definition atom_holds :: "class_state \<Rightarrow> item list \<Rightarrow> bool \<Rightarrow> bool \<Rightarrow> string \<Rightarrow> bool" where
  "atom_holds st l fromIsInstallable negation atom =
     (if IsItemIn (VNEGHEAP st) (Some atom) then negation
      else if IsItemIn (VHEAP st) (Some atom) then \<not> negation
      else if IsItemIn l (Some atom) then \<not> (negation \<and> \<not> fromIsInstallable)
      else negation)"

lemma level_scan_length: "length (level_scan stop b s) \<le> length s"
  by (induction stop b s rule: level_scan.induct) auto

lemma GetANDAtom_length [length_facts]: "length (GetANDAtom s) \<le> length s"
  by (simp add: GetANDAtom_def level_scan_length)

lemma GetORAtom_length [length_facts]: "length (GetORAtom s) \<le> length s"
  by (simp add: GetORAtom_def level_scan_length)

lemma length_dropWhile_Cons: "length (dropWhile P s) \<le> length s"
  by (rule length_drop_takeWhile)

lemma strip_brackets_length: "s \<noteq> [] \<Longrightarrow> length (strip_brackets s) < length s"
  by (cases "length s") (auto simp: strip_brackets_def)

lemma IsBracketed_nonempty: "IsBracketed s \<Longrightarrow> s \<noteq> []"
  by (auto simp: IsBracketed_def)

lemma scan_bounds:
  "length (GetORAtom (dropWhile P sp)) \<le> length sp"
  "length (GetANDAtom (dropWhile P sp)) \<le> length sp"
  "IsBracketed (GetORAtom (dropWhile P sp)) \<Longrightarrow>
     length (strip_brackets (GetORAtom (dropWhile P sp))) < length sp"
  "IsBracketed (GetANDAtom (dropWhile P sp)) \<Longrightarrow>
     length (strip_brackets (GetANDAtom (dropWhile P sp))) < length sp"
  using GetORAtom_length [of "dropWhile P sp"] GetANDAtom_length [of "dropWhile P sp"]
    length_drop_takeWhile [of P sp]
    strip_brackets_length [OF IsBracketed_nonempty, of "GetORAtom (dropWhile P sp)"]
    strip_brackets_length [OF IsBracketed_nonempty, of "GetANDAtom (dropWhile P sp)"]
  by linarith+

lemma drop_scan_bounds:
  "sp \<noteq> [] \<Longrightarrow> length (drop (Suc n) (dropWhile P sp)) < length sp"
  "sp \<noteq> [] \<Longrightarrow> length (tl (drop n (dropWhile P sp))) < length sp"
  using length_drop_takeWhile [of P sp] by (cases sp; auto)+

text \<open>
  \<open>eval_or\<close> is the loop of \<open>EvaluateORString\<close> with its accumulated result, \<open>eval_and\<close> the loop of
  \<open>EvaluateANDString\<close> with its count. The buffers are zero behind the terminator, so the pointer
  that steps over it reads the end again; only an atom that fills its buffer is beyond the model
  (\<open>Undefined\<close>).
\<close>

function (sequential) eval_or :: "class_state \<Rightarrow> item list \<Rightarrow> bool \<Rightarrow> string \<Rightarrow> bool \<Rightarrow> bool outcome"
  and eval_and :: "class_state \<Rightarrow> item list \<Rightarrow> bool \<Rightarrow> string \<Rightarrow> int \<Rightarrow> bool outcome" where
  "eval_or st l fi sp result =
     (if sp = [] then Inr result
      else (let s1 = dropWhile (\<lambda>c. c = CHR ''|'') sp; cbuff = GetORAtom s1;
                s2 = drop (length cbuff) s1 in
        if length cbuff = 0 then Inr result
        else if CF_BUFSIZE - 1 \<le> length cbuff then Inl (Undefined ''EvaluateORString: cbuff'')
        else bind_outcome
          (if IsBracketed cbuff then eval_or st l fi (strip_brackets cbuff) False
           else bind_outcome (CountEvalAtoms cbuff) (\<lambda>count. eval_and st l fi cbuff count))
          (\<lambda>r. if s2 = [] then Inr (result \<or> r) else eval_or st l fi (tl s2) (result \<or> r))))"
| "eval_and st l fi sp cnt =
     (if sp = [] then Inr (cnt = 0)
      else (let s1 = dropWhile (\<lambda>c. c = CHR ''!'') sp;
                negation = odd (length (takeWhile (\<lambda>c. c = CHR ''!'') sp));
                cbuff = GetANDAtom s1;
                s2 = drop (length cbuff + 1) s1 in
        if IsBracketed cbuff then
          bind_outcome (eval_or st l fi (strip_brackets cbuff) False) (\<lambda>r.
            if r = negation then Inr False else eval_and st l fi s2 (cnt - 1))
        else
          (let s3 = (if s2 \<noteq> [] \<and> (hd s2 = CHR ''.'' \<or> hd s2 = CHR ''&'') then tl s2 else s2) in
           if atom_holds st l fi negation cbuff then eval_and st l fi s3 (cnt - 1)
           else Inr False)))"
  by pat_completeness auto

termination
  by (relation "measure (\<lambda>x. case x of Inl (st, l, fi, sp, r) \<Rightarrow> 2 * length sp + 1
                                     | Inr (st, l, fi, sp, c) \<Rightarrow> 2 * length sp)")
    (auto simp: scan_bounds drop_scan_bounds less_Suc_eq_le Suc_double_less
       simp del: length_drop length_tl)

declare eval_or.simps [simp del] eval_and.simps [simp del]

definition EvaluateORString :: "class_state \<Rightarrow> string option \<Rightarrow> item list \<Rightarrow> bool \<Rightarrow> bool outcome" where
  "EvaluateORString st cls l fromIsInstallable = (case cls of
       None \<Rightarrow> Inr False
     | Some s \<Rightarrow> eval_or st l fromIsInstallable s False)"

definition EvaluateANDString :: "class_state \<Rightarrow> string \<Rightarrow> item list \<Rightarrow> bool \<Rightarrow> bool outcome" where
  "EvaluateANDString st cls l fromIsInstallable =
     bind_outcome (CountEvalAtoms cls) (\<lambda>count. eval_and st l fromIsInstallable cls count)"

definition IsDefinedClass :: "class_state \<Rightarrow> string option \<Rightarrow> bool outcome" where
  "IsDefinedClass st cls =
     (if CfShow st then Inr True
      else if cls = None then Inr True
      else EvaluateORString st cls (VADDCLASSES st) False)"

definition IsExcluded :: "class_state \<Rightarrow> string option \<Rightarrow> bool outcome" where
  "IsExcluded st exception = bind_outcome (IsDefinedClass st exception) (\<lambda>d. Inr (\<not> d))"

definition or_else :: "bool outcome \<Rightarrow> bool outcome \<Rightarrow> bool outcome" where
  "or_else a b = bind_outcome a (\<lambda>r. if r then Inr True else b)"

definition IsInstallable :: "class_state \<Rightarrow> string \<Rightarrow> bool outcome" where
  "IsInstallable st cls =
     (if CfShow st then Inr True
      else (let buffer = filter (\<lambda>c. c \<noteq> CHR ''!'') cls in
        if CF_BUFSIZE \<le> length buffer then Inl (Undefined ''IsInstallable: buffer'')
        else or_else (EvaluateORString st (Some buffer) (VALLADDCLASSES st) False)
          (or_else (EvaluateORString st (Some cls) (VALLADDCLASSES st) True)
             (EvaluateORString st (Some cls) (VADDCLASSES st) False))))"

text \<open>The two list queries of item-ext.c that consult the classes of the items.\<close>

fun IsClassedItemIn :: "class_state \<Rightarrow> item list \<Rightarrow> string option \<Rightarrow> bool outcome" where
  "IsClassedItemIn st [] item = (case item of
       None \<Rightarrow> Inr True
     | Some s \<Rightarrow> Inr (length s = 0))"
| "IsClassedItemIn st (p # ps) item = (case item of
       None \<Rightarrow> Inr True
     | Some s \<Rightarrow>
         if length s = 0 then Inr True
         else if it_name p = s then
           bind_outcome (IsExcluded st (it_classes p)) (\<lambda>ex.
             if ex then IsClassedItemIn st ps item else Inr True)
         else IsClassedItemIn st ps item)"

end
