(* ===== verification/ClassExp.thy ===== *)
theory ClassExp
  imports ClassEval
begin

text \<open>
  The abstract syntax of class expressions, its meaning, and the refinement: the evaluator of
  eval.c, run on the text of an expression, returns the meaning of the expression.
\<close>

subsection \<open>Syntax, text and meaning\<close>

text \<open>
  A factor is a class name or a bracketed expression. An expression is a list of alternatives,
  each a list of terms: which of the two conjunction signs stands before it (not used for the
  first), how many negation signs it has, and its factor.
\<close>

datatype factor = Name string | Paren "(bool \<times> nat \<times> factor) list list"

type_synonym conj_exp = "(bool \<times> nat \<times> factor) list"
type_synonym class_exp = "conj_exp list"

definition amp_sign :: "bool \<Rightarrow> char" where
  "amp_sign a = (if a then CHR ''&'' else CHR ''.'')"

fun and_join :: "(bool \<times> string) list \<Rightarrow> string" where
  "and_join [] = []"
| "and_join [(a, s)] = s"
| "and_join ((a, s) # (b, t) # ts) = s @ amp_sign b # and_join ((b, t) # ts)"

fun show_factor :: "factor \<Rightarrow> string" where
  "show_factor (Name s) = s"
| "show_factor (Paren e) = CHR ''('' # join_names CHR ''|''
     (map (\<lambda>c. and_join (map (\<lambda>(a, n, f). (a, replicate n (CHR ''!'') @ show_factor f)) c)) e)
     @ '')''"

definition show_term :: "bool \<times> nat \<times> factor \<Rightarrow> bool \<times> string" where
  "show_term t = (case t of (a, n, f) \<Rightarrow> (a, replicate n (CHR ''!'') @ show_factor f))"

definition show_conj :: "conj_exp \<Rightarrow> string" where
  "show_conj c = and_join (map show_term c)"

definition show_exp :: "class_exp \<Rightarrow> string" where
  "show_exp e = join_names CHR ''|'' (map show_conj e)"

definition name_ok :: "string \<Rightarrow> bool" where
  "name_ok s \<longleftrightarrow> s \<noteq> [] \<and> (\<forall>c \<in> set s. c \<notin> set ''()|.&!'')"

fun wf_factor :: "factor \<Rightarrow> bool" where
  "wf_factor (Name s) = name_ok s"
| "wf_factor (Paren e) = (e \<noteq> [] \<and> list_all (\<lambda>c. c \<noteq> [] \<and> list_all (\<lambda>(a, n, f). wf_factor f) c) e)"

definition wf_exp :: "class_exp \<Rightarrow> bool" where
  "wf_exp e \<longleftrightarrow> e \<noteq> [] \<and> list_all (\<lambda>c. c \<noteq> [] \<and> list_all (\<lambda>(a, n, f). wf_factor f) c) e"

fun sem_factor :: "class_state \<Rightarrow> item list \<Rightarrow> bool \<Rightarrow> bool \<Rightarrow> factor \<Rightarrow> bool" where
  "sem_factor st l fi negation (Name s) = atom_holds st l fi negation s"
| "sem_factor st l fi negation (Paren e) =
     (list_ex (\<lambda>c. list_all (\<lambda>(a, n, f). sem_factor st l fi (odd n) f) c) e \<noteq> negation)"

definition sem_conj :: "class_state \<Rightarrow> item list \<Rightarrow> bool \<Rightarrow> conj_exp \<Rightarrow> bool" where
  "sem_conj st l fi c = list_all (\<lambda>(a, n, f). sem_factor st l fi (odd n) f) c"

definition sem_exp :: "class_state \<Rightarrow> item list \<Rightarrow> bool \<Rightarrow> class_exp \<Rightarrow> bool" where
  "sem_exp st l fi e = list_ex (sem_conj st l fi) e"

lemma show_factor_Paren: "show_factor (Paren e) = CHR ''('' # show_exp e @ '')''"
proof -
  have "show_term = (\<lambda>(a, n, f). (a, replicate n (CHR ''!'') @ show_factor f))"
    by (rule ext) (simp add: show_term_def)
  then show ?thesis by (simp add: show_exp_def show_conj_def [abs_def])
qed

lemma wf_factor_Paren: "wf_factor (Paren e) = wf_exp e"
  by (simp add: wf_exp_def)

lemma sem_factor_Paren: "sem_factor st l fi negation (Paren e) = (sem_exp st l fi e \<noteq> negation)"
  by (simp add: sem_exp_def sem_conj_def [abs_def])

declare show_factor.simps(2) [simp del] wf_factor.simps(2) [simp del] sem_factor.simps(2) [simp del]
declare show_factor_Paren [simp] wf_factor_Paren [simp] sem_factor_Paren [simp]

subsection \<open>Balanced text\<close>

text \<open>
  \<open>scan_ok stop k s\<close>: from bracket level \<open>k\<close>, the level after \<open>s\<close>, if it never falls below 0 and
  no stop character occurs at level 0.
\<close>

fun scan_ok :: "(char \<Rightarrow> bool) \<Rightarrow> nat \<Rightarrow> string \<Rightarrow> nat option" where
  "scan_ok stop k [] = Some k"
| "scan_ok stop k (c # s) =
     (if stop c \<and> k = 0 then None
      else if c = CHR ''('' then scan_ok stop (Suc k) s
      else if c = CHR '')'' then (case k of 0 \<Rightarrow> None | Suc j \<Rightarrow> scan_ok stop j s)
      else scan_ok stop k s)"

abbreviation bar :: "char \<Rightarrow> bool" where "bar \<equiv> \<lambda>c. c = CHR ''|''"
abbreviation andsign :: "char \<Rightarrow> bool" where "andsign \<equiv> \<lambda>c. c = CHR ''.'' \<or> c = CHR ''&''"
abbreviation nostop :: "char \<Rightarrow> bool" where "nostop \<equiv> \<lambda>_. False"

lemma scan_ok_append:
  "scan_ok stop k (s @ t) = (case scan_ok stop k s of None \<Rightarrow> None | Some m \<Rightarrow> scan_ok stop m t)"
  by (induction stop k s rule: scan_ok.induct) (auto split: nat.splits)

lemma scan_ok_inside: "scan_ok nostop k s = Some m \<Longrightarrow> scan_ok stop (Suc k) s = Some (Suc m)"
proof (induction s arbitrary: k)
  case (Cons c s)
  then show ?case by (cases k) (auto split: if_splits)
qed simp

lemma scan_ok_weaken: "scan_ok stop k s = Some m \<Longrightarrow> scan_ok nostop k s = Some m"
proof (induction s arbitrary: k)
  case (Cons c s)
  then show ?case by (cases k) (auto split: if_splits)
qed simp

lemma level_scan_ok:
  "scan_ok stop k s = Some m \<Longrightarrow> level_scan stop (int k) (s @ t) = s @ level_scan stop (int m) t"
proof (induction s arbitrary: k)
  case (Cons c s)
  show ?case
  proof (cases k)
    case 0
    with Cons.prems Cons.IH [of 1] Cons.IH [of 0] show ?thesis by (auto split: if_splits)
  next
    case (Suc j)
    with Cons.prems Cons.IH [of k] Cons.IH [of "Suc k"] Cons.IH [of j] show ?thesis
      by (auto split: if_splits simp: algebra_simps)
  qed
qed simp

lemma count_atoms_ok:
  "scan_ok andsign k s = Some m \<Longrightarrow> count_atoms (int k) n (s @ t) = count_atoms (int m) n t"
proof (induction s arbitrary: k)
  case (Cons c s)
  show ?case
  proof (cases k)
    case 0
    with Cons.prems Cons.IH [of 1] Cons.IH [of 0] show ?thesis by (auto split: if_splits)
  next
    case (Suc j)
    with Cons.prems Cons.IH [of k] Cons.IH [of "Suc k"] Cons.IH [of j] show ?thesis
      by (auto split: if_splits simp: algebra_simps)
  qed
qed simp

lemma closes_only_at_end_ok:
  "scan_ok nostop k s = Some m \<Longrightarrow>
     closes_only_at_end (int k + 1) (s @ t) = closes_only_at_end (int m + 1) t"
proof (induction s arbitrary: k)
  case (Cons c s)
  show ?case
  proof (cases k)
    case 0
    with Cons.prems Cons.IH [of 1] Cons.IH [of 0] show ?thesis by (auto split: if_splits)
  next
    case (Suc j)
    with Cons.prems Cons.IH [of k] Cons.IH [of "Suc k"] Cons.IH [of j] show ?thesis
      by (auto split: if_splits simp: algebra_simps)
  qed
qed simp

definition splits_only :: "(char \<Rightarrow> bool) \<Rightarrow> bool" where
  "splits_only stop \<longleftrightarrow> (\<forall>c. stop c \<longrightarrow> c \<in> set ''|.&'')"

lemma splits_only_simps [simp]: "splits_only bar" "splits_only andsign" "splits_only nostop"
  by (auto simp: splits_only_def)

lemma scan_ok_flat:
  "\<forall>c \<in> set s. \<not> stop c \<and> c \<noteq> CHR ''('' \<and> c \<noteq> CHR '')'' \<Longrightarrow> scan_ok stop k s = Some k"
  by (induction s) auto

lemma scan_ok_name: "name_ok s \<Longrightarrow> splits_only stop \<Longrightarrow> scan_ok stop k s = Some k"
  by (rule scan_ok_flat) (auto simp: name_ok_def splits_only_def)

lemma scan_ok_nots: "splits_only stop \<Longrightarrow> scan_ok stop k (replicate n (CHR ''!'')) = Some k"
  by (rule scan_ok_flat) (auto simp: splits_only_def)

lemma scan_ok_and_join:
  "\<forall>(a, s) \<in> set ts. scan_ok stop 0 s = Some 0 \<Longrightarrow> \<not> stop CHR ''.'' \<Longrightarrow> \<not> stop CHR ''&'' \<Longrightarrow>
     scan_ok stop 0 (and_join ts) = Some 0"
proof (induction ts rule: and_join.induct)
  case (3 a s b t ts)
  then show ?case by (cases b) (simp_all add: scan_ok_append amp_sign_def)
qed auto

lemma scan_ok_join_names:
  "\<forall>s \<in> set ss. scan_ok nostop 0 s = Some 0 \<Longrightarrow> scan_ok nostop 0 (join_names CHR ''|'' ss) = Some 0"
proof (induction "CHR ''|''" ss rule: join_names.induct)
  case (3 t u ts)
  then show ?case by (simp add: scan_ok_append)
qed simp_all

lemma show_factor_ok: "wf_factor f \<Longrightarrow> splits_only stop \<Longrightarrow> scan_ok stop 0 (show_factor f) = Some 0"
proof (induction f arbitrary: stop rule: show_factor.induct)
  case (1 s)
  then show ?case by (simp add: scan_ok_name)
next
  case (2 e)
  have term_ok: "scan_ok nostop 0 (snd (show_term t)) = Some 0" if "c \<in> set e" "t \<in> set c" for c t
  proof -
    obtain a n f where t: "t = (a, n, f)" by (cases t)
    have "wf_factor f" using "2.prems"(1) that t by (auto simp: wf_exp_def list_all_iff)
    with 2 that t have "scan_ok nostop 0 (show_factor f) = Some 0" by simp
    with t show ?thesis by (simp add: show_term_def scan_ok_append scan_ok_nots)
  qed
  have "scan_ok nostop 0 (show_conj c) = Some 0" if "c \<in> set e" for c
    unfolding show_conj_def using term_ok [OF that]
    by (intro scan_ok_and_join) (auto simp: split_beta)
  then have "scan_ok nostop 0 (show_exp e) = Some 0"
    unfolding show_exp_def by (intro scan_ok_join_names) auto
  then have "scan_ok stop 1 (show_exp e) = Some 1"
    using scan_ok_inside [of 0 "show_exp e" 0 stop] by simp
  with "2.prems"(2) show ?case by (auto simp: scan_ok_append splits_only_def)
qed

lemma show_term_ok:
  "wf_factor f \<Longrightarrow> splits_only stop \<Longrightarrow> scan_ok stop 0 (snd (show_term (a, n, f))) = Some 0"
  by (simp add: show_term_def scan_ok_append scan_ok_nots show_factor_ok)

definition wf_conj :: "conj_exp \<Rightarrow> bool" where
  "wf_conj c \<longleftrightarrow> c \<noteq> [] \<and> list_all (\<lambda>(a, n, f). wf_factor f) c"

lemma wf_exp_conj: "wf_exp e \<longleftrightarrow> e \<noteq> [] \<and> list_all wf_conj e"
  by (simp add: wf_exp_def wf_conj_def [abs_def])

lemma show_conj_ok:
  "list_all (\<lambda>(a, n, f). wf_factor f) c \<Longrightarrow> \<not> stop CHR ''.'' \<Longrightarrow> \<not> stop CHR ''&'' \<Longrightarrow>
     splits_only stop \<Longrightarrow> scan_ok stop 0 (show_conj c) = Some 0"
  unfolding show_conj_def
proof (rule scan_ok_and_join)
  assume "list_all (\<lambda>(a, n, f). wf_factor f) c" and "splits_only stop"
  then have "scan_ok stop 0 (snd (show_term t)) = Some 0" if "t \<in> set c" for t
    using that by (cases t) (auto simp: list_all_iff intro!: show_term_ok)
  then show "\<forall>(a, s) \<in> set (map show_term c). scan_ok stop 0 s = Some 0"
    by (auto simp: split_beta)
qed

lemma show_exp_ok: "wf_exp e \<Longrightarrow> scan_ok nostop 0 (show_exp e) = Some 0"
  unfolding show_exp_def
  by (rule scan_ok_join_names) (auto simp: wf_exp_conj wf_conj_def list_all_iff intro!: show_conj_ok)

subsection \<open>The scans on printed text\<close>

lemma show_factor_nonempty [simp]: "wf_factor f \<Longrightarrow> show_factor f \<noteq> []"
  by (cases f) (auto simp: name_ok_def)

lemma show_factor_hd: "wf_factor f \<Longrightarrow> hd (show_factor f) \<notin> set ''!|.&)''"
  by (cases f) (auto simp: name_ok_def)

lemma show_conj_Cons:
  "show_conj ((a, n, f) # ts) = replicate n (CHR ''!'') @ show_factor f
     @ (case ts of [] \<Rightarrow> [] | (b, _) # _ \<Rightarrow> amp_sign b # show_conj ts)"
  by (cases ts) (auto simp: show_conj_def show_term_def split: prod.splits)

lemma show_conj_nonempty: "wf_conj c \<Longrightarrow> show_conj c \<noteq> []"
  by (cases c) (auto simp: wf_conj_def show_conj_Cons)

lemma show_conj_hd: "wf_conj c \<Longrightarrow> hd (show_conj c) \<notin> set ''|.&)''"
proof (cases c)
  case (Cons t ts)
  obtain a n f where t: "t = (a, n, f)" by (cases t)
  assume "wf_conj c"
  with Cons t have f: "wf_factor f" by (simp add: wf_conj_def)
  show ?thesis
    using show_factor_hd [OF f] show_factor_nonempty [OF f]
    by (cases n) (auto simp: Cons t show_conj_Cons)
qed (simp add: wf_conj_def)

lemma dropWhile_nots:
  "s \<noteq> [] \<Longrightarrow> hd s \<noteq> CHR ''!'' \<Longrightarrow> dropWhile (\<lambda>c. c = CHR ''!'') (replicate n (CHR ''!'') @ s) = s"
  "s \<noteq> [] \<Longrightarrow> hd s \<noteq> CHR ''!'' \<Longrightarrow>
     takeWhile (\<lambda>c. c = CHR ''!'') (replicate n (CHR ''!'') @ s) = replicate n (CHR ''!'')"
  by (induction n) (cases s; simp)+

lemma GetANDAtom_factor:
  assumes "wf_factor f" and "rest = [] \<or> (\<exists>a r. rest = amp_sign a # r)"
  shows "GetANDAtom (show_factor f @ rest) = show_factor f"
  using level_scan_ok [OF show_factor_ok [OF assms(1), of andsign], of rest] assms(2)
  by (auto simp: GetANDAtom_def amp_sign_def)

lemma GetORAtom_conj:
  assumes "wf_conj c" and "rest = [] \<or> (\<exists>r. rest = CHR ''|'' # r)"
  shows "GetORAtom (show_conj c @ rest) = show_conj c"
proof -
  have "scan_ok bar 0 (show_conj c) = Some 0"
    using assms(1) by (intro show_conj_ok) (simp_all add: wf_conj_def)
  from level_scan_ok [OF this, of rest] assms(2) show ?thesis
    by (auto simp: GetORAtom_def)
qed

lemma CountEvalAtoms_conj: "list_all (\<lambda>(a, n, f). wf_factor f) c \<Longrightarrow> c \<noteq> [] \<Longrightarrow>
   count_atoms 0 k (show_conj c) = Inr (k + int (length c))"
proof (induction c arbitrary: k)
  case (Cons t ts)
  obtain a n f where t: "t = (a, n, f)" by (cases t)
  have "scan_ok andsign 0 (replicate n (CHR ''!'') @ show_factor f) = Some 0"
    using Cons.prems t by (simp add: scan_ok_append scan_ok_nots show_factor_ok)
  from count_atoms_ok [OF this] have step:
    "count_atoms 0 k ((replicate n (CHR ''!'') @ show_factor f) @ r) = count_atoms 0 k r" for k r
    by simp
  show ?case
  proof (cases ts)
    case Nil
    then show ?thesis using step [of k "[]"] t by (simp add: show_conj_Cons)
  next
    case (Cons u us)
    obtain b y where u: "u = (b, y)" by (cases u)
    have "count_atoms 0 k (show_conj (t # ts)) = count_atoms 0 k (amp_sign b # show_conj ts)"
      using step [of k "amp_sign b # show_conj ts"] Cons t u by (simp add: show_conj_Cons)
    also have "\<dots> = count_atoms 0 (k + 1) (show_conj ts)" by (simp add: amp_sign_def)
    also have "\<dots> = Inr (k + 1 + int (length ts))"
      using Cons.IH Cons.prems Cons by simp
    finally show ?thesis by simp
  qed
qed simp

lemma IsBracketed_Paren: "wf_exp e \<Longrightarrow> IsBracketed (show_factor (Paren e))"
  using closes_only_at_end_ok [OF show_exp_ok, of e "[]"]
  by (simp add: IsBracketed_def butlast_append)

lemma strip_Paren: "strip_brackets (show_factor (Paren e)) = show_exp e"
  by (simp add: strip_brackets_def butlast_append)

lemma IsBracketed_Name: "name_ok s \<Longrightarrow> \<not> IsBracketed (s @ r)"
  by (cases s) (auto simp: IsBracketed_def name_ok_def)

subsection \<open>The evaluator on printed text\<close>

definition or_correct :: "class_state \<Rightarrow> item list \<Rightarrow> bool \<Rightarrow> class_exp \<Rightarrow> bool" where
  "or_correct st l fi e \<longleftrightarrow>
     (\<forall>res. eval_or st l fi (show_exp e) res = Inr (res \<or> sem_exp st l fi e))"

definition factor_correct :: "class_state \<Rightarrow> item list \<Rightarrow> bool \<Rightarrow> factor \<Rightarrow> bool" where
  "factor_correct st l fi f \<longleftrightarrow>
     wf_factor f \<and> (\<forall>e. f = Paren e \<longrightarrow> or_correct st l fi e)"

lemma eval_and_Nil [simp]: "eval_and st l fi [] cnt = Inr (cnt = 0)"
  by (subst eval_and.simps) simp

lemma eval_and_term:
  assumes f: "factor_correct st l fi f"
    and rest: "rest = [] \<and> next_terms = [] \<or>
      (\<exists>a. rest = amp_sign a # next_terms) \<and> next_terms \<noteq> [] \<and> hd next_terms \<notin> set ''.&''"
  shows "eval_and st l fi (replicate n (CHR ''!'') @ show_factor f @ rest) cnt =
     (if sem_factor st l fi (odd n) f then eval_and st l fi next_terms (cnt - 1) else Inr False)"
proof -
  have wf: "wf_factor f" using f by (simp add: factor_correct_def)
  let ?s = "show_factor f @ rest"
  have s: "?s \<noteq> []" "hd ?s \<noteq> CHR ''!''"
    using show_factor_hd [OF wf] show_factor_nonempty [OF wf] by auto
  have atom: "GetANDAtom ?s = show_factor f"
    using GetANDAtom_factor [OF wf] rest by blast
  have s2: "drop (length (show_factor f) + 1) ?s = next_terms" using rest by auto
  have s3: "(if next_terms \<noteq> [] \<and> (hd next_terms = CHR ''.'' \<or> hd next_terms = CHR ''&'')
             then tl next_terms else next_terms) = next_terms"
    using rest by auto
  have ne: "replicate n (CHR ''!'') @ ?s \<noteq> []" using s by simp
  note step = eval_and.simps [of st l fi "replicate n (CHR ''!'') @ ?s" cnt,
      unfolded Let_def dropWhile_nots [OF s] atom s2 s3]
  show ?thesis
  proof (cases f)
    case (Name a)
    then have "\<not> IsBracketed (show_factor f)" and "show_factor f = a"
      using IsBracketed_Name [of a "[]"] wf by simp_all
    with step ne Name show ?thesis by (simp only: sem_factor.simps if_False length_replicate)
  next
    case (Paren e)
    with f wf have "IsBracketed (show_factor f)" and "strip_brackets (show_factor f) = show_exp e"
      and "eval_or st l fi (show_exp e) False = Inr (sem_exp st l fi e)"
      using IsBracketed_Paren strip_Paren by (auto simp: factor_correct_def or_correct_def)
    with step ne Paren show ?thesis
      by (simp only: if_True if_False length_replicate bind_outcome_simps sem_factor_Paren)
        (simp split: if_splits)
  qed
qed

lemma eval_and_conj:
  "list_all (\<lambda>(a, n, f). factor_correct st l fi f) c \<Longrightarrow>
     eval_and st l fi (show_conj c) (int (length c)) = Inr (sem_conj st l fi c)"
proof (induction c)
  case Nil
  then show ?case by (simp add: show_conj_def sem_conj_def)
next
  case (Cons t ts)
  obtain a n f where t: "t = (a, n, f)" by (cases t)
  from Cons.prems t have f: "factor_correct st l fi f" by simp
  let ?rest = "case ts of [] \<Rightarrow> [] | (b, _) # _ \<Rightarrow> amp_sign b # show_conj ts"
  have wf: "ts \<noteq> [] \<Longrightarrow> wf_conj ts"
    using Cons.prems by (auto simp: wf_conj_def list_all_iff factor_correct_def)
  have rest: "?rest = [] \<and> show_conj ts = [] \<or>
      (\<exists>a. ?rest = amp_sign a # show_conj ts) \<and> show_conj ts \<noteq> [] \<and> hd (show_conj ts) \<notin> set ''.&''"
    using show_conj_nonempty [OF wf] show_conj_hd [OF wf]
    by (cases ts) (auto simp: show_conj_def split: prod.splits)
  have "show_conj (t # ts) = replicate n (CHR ''!'') @ show_factor f @ ?rest"
    by (simp only: t show_conj_Cons)
  with eval_and_term [OF f rest] Cons.IH Cons.prems t show ?case
    by (simp add: sem_conj_def)
qed

lemma IsBracketed_conj:
  assumes "wf_conj c" and "IsBracketed (show_conj c)"
  obtains a e where "c = [(a, 0, Paren e)]"
proof -
  obtain a n f ts where c: "c = (a, n, f) # ts" using assms(1) by (cases c) (auto simp: wf_conj_def)
  let ?rest = "case ts of [] \<Rightarrow> [] | (b, _) # _ \<Rightarrow> amp_sign b # show_conj ts"
  have shown: "show_conj c = replicate n (CHR ''!'') @ show_factor f @ ?rest"
    by (simp only: c show_conj_Cons)
  have n: "n = 0" using assms(2) shown by (cases n) (auto simp: IsBracketed_def)
  have wf: "wf_factor f" using assms(1) c by (simp add: wf_conj_def)
  obtain e where f: "f = Paren e"
    using IsBracketed_Name assms(2) shown n wf by (cases f) auto
  have "ts = []"
  proof (rule ccontr)
    assume "ts \<noteq> []"
    then obtain b r where r: "?rest = amp_sign b # r" by (cases ts) auto
    have "butlast (show_exp e @ CHR '')'' # amp_sign b # r)
        = show_exp e @ CHR '')'' # butlast (amp_sign b # r)"
      by (simp add: butlast_append)
    then have "closes_only_at_end 1 (show_exp e @ CHR '')'' # butlast (amp_sign b # r))"
      using assms(2) shown n f r by (simp add: IsBracketed_def)
    with closes_only_at_end_ok [OF show_exp_ok, of e] wf f show False by simp
  qed
  with that c n f show ?thesis by blast
qed

lemma eval_or_exp:
  assumes "e \<noteq> []"
    and "list_all (\<lambda>c. c \<noteq> [] \<and> list_all (\<lambda>(a, n, f). factor_correct st l fi f) c) e"
    and "length (show_exp e) < CF_BUFSIZE - 1"
  shows "eval_or st l fi (show_exp e) res = Inr (res \<or> sem_exp st l fi e)"
  using assms
proof (induction e arbitrary: res)
  case (Cons c cs)
  let ?rest = "if cs = [] then [] else CHR ''|'' # show_exp cs"
  have c: "wf_conj c" and fc: "list_all (\<lambda>(a, n, f). factor_correct st l fi f) c"
    using Cons.prems(2) by (auto simp: wf_conj_def list_all_iff factor_correct_def)
  have printed: "show_exp (c # cs) = show_conj c @ ?rest"
    by (cases cs) (simp_all add: show_exp_def)
  have s: "show_exp (c # cs) \<noteq> []" "hd (show_exp (c # cs)) \<noteq> CHR ''|''"
    using show_conj_nonempty [OF c] show_conj_hd [OF c] by (auto simp: printed)
  then have dw: "dropWhile (\<lambda>c. c = CHR ''|'') (show_exp (c # cs)) = show_exp (c # cs)"
    by (cases "show_exp (c # cs)") simp_all
  have atom: "GetORAtom (show_exp (c # cs)) = show_conj c"
    using GetORAtom_conj [OF c] by (simp add: printed)
  have s2: "drop (length (show_conj c)) (show_exp (c # cs)) = ?rest" by (simp add: printed)
  have val: "(if IsBracketed (show_conj c) then eval_or st l fi (strip_brackets (show_conj c)) False
       else bind_outcome (CountEvalAtoms (show_conj c)) (\<lambda>count. eval_and st l fi (show_conj c) count))
     = Inr (sem_conj st l fi c)"
  proof (cases "IsBracketed (show_conj c)")
    case True
    then obtain a e where ce: "c = [(a, 0, Paren e)]" using IsBracketed_conj [OF c] by blast
    then have "show_conj c = show_factor (Paren e)" by (simp add: show_conj_def show_term_def)
    with True fc ce strip_Paren [of e] show ?thesis
      by (simp add: sem_conj_def factor_correct_def or_correct_def)
  next
    case False
    have "list_all (\<lambda>(a, n, f). wf_factor f) c" "c \<noteq> []" using c by (simp_all add: wf_conj_def)
    then have "CountEvalAtoms (show_conj c) = Inr (int (length c))"
      using CountEvalAtoms_conj [of c 0] by (simp add: CountEvalAtoms_def)
    with False eval_and_conj [OF fc] show ?thesis by simp
  qed
  have len: "\<not> CF_BUFSIZE - 1 \<le> length (show_conj c)" and "length (show_conj c) \<noteq> 0"
    using Cons.prems(3) show_conj_nonempty [OF c] by (auto simp: printed split: if_splits)
  then have "eval_or st l fi (show_exp (c # cs)) res =
      (if ?rest = [] then Inr (res \<or> sem_conj st l fi c)
       else eval_or st l fi (tl ?rest) (res \<or> sem_conj st l fi c))"
    using s by (subst eval_or.simps)
      (simp only: Let_def dw atom s2 val if_False bind_outcome_simps)
  moreover have "cs \<noteq> [] \<Longrightarrow> eval_or st l fi (show_exp cs) (res \<or> sem_conj st l fi c)
      = Inr ((res \<or> sem_conj st l fi c) \<or> sem_exp st l fi cs)"
    using Cons.prems by (intro Cons.IH) (auto simp: printed)
  ultimately show ?case by (cases "cs = []") (simp_all add: sem_exp_def)
qed simp

lemma length_join_names: "s \<in> set ss \<Longrightarrow> length s \<le> length (join_names sep ss)"
  by (induction sep ss rule: join_names.induct) auto

lemma length_and_join: "(a, s) \<in> set ts \<Longrightarrow> length s \<le> length (and_join ts)"
  by (induction ts rule: and_join.induct) auto

lemma length_show_factor:
  assumes "c \<in> set e" and "(a, n, f) \<in> set c"
  shows "length (show_factor f) \<le> length (show_exp e)"
proof -
  have "(a, replicate n (CHR ''!'') @ show_factor f) \<in> set (map show_term c)"
    using assms(2) by (force simp: show_term_def)
  from length_and_join [OF this] have "length (show_factor f) \<le> length (show_conj c)"
    by (simp add: show_conj_def)
  also have "\<dots> \<le> length (show_exp e)"
    unfolding show_exp_def using assms(1) by (intro length_join_names) simp
  finally show ?thesis .
qed

lemma factor_correct_all:
  "wf_factor f \<Longrightarrow> length (show_factor f) \<le> CF_BUFSIZE \<Longrightarrow> factor_correct st l fi f"
proof (induction f rule: show_factor.induct)
  case (1 s)
  then show ?case by (simp add: factor_correct_def)
next
  case (2 e)
  have wf: "wf_exp e" and len: "length (show_exp e) < CF_BUFSIZE - 1"
    using "2.prems" by (simp_all add: CF_BUFSIZE_def)
  have "factor_correct st l fi f" if "c \<in> set e" "(a, n, f) \<in> set c" for a n f c
  proof -
    have "wf_factor f" using wf that by (auto simp: wf_exp_def list_all_iff)
    moreover have "length (show_factor f) \<le> CF_BUFSIZE"
      using length_show_factor [OF that] len by simp
    ultimately show ?thesis using "2.IH" that by blast
  qed
  then have "list_all (\<lambda>c. c \<noteq> [] \<and> list_all (\<lambda>(a, n, f). factor_correct st l fi f) c) e"
    using wf by (auto simp: wf_exp_def list_all_iff)
  with wf len have "or_correct st l fi e"
    unfolding or_correct_def by (auto simp: wf_exp_def intro!: eval_or_exp)
  with wf show ?case by (simp add: factor_correct_def)
qed

lemma eval_or_refines:
  assumes "wf_exp e" and "length (show_exp e) < CF_BUFSIZE - 1"
  shows "eval_or st l fi (show_exp e) False = Inr (sem_exp st l fi e)"
  using factor_correct_all [of "Paren e" st l fi] assms
  by (simp add: factor_correct_def or_correct_def)

lemma IsDefinedClass_refines:
  assumes "wf_exp e" and "length (show_exp e) < CF_BUFSIZE - 1" and "\<not> CfShow st"
  shows "IsDefinedClass st (Some (show_exp e)) = Inr (sem_exp st (VADDCLASSES st) False e)"
  using assms by (simp add: IsDefinedClass_def EvaluateORString_def eval_or_refines)

subsection \<open>Installable classes\<close>

text \<open>The text without its negation signs is the text of the expression without them.\<close>

fun drop_nots :: "factor \<Rightarrow> factor" where
  "drop_nots (Name s) = Name s"
| "drop_nots (Paren e) = Paren (map (map (\<lambda>(a, n, f). (a, 0, drop_nots f))) e)"

definition drop_nots_exp :: "class_exp \<Rightarrow> class_exp" where
  "drop_nots_exp e = map (map (\<lambda>(a, n, f). (a, 0, drop_nots f))) e"

abbreviation not_bang :: "char \<Rightarrow> bool" where "not_bang \<equiv> \<lambda>c. c \<noteq> CHR ''!''"

lemma filter_join_names:
  "sep \<noteq> CHR ''!'' \<Longrightarrow> filter not_bang (join_names sep ss) = join_names sep (map (filter not_bang) ss)"
  by (induction sep ss rule: join_names.induct) auto

lemma filter_and_join:
  "filter not_bang (and_join ts) = and_join (map (\<lambda>(a, s). (a, filter not_bang s)) ts)"
  by (induction ts rule: and_join.induct) (auto simp: amp_sign_def)

lemma filter_show_exp:
  assumes "\<And>c a n f. c \<in> set e \<Longrightarrow> (a, n, f) \<in> set c \<Longrightarrow>
     filter not_bang (show_factor f) = show_factor (drop_nots f)"
  shows "filter not_bang (show_exp e) = show_exp (drop_nots_exp e)"
proof -
  have "filter not_bang (show_conj c) = show_conj (map (\<lambda>(a, n, f). (a, 0, drop_nots f)) c)"
    if "c \<in> set e" for c
    using assms [OF that]
    by (auto simp: show_conj_def filter_and_join show_term_def split_beta intro!: arg_cong [of _ _ and_join])
  then show ?thesis
    by (auto simp: show_exp_def drop_nots_exp_def filter_join_names intro!: arg_cong [of _ _ "join_names CHR ''|''"])
qed

lemma filter_show_factor:
  "wf_factor f \<Longrightarrow> filter not_bang (show_factor f) = show_factor (drop_nots f)"
proof (induction f rule: show_factor.induct)
  case (1 s)
  then show ?case by (auto simp: name_ok_def intro!: filter_True)
next
  case (2 e)
  have "filter not_bang (show_exp e) = show_exp (drop_nots_exp e)"
  proof (rule filter_show_exp)
    fix c a n f
    assume "c \<in> set e" and "(a, n, f) \<in> set c"
    moreover from this have "wf_factor f"
      using "2.prems" by (auto simp: wf_exp_def list_all_iff)
    ultimately show "filter not_bang (show_factor f) = show_factor (drop_nots f)"
      using "2.IH" by blast
  qed
  then show ?case by (simp add: drop_nots_exp_def)
qed

lemma wf_drop_nots: "wf_factor f \<Longrightarrow> wf_factor (drop_nots f)"
proof (induction f rule: drop_nots.induct)
  case (2 e)
  then show ?case by (fastforce simp: wf_exp_def list_all_iff split: prod.splits)
qed simp

lemma wf_drop_nots_exp: "wf_exp e \<Longrightarrow> wf_exp (drop_nots_exp e)"
  using wf_drop_nots [of "Paren e"] by (simp add: drop_nots_exp_def)

lemma IsInstallable_total:
  assumes "wf_exp e" and "length (show_exp e) < CF_BUFSIZE - 1" and "\<not> CfShow st"
  shows "IsInstallable st (show_exp e) = Inr (sem_exp st (VALLADDCLASSES st) False (drop_nots_exp e)
     \<or> sem_exp st (VALLADDCLASSES st) True e \<or> sem_exp st (VADDCLASSES st) False e)"
proof -
  have f: "filter not_bang (show_exp e) = show_exp (drop_nots_exp e)"
    using assms(1) by (intro filter_show_exp filter_show_factor) (auto simp: wf_exp_def list_all_iff)
  moreover have "length (filter not_bang (show_exp e)) < CF_BUFSIZE - 1"
    using assms(2) by (metis length_filter_le order.strict_trans1)
  ultimately show ?thesis
    using assms by (simp add: IsInstallable_def EvaluateORString_def or_else_def eval_or_refines
        wf_drop_nots_exp)
qed

subsection \<open>Properties\<close>

text \<open>
  C8. The evaluator of class expressions is correct: run on the text of any well-formed expression
  that fits its buffer, it ends without error and returns the meaning of the expression, a
  disjunction of conjunctions of possibly negated classes, over the negated heap, the heap and the
  given list.
\<close>

theorem EvaluateORString_correct:
  assumes "wf_exp e" and "length (show_exp e) < CF_BUFSIZE - 1"
  shows "EvaluateORString st (Some (show_exp e)) l fi = Inr (sem_exp st l fi e)"
  using assms by (simp add: EvaluateORString_def eval_or_refines)

theorem EvaluateORString_correct_witness:
  "EvaluateORString \<lparr>VHEAP = [mk_item ''linux'' None], VNEGHEAP = [], VADDCLASSES = [],
       VALLADDCLASSES = [], ABORTHEAP = [], CONTEXTID = ''global'', INSTALLALL = False,
       CONTROL_ACTION = False, PARSING = False, VIFELAPSED = 1, VEXPIREAFTER = 1\<rparr>
     (Some ''linux.!(sun4|hpux)'') [] False = Inr True"
proof -
  let ?e = "[[(False, 0, Name ''linux''),
              (False, 1, Paren [[(False, 0, Name ''sun4'')], [(False, 0, Name ''hpux'')]])]]"
  have "show_exp ?e = ''linux.!(sun4|hpux)''"
    by (simp add: show_exp_def show_conj_def show_term_def amp_sign_def)
  then show ?thesis
    using EvaluateORString_correct [of ?e]
    by (simp add: wf_exp_def name_ok_def CF_BUFSIZE_def sem_exp_def sem_conj_def atom_holds_def
        IsItemIn_def)
qed

text \<open>
  C26. A class expression that is true now is installable: \<open>IsInstallable\<close> never excludes at parse
  time an action whose classes are defined.
\<close>

theorem IsDefinedClass_IsInstallable:
  assumes "wf_exp e" and "length (show_exp e) < CF_BUFSIZE - 1"
    and "IsDefinedClass st (Some (show_exp e)) = Inr True"
  shows "IsInstallable st (show_exp e) = Inr True"
proof (cases "CfShow st")
  case True
  then show ?thesis by (simp add: IsInstallable_def)
next
  case False
  with assms show ?thesis by (simp add: IsInstallable_total IsDefinedClass_refines)
qed

theorem IsDefinedClass_IsInstallable_witness:
  "IsInstallable \<lparr>VHEAP = [mk_item ''linux'' None], VNEGHEAP = [], VADDCLASSES = [],
       VALLADDCLASSES = [], ABORTHEAP = [], CONTEXTID = ''global'', INSTALLALL = False,
       CONTROL_ACTION = False, PARSING = False, VIFELAPSED = 1, VEXPIREAFTER = 1\<rparr>
     (show_exp [[(False, 0, Name ''linux'')]]) = Inr True"
proof (rule IsDefinedClass_IsInstallable)
  let ?e = "[[(False, 0, Name ''linux'')]]"
  show "wf_exp ?e" by (simp add: wf_exp_def name_ok_def)
  show len: "length (show_exp ?e) < CF_BUFSIZE - 1"
    by (simp add: show_exp_def show_conj_def show_term_def CF_BUFSIZE_def)
  show "IsDefinedClass \<lparr>VHEAP = [mk_item ''linux'' None], VNEGHEAP = [], VADDCLASSES = [],
       VALLADDCLASSES = [], ABORTHEAP = [], CONTEXTID = ''global'', INSTALLALL = False,
       CONTROL_ACTION = False, PARSING = False, VIFELAPSED = 1, VEXPIREAFTER = 1\<rparr>
     (Some (show_exp ?e)) = Inr True"
    using len by (subst IsDefinedClass_refines)
      (simp_all add: wf_exp_def name_ok_def sem_exp_def sem_conj_def atom_holds_def IsItemIn_def
        CfShow_def)
qed

end
