(* ===== verification/Macros.thy ===== *)
theory Macros
  imports ItemEdit Filenames "HOL-Library.Word"
begin

unbundle bit_operations_syntax

text \<open>
  macro.c: the variables of a scope. Every scope is an object with its own open-addressing hash
  table of 4969 cells; a cell holds the text \<open>name=value\<close>. The probing loops of the C functions do
  not end for some names, so they take fuel, and \<open>None\<close> is running out of it; the lemmas show
  which names need how much and for which names no amount is enough.

  The locale \<open>variable_store\<close> is the contract the readers of variables rely on. It is interpreted on
  the cells of one scope.
\<close>

subsection \<open>Cells\<close>

definition CF_HASHTABLESIZE :: nat where "CF_HASHTABLESIZE = 4969"
definition CF_MACROALPHABET :: int where "CF_MACROALPHABET = 61"

type_synonym hashtable = "nat \<Rightarrow> string option"

text \<open>A plain \<open>char\<close> is signed, and the remainder of C has the sign of the dividend.\<close>

definition signed_char :: "char \<Rightarrow> int" where
  "signed_char c = (let n = int (of_char c :: nat) in if n < 128 then n else n - 256)"

definition c_rem :: "int \<Rightarrow> int \<Rightarrow> int" where
  "c_rem a b = (if a < 0 then - ((- a) mod b) else a mod b)"

definition Hash :: "string \<Rightarrow> int" where
  "Hash name = foldl (\<lambda>slot c. c_rem (CF_MACROALPHABET * slot + signed_char c) (int CF_HASHTABLESIZE)) 0 name"

text \<open>\<open>ElfHash\<close> works on 32 bits; a character is sign extended before it is added.\<close>

definition elf_step :: "32 word \<Rightarrow> char \<Rightarrow> 32 word" where
  "elf_step h c =
     (let h1 = push_bit 4 h + word_of_int (signed_char c);
          g = h1 AND 0xF0000000;
          h2 = (if g \<noteq> 0 then h1 XOR drop_bit 24 g else h1) in
      h2 AND NOT g)"

definition ElfHash :: "string \<Rightarrow> nat" where
  "ElfHash key = unat (foldl elf_step 0 key) mod CF_HASHTABLESIZE"

text \<open>\<open>CompareMacro\<close> reads the name of a cell into a buffer that stays unset for an empty name.\<close>

definition CompareMacro :: "string option \<Rightarrow> string option \<Rightarrow> int outcome" where
  "CompareMacro name macro = (case (macro, name) of
       (Some m, Some n) \<Rightarrow>
         (let buffer = scan_not ''='' m in
          if buffer = [] then Inl (Undefined ''CompareMacro: buffer not set'')
          else Inr (strcmp buffer n))
     | _ \<Rightarrow> Inr 1)"

definition cell_value :: "string option \<Rightarrow> string outcome" where
  "cell_value cell = (case cell of
       None \<Rightarrow> Inl (Undefined ''NULL cell'')
     | Some m \<Rightarrow> if CHR ''='' \<in> set m then Inr (tl (dropWhile (\<lambda>c. c \<noteq> CHR ''='') m))
                 else Inl (Undefined ''cell without value''))"

definition InitHashTable :: hashtable where
  "InitHashTable = (\<lambda>_. None)"

subsection \<open>Storing\<close>

text \<open>
  The loop of \<open>AddMacroValue\<close> from the cell before the next one it looks at. The index is reduced
  for the test for an empty cell but not for the store, and after the last cell the loop goes on
  with the first without testing that it is empty.
\<close>

fun store_probe :: "nat \<Rightarrow> hashtable \<Rightarrow> string \<Rightarrow> string \<Rightarrow> nat \<Rightarrow> nat \<Rightarrow> hashtable outcome option" where
  "store_probe 0 tab name sp h slot = None"
| "store_probe (Suc fuel) tab name sp h slot =
     (let slot1 = slot + 1 in
      if tab (slot1 mod CF_HASHTABLESIZE) = None then
        Some (if slot1 < CF_HASHTABLESIZE then Inr (tab(slot1 := Some sp))
              else Inl (Undefined ''AddMacroValue: store behind the table''))
      else (let slot2 = (if slot1 = CF_HASHTABLESIZE - 1 then 0 else slot1) in
        if slot2 = h then Some (Inl (FatalErr ''AddMacroValue - internal error #1''))
        else if CF_HASHTABLESIZE \<le> slot2 then
          Some (Inl (Undefined ''AddMacroValue: read behind the table''))
        else (case CompareMacro (Some name) (tab slot2) of
            Inl e \<Rightarrow> Some (Inl e)
          | Inr r \<Rightarrow> if r = 0 then Some (Inr (tab(slot2 := Some sp)))
                     else store_probe fuel tab name sp h slot2)))"

definition store_macro :: "nat \<Rightarrow> hashtable \<Rightarrow> string \<Rightarrow> string \<Rightarrow> hashtable outcome option" where
  "store_macro fuel tab name exp =
     (let sp = take (CF_BUFSIZE - 1) (name @ CHR ''='' # exp); hash = Hash name; h = nat hash in
      if hash < 0 then Some (Inl (Undefined ''AddMacroValue: negative slot''))
      else if tab h = None then Some (Inr (tab(h := Some sp)))
      else (case CompareMacro (Some name) (tab h) of
          Inl e \<Rightarrow> Some (Inl e)
        | Inr r \<Rightarrow> if r = 0 then Some (Inr (tab(h := Some sp)))
                   else store_probe fuel tab name sp h h))"

subsection \<open>Looking up\<close>

text \<open>\<open>Inr None\<close> is the end of the search; the last cell is only looked at when it is the hash.\<close>

definition next_cell :: "nat \<Rightarrow> nat" where
  "next_cell i = (if CF_HASHTABLESIZE - 1 \<le> i + 1 then 0 else i + 1)"

fun get_probe :: "nat \<Rightarrow> hashtable \<Rightarrow> string \<Rightarrow> nat \<Rightarrow> nat \<Rightarrow> nat option outcome option" where
  "get_probe 0 tab vname slot i = None"
| "get_probe (Suc fuel) tab vname slot i =
     (let i' = next_cell i in
      case CompareMacro (Some vname) (tab i') of
        Inl e \<Rightarrow> Some (Inl e)
      | Inr r \<Rightarrow> if r = 0 then Some (Inr (Some i'))
                 else if int i' = int slot - 1 then Some (Inr None)
                 else get_probe fuel tab vname slot i')"

definition find_cell :: "nat \<Rightarrow> hashtable \<Rightarrow> string \<Rightarrow> nat option outcome option" where
  "find_cell fuel tab vname =
     (let hash = Hash vname; slot = nat hash in
      if hash < 0 then Some (Inl (Undefined ''GetMacroValue: negative slot''))
      else (case CompareMacro (Some vname) (tab slot) of
          Inl e \<Rightarrow> Some (Inl e)
        | Inr r \<Rightarrow> if r = 0 then Some (Inr (Some slot)) else get_probe fuel tab vname slot slot))"

definition get_macro :: "(string \<Rightarrow> string option) \<Rightarrow> nat \<Rightarrow> hashtable \<Rightarrow> string \<Rightarrow> string option outcome option" where
  "get_macro getenv fuel tab vname = (case find_cell fuel tab vname of
       None \<Rightarrow> None
     | Some r \<Rightarrow> Some (bind_outcome r (\<lambda>cell. case cell of
           None \<Rightarrow> Inr (getenv vname)
         | Some i \<Rightarrow> bind_outcome (cell_value (tab i)) (\<lambda>v. Inr (Some v)))))"

subsection \<open>Deleting\<close>

fun delete_probe :: "nat \<Rightarrow> hashtable \<Rightarrow> string \<Rightarrow> nat \<Rightarrow> nat \<Rightarrow> hashtable outcome option" where
  "delete_probe 0 tab vname slot i = None"
| "delete_probe (Suc fuel) tab vname slot i =
     (if i + 1 = slot then Some (Inr tab)
      else (let i' = next_cell i in
        case CompareMacro (Some vname) (tab i') of
          Inl e \<Rightarrow> Some (Inl e)
        | Inr r \<Rightarrow> delete_probe fuel (if r = 0 then tab(i' := None) else tab) vname slot i'))"

definition delete_cell :: "nat \<Rightarrow> hashtable \<Rightarrow> string \<Rightarrow> hashtable outcome option" where
  "delete_cell fuel tab vname =
     (let hash = Hash vname; slot = nat hash in
      if hash < 0 then Some (Inl (Undefined ''DeleteMacro: negative slot''))
      else (case CompareMacro (Some vname) (tab slot) of
          Inl e \<Rightarrow> Some (Inl e)
        | Inr r \<Rightarrow> if r = 0 then Some (Inr (tab(slot := None)))
                   else delete_probe fuel tab vname slot slot))"

subsection \<open>Scopes\<close>

record cfObject =
  scope :: string
  table :: hashtable

record macro_state =
  VOBJ :: "cfObject list"
  CONTEXT :: string

definition ObjectContext :: "macro_state \<Rightarrow> string \<Rightarrow> cfObject option" where
  "ObjectContext st s = List.find (\<lambda>cp. scope cp = s) (VOBJ st)"

fun put_table :: "cfObject list \<Rightarrow> string \<Rightarrow> hashtable \<Rightarrow> cfObject list" where
  "put_table [] s tab = []"
| "put_table (cp # cps) s tab =
     (if scope cp = s then cp\<lparr>table := tab\<rparr> # cps else cp # put_table cps s tab)"

definition InstallObject :: "macro_state \<Rightarrow> string \<Rightarrow> macro_state" where
  "InstallObject st name =
     (if list_ex (\<lambda>ptr. scope ptr = name) (VOBJ st) then st
      else st\<lparr>VOBJ := VOBJ st @ [\<lparr>scope = name, table = InitHashTable\<rparr>]\<rparr>)"

definition SetContext :: "macro_state \<Rightarrow> string \<Rightarrow> macro_state" where
  "SetContext st ident = (InstallObject st ident)\<lparr>CONTEXT := take 31 ident\<rparr>"

definition ScopeIsMethod :: "macro_state \<Rightarrow> bool" where
  "ScopeIsMethod st = (CONTEXT st = ''private-method'')"

definition BlankHashTable :: "macro_state \<Rightarrow> string \<Rightarrow> macro_state" where
  "BlankHashTable st s =
     st\<lparr>VOBJ := map (\<lambda>ptr. if scope ptr = s then ptr\<lparr>table := InitHashTable\<rparr> else ptr) (VOBJ st)\<rparr>"

definition DeleteMacros :: "macro_state \<Rightarrow> string \<Rightarrow> macro_state outcome" where
  "DeleteMacros st s = (case ObjectContext st s of
       None \<Rightarrow> Inl (Undefined ''DeleteMacros: no such scope'')
     | Some _ \<Rightarrow> Inr (st\<lparr>VOBJ := put_table (VOBJ st) s InitHashTable\<rparr>))"

definition DeleteMacro :: "nat \<Rightarrow> macro_state \<Rightarrow> string \<Rightarrow> string \<Rightarrow> macro_state outcome option" where
  "DeleteMacro fuel st s ident = (case ObjectContext st s of
       None \<Rightarrow> Some (Inl (Undefined ''DeleteMacro: no such scope''))
     | Some ptr \<Rightarrow> (case delete_cell fuel (table ptr) ident of
           None \<Rightarrow> None
         | Some r \<Rightarrow> Some (bind_outcome r (\<lambda>tab. Inr (st\<lparr>VOBJ := put_table (VOBJ st) s tab\<rparr>)))))"

text \<open>
  A name with a dot is looked up in the scope before the dot if there is one of that name. The
  buffers hold 1023 bytes; the second one stays unset when nothing follows the dot.
\<close>

definition scope_and_name :: "macro_state \<Rightarrow> string \<Rightarrow> string \<Rightarrow> (cfObject \<times> string) outcome" where
  "scope_and_name st s name =
     (let local = (if CF_MAXVARSIZE \<le> length name then Inl (Undefined ''GetMacroValue: vname'')
                   else (case ObjectContext st s of
                       None \<Rightarrow> Inl (Undefined ''GetMacroValue: no such scope'')
                     | Some ptr \<Rightarrow> Inr (ptr, name))) in
      if strstr name ''.'' then
        (let objscope = scan_not ''.'' name;
             rest = dropWhile isspace (drop (length objscope + 1) name);
             vname = takeWhile (\<lambda>c. \<not> isspace c) rest in
         if CF_MAXVARSIZE \<le> length objscope then Inl (Undefined ''GetMacroValue: objscope'')
         else if objscope \<noteq> [] \<and> CF_MAXVARSIZE \<le> length vname then
           Inl (Undefined ''GetMacroValue: vname'')
         else (case ObjectContext st objscope of
             None \<Rightarrow> local
           | Some ptr \<Rightarrow>
               if objscope = [] \<or> vname = [] then Inl (Undefined ''GetMacroValue: vname not set'')
               else Inr (ptr, vname)))
      else local)"

definition GetMacroValue :: "(string \<Rightarrow> string option) \<Rightarrow> nat \<Rightarrow> macro_state \<Rightarrow> string \<Rightarrow> string
    \<Rightarrow> string option outcome option" where
  "GetMacroValue getenv fuel st s name = (case scope_and_name st s name of
       Inl e \<Rightarrow> Some (Inl e)
     | Inr (ptr, vname) \<Rightarrow> get_macro getenv fuel (table ptr) vname)"

definition OptionIs :: "(string \<Rightarrow> string option) \<Rightarrow> nat \<Rightarrow> macro_state \<Rightarrow> string \<Rightarrow> string \<Rightarrow> bool
    \<Rightarrow> bool outcome option" where
  "OptionIs getenv fuel st s name on = (case GetMacroValue getenv fuel st s name of
       None \<Rightarrow> None
     | Some r \<Rightarrow> Some (bind_outcome r (\<lambda>result. case result of
           None \<Rightarrow> Inr False
         | Some v \<Rightarrow> Inr (if on then v = ''on'' \<or> v = ''true'' else v = ''off'' \<or> v = ''false''))))"

subsection \<open>What a cell holds\<close>

definition holds :: "hashtable \<Rightarrow> string \<Rightarrow> nat \<Rightarrow> bool" where
  "holds tab name i \<longleftrightarrow> (\<exists>e. tab i = Some e \<and> scan_not ''='' e = name)"

definition wf_table :: "hashtable \<Rightarrow> bool" where
  "wf_table tab \<longleftrightarrow> (\<forall>i e. tab i = Some e \<longrightarrow> scan_not ''='' e \<noteq> [] \<and> CHR ''='' \<in> set e)"

definition var_name :: "string \<Rightarrow> bool" where
  "var_name name \<longleftrightarrow> name \<noteq> [] \<and> CHR ''='' \<notin> set name \<and> length name \<le> CF_MAXVARSIZE"

lemma CompareMacro_holds:
  "wf_table tab \<Longrightarrow> \<exists>r. CompareMacro (Some name) (tab i) = Inr r \<and> (r = 0 \<longleftrightarrow> holds tab name i)"
  by (cases "tab i") (auto simp: CompareMacro_def wf_table_def holds_def)

lemma CompareMacroE:
  assumes "wf_table tab"
  obtains r where "CompareMacro (Some name) (tab i) = Inr r" and "r = 0 \<longleftrightarrow> holds tab name i"
  using CompareMacro_holds [OF assms] by blast

lemma holds_upd: "holds (tab(j := Some e)) name i =
   (if i = j then scan_not ''='' e = name else holds tab name i)"
  by (simp add: holds_def)

lemma holds_empty: "tab j = None \<Longrightarrow> \<not> holds tab name j"
  by (simp add: holds_def)

lemma holds_fun: "holds tab name i \<Longrightarrow> holds tab other i \<Longrightarrow> name = other"
  by (auto simp: holds_def)

text \<open>The text of a new cell, and its name and value.\<close>

definition cell_text :: "string \<Rightarrow> string \<Rightarrow> string" where
  "cell_text name exp = take (CF_BUFSIZE - 1) (name @ CHR ''='' # exp)"

lemma cell_text_name: "var_name name \<Longrightarrow> scan_not ''='' (cell_text name exp) = name"
  by (auto simp: var_name_def cell_text_def CF_BUFSIZE_def CF_MAXVARSIZE_def take_Cons' intro!: scan_not_append)

lemma cell_text_eq:
  "var_name name \<Longrightarrow>
     cell_text name exp = name @ CHR ''='' # take (CF_BUFSIZE - 2 - length name) exp"
  by (auto simp: var_name_def cell_text_def CF_BUFSIZE_def CF_MAXVARSIZE_def take_Cons' diff_diff_left)

lemma cell_text_wf: "var_name name \<Longrightarrow> wf_table tab \<Longrightarrow> wf_table (tab(j := Some (cell_text name exp)))"
  using cell_text_name [of name exp] cell_text_eq [of name exp]
  by (auto simp: wf_table_def var_name_def)

lemma cell_text_value:
  assumes "var_name name"
  shows "cell_value (Some (cell_text name exp)) = Inr (take (CF_BUFSIZE - 2 - length name) exp)"
proof -
  note t = cell_text_eq [OF assms, of exp]
  have "dropWhile (\<lambda>c. c \<noteq> CHR ''='') (cell_text name exp)
      = CHR ''='' # take (CF_BUFSIZE - 2 - length name) exp"
    using assms unfolding t var_name_def by (subst dropWhile_append2) auto
  with t show ?thesis by (simp add: cell_value_def)
qed

lemma InitHashTable_wf [simp]: "wf_table InitHashTable"
  by (simp add: wf_table_def InitHashTable_def)

subsection \<open>The probing loops\<close>

lemma next_cell_less: "next_cell i < CF_HASHTABLESIZE - 1"
  by (simp add: next_cell_def CF_HASHTABLESIZE_def)

lemma next_cell_store:
  "i < CF_HASHTABLESIZE - 1 \<Longrightarrow> next_cell i = (if i + 1 = CF_HASHTABLESIZE - 1 then 0 else i + 1)"
  by (auto simp: next_cell_def)

text \<open>The number of cells the loops still look at from cell \<open>i\<close> on, for the start \<open>h\<close>.\<close>

definition to_go :: "nat \<Rightarrow> nat \<Rightarrow> nat" where
  "to_go h i = (if h \<le> i then CF_HASHTABLESIZE - i + h else h - i)"

lemma to_go_step:
  "h < CF_HASHTABLESIZE \<Longrightarrow> i < CF_HASHTABLESIZE \<Longrightarrow> next_cell i \<noteq> h \<Longrightarrow> Suc i \<noteq> h \<Longrightarrow>
     to_go h (next_cell i) < to_go h i"
  by (auto simp: to_go_def next_cell_def split: if_splits)

lemma to_go_start [simp]: "h < CF_HASHTABLESIZE \<Longrightarrow> to_go h h = CF_HASHTABLESIZE"
  by (simp add: to_go_def)

lemma to_go_pos: "i < CF_HASHTABLESIZE \<Longrightarrow> 0 < to_go h i"
  by (simp add: to_go_def)

lemma next_cell_bound: "next_cell i < CF_HASHTABLESIZE"
  using next_cell_less [of i] by simp

lemma get_probe_step:
  assumes "wf_table tab"
  shows "get_probe (Suc fuel) tab name h i =
    (if holds tab name (next_cell i) then Some (Inr (Some (next_cell i)))
     else if Suc (next_cell i) = h then Some (Inr None)
     else get_probe fuel tab name h (next_cell i))"
proof -
  obtain r where "CompareMacro (Some name) (tab (next_cell i)) = Inr r"
    and "r = 0 \<longleftrightarrow> holds tab name (next_cell i)"
    using CompareMacroE [OF assms] by blast
  then show ?thesis by auto
qed

lemma store_probe_step:
  assumes "wf_table tab" and "i < CF_HASHTABLESIZE - 1"
  shows "store_probe (Suc fuel) tab name sp h i =
    (if tab (i + 1) = None then Some (Inr (tab(i + 1 := Some sp)))
     else if next_cell i = h then Some (Inl (FatalErr ''AddMacroValue - internal error #1''))
     else if holds tab name (next_cell i) then Some (Inr (tab(next_cell i := Some sp)))
     else store_probe fuel tab name sp h (next_cell i))"
proof -
  obtain r where "CompareMacro (Some name) (tab (next_cell i)) = Inr r"
    and "r = 0 \<longleftrightarrow> holds tab name (next_cell i)"
    using CompareMacroE [OF assms(1)] by blast
  moreover have "(i + 1) mod CF_HASHTABLESIZE = i + 1" "i + 1 < CF_HASHTABLESIZE"
    using assms(2) by simp_all
  moreover have "(if i + 1 = CF_HASHTABLESIZE - 1 then 0 else i + 1) = next_cell i"
    using next_cell_store [OF assms(2)] by simp
  moreover have "\<not> CF_HASHTABLESIZE \<le> next_cell i"
    using next_cell_less [of i] by simp
  ultimately show ?thesis
    by (simp only: store_probe.simps(2) Let_def if_True if_False sum.case)
qed

declare get_probe.simps(2) [simp del] store_probe.simps(2) [simp del] delete_probe.simps(2) [simp del]

lemma next_cell_start: "0 < h \<Longrightarrow> next_cell i = h \<longleftrightarrow> Suc i = h \<and> h < CF_HASHTABLESIZE - 1"
  by (auto simp: next_cell_def)

lemma get_probe_total:
  assumes "wf_table tab" and "0 < h" "h < CF_HASHTABLESIZE"
  shows "i < CF_HASHTABLESIZE \<Longrightarrow> Suc i \<noteq> h \<Longrightarrow> to_go h i \<le> fuel \<Longrightarrow>
    get_probe fuel tab name h i \<noteq> None"
proof (induction fuel arbitrary: i)
  case 0
  then show ?case using to_go_pos [of i h] by simp
next
  case (Suc fuel)
  have "to_go h (next_cell i) \<le> fuel"
    using to_go_step [OF assms(3) Suc.prems(1)] next_cell_start [OF assms(2)] Suc.prems by fastforce
  then show ?case
    using Suc.IH [OF next_cell_bound] by (simp add: get_probe_step [OF assms(1)])
qed

lemma store_probe_total:
  assumes "wf_table tab" and "h < CF_HASHTABLESIZE - 1"
  shows "i < CF_HASHTABLESIZE - 1 \<Longrightarrow> to_go h i \<le> fuel \<Longrightarrow> store_probe fuel tab name sp h i \<noteq> None"
proof (induction fuel arbitrary: i)
  case 0
  then show ?case using to_go_pos [of i h] by (simp add: less_diff_conv)
next
  case (Suc fuel)
  have "to_go h (next_cell i) \<le> fuel" if "next_cell i \<noteq> h"
    using to_go_step [of h i] assms(2) Suc.prems that by (fastforce simp: next_cell_def)
  then show ?case
    using Suc.IH [OF next_cell_less] by (simp add: store_probe_step [OF assms(1) Suc.prems(1)])
qed

text \<open>The lookup only depends on which cells hold the name.\<close>

lemma get_probe_cong:
  assumes "wf_table tab" and "wf_table tab'" and "\<And>i. holds tab name i = holds tab' name i"
  shows "get_probe fuel tab name h i = get_probe fuel tab' name h i"
proof (induction fuel arbitrary: i)
  case (Suc fuel)
  then show ?case by (simp add: get_probe_step assms)
qed simp

lemma find_cell_wf:
  assumes "wf_table tab"
  shows "find_cell fuel tab name =
    (if Hash name < 0 then Some (Inl (Undefined ''GetMacroValue: negative slot''))
     else if holds tab name (nat (Hash name)) then Some (Inr (Some (nat (Hash name))))
     else get_probe fuel tab name (nat (Hash name)) (nat (Hash name)))"
proof -
  obtain r where "CompareMacro (Some name) (tab (nat (Hash name))) = Inr r"
    and "r = 0 \<longleftrightarrow> holds tab name (nat (Hash name))"
    using CompareMacroE [OF assms] by blast
  then show ?thesis by (auto simp: find_cell_def)
qed

lemma find_cell_cong:
  assumes "wf_table tab" and "wf_table tab'" and "\<And>i. holds tab name i = holds tab' name i"
  shows "find_cell fuel tab name = find_cell fuel tab' name"
  unfolding find_cell_wf [OF assms(1)] find_cell_wf [OF assms(2)]
  using get_probe_cong [OF assms] assms(3) by simp

lemma get_probe_holds:
  "wf_table tab \<Longrightarrow> get_probe fuel tab name h i = Some (Inr (Some j)) \<Longrightarrow> holds tab name j"
  by (induction fuel arbitrary: i) (auto simp: get_probe_step split: if_splits)

lemma find_cell_holds:
  "wf_table tab \<Longrightarrow> find_cell fuel tab name = Some (Inr (Some j)) \<Longrightarrow> holds tab name j"
  by (auto simp: find_cell_wf get_probe_holds split: if_splits)

text \<open>Where the storing loop puts a cell, the lookup loop finds it.\<close>

lemma store_probe_room:
  assumes "wf_table tab" and "k < CF_HASHTABLESIZE - 1" and "tab k = None \<or> holds tab name k"
    and "scan_not ''='' sp = name" "name \<noteq> []" "CHR ''='' \<in> set sp"
  shows "h \<le> i \<Longrightarrow> i < k \<Longrightarrow> k - i \<le> fuel \<Longrightarrow>
    \<exists>j > i. j \<le> k \<and> (tab j = None \<or> holds tab name j)
      \<and> store_probe fuel tab name sp h i = Some (Inr (tab(j := Some sp)))
      \<and> get_probe fuel (tab(j := Some sp)) name h i = Some (Inr (Some j))"
proof (induction fuel arbitrary: i)
  case (Suc fuel)
  have i: "i < CF_HASHTABLESIZE - 1" using Suc.prems assms(2) by simp
  note step = store_probe_step [OF assms(1) i]
  have n: "next_cell i = i + 1"
    using Suc.prems assms(2) next_cell_store [OF i] by simp
  have wf: "wf_table (tab(j := Some sp))" for j
    using assms(1,4-6) by (auto simp: wf_table_def)
  have upd: "get_probe (Suc fuel) (tab(j := Some sp)) name h i =
      (if i + 1 = j \<or> holds tab name (i + 1) then Some (Inr (Some (i + 1)))
       else get_probe fuel (tab(j := Some sp)) name h (i + 1))" for j
    unfolding get_probe_step [OF wf] holds_upd n using assms(4) Suc.prems(1) by simp
  show ?case
  proof (cases "tab (i + 1) = None \<or> holds tab name (i + 1)")
    case True
    then have "store_probe (Suc fuel) tab name sp h i = Some (Inr (tab(i + 1 := Some sp)))"
      unfolding step n using Suc.prems(1) by auto
    with True upd [of "i + 1"] Suc.prems(2) show ?thesis
      by (intro exI [of _ "i + 1"]) (simp only: simp_thms if_True, simp)
  next
    case False
    with assms(3) have "i + 1 \<noteq> k" by auto
    with Suc.prems have "h \<le> i + 1" "i + 1 < k" "k - (i + 1) \<le> fuel" by simp_all
    from Suc.IH [OF this] obtain j where j: "i + 1 < j" "j \<le> k" "tab j = None \<or> holds tab name j"
      "store_probe fuel tab name sp h (i + 1) = Some (Inr (tab(j := Some sp)))"
      "get_probe fuel (tab(j := Some sp)) name h (i + 1) = Some (Inr (Some j))" by blast
    moreover have "store_probe (Suc fuel) tab name sp h i = Some (Inr (tab(j := Some sp)))"
      unfolding step n using False Suc.prems(1) j(4) by auto
    ultimately show ?thesis
      using False upd [of j] by (intro exI [of _ j]) (simp only: simp_thms if_False, simp)
  qed
qed simp

subsection \<open>Storing and looking up\<close>

lemma c_rem_bounds:
  assumes "0 < b"
  shows "- b < c_rem a b \<and> c_rem a b < b"
proof -
  have "0 \<le> x mod b \<and> x mod b < b" for x using assms by simp
  from this [of a] this [of "- a"] assms show ?thesis unfolding c_rem_def by (simp, linarith)
qed

lemma Hash_bounds: "Hash name < int CF_HASHTABLESIZE"
proof (cases name rule: rev_cases)
  case (snoc xs x)
  then show ?thesis by (simp add: Hash_def c_rem_bounds CF_HASHTABLESIZE_def)
qed (simp add: Hash_def CF_HASHTABLESIZE_def)

abbreviation slot_of :: "string \<Rightarrow> nat" where "slot_of name \<equiv> nat (Hash name)"

text \<open>There is room for a name when a cell from its slot on, but not the last, is free or its own.\<close>

definition room :: "hashtable \<Rightarrow> string \<Rightarrow> bool" where
  "room tab name \<longleftrightarrow> wf_table tab \<and> var_name name \<and> 0 \<le> Hash name
     \<and> (\<exists>k \<in> {slot_of name ..< CF_HASHTABLESIZE - 1}. tab k = None \<or> holds tab name k)"

lemma store_macro_wf:
  assumes "wf_table tab" and "0 \<le> Hash name"
  shows "store_macro fuel tab name exp =
    (if tab (slot_of name) = None \<or> holds tab name (slot_of name)
     then Some (Inr (tab(slot_of name := Some (cell_text name exp))))
     else store_probe fuel tab name (cell_text name exp) (slot_of name) (slot_of name))"
proof -
  obtain r where "CompareMacro (Some name) (tab (slot_of name)) = Inr r"
    and "r = 0 \<longleftrightarrow> holds tab name (slot_of name)"
    using CompareMacroE [OF assms(1)] by blast
  with assms(2) show ?thesis by (simp add: store_macro_def cell_text_def)
qed

lemma store_macro_cell:
  assumes "room tab name"
  obtains j where "slot_of name \<le> j" "j < CF_HASHTABLESIZE - 1" "tab j = None \<or> holds tab name j"
    and "store_macro CF_HASHTABLESIZE tab name exp = Some (Inr (tab(j := Some (cell_text name exp))))"
    and "find_cell CF_HASHTABLESIZE (tab(j := Some (cell_text name exp))) name = Some (Inr (Some j))"
proof -
  let ?t = "cell_text name exp"
  from assms have wf: "wf_table tab" and h: "0 \<le> Hash name" and v: "var_name name"
    by (simp_all add: room_def)
  from assms obtain k where k: "slot_of name \<le> k" "k < CF_HASHTABLESIZE - 1"
    "tab k = None \<or> holds tab name k" by (auto simp: room_def)
  note found = find_cell_wf [OF cell_text_wf [OF v wf], unfolded holds_upd cell_text_name [OF v]]
  show ?thesis
  proof (cases "tab (slot_of name) = None \<or> holds tab name (slot_of name)")
    case True
    with k h that [of "slot_of name"] show ?thesis
      by (simp add: store_macro_wf [OF wf h] found)
  next
    case False
    with k have "slot_of name < k" by (metis le_neq_implies_less)
    moreover have "k - slot_of name \<le> CF_HASHTABLESIZE" using k(2) by simp
    moreover have "name \<noteq> []" "CHR ''='' \<in> set ?t"
      using v cell_text_eq [OF v, of exp] by (auto simp: var_name_def)
    ultimately obtain j where j: "slot_of name < j" "j \<le> k" "tab j = None \<or> holds tab name j"
      "store_probe CF_HASHTABLESIZE tab name ?t (slot_of name) (slot_of name)
         = Some (Inr (tab(j := Some ?t)))"
      "get_probe CF_HASHTABLESIZE (tab(j := Some ?t)) name (slot_of name) (slot_of name)
         = Some (Inr (Some j))"
      using store_probe_room [of tab k name ?t "slot_of name" "slot_of name" CF_HASHTABLESIZE]
        wf k(2,3) cell_text_name [OF v] by blast
    have "j < CF_HASHTABLESIZE - 1" "slot_of name \<le> j" using j(1,2) k(2) by simp_all
    moreover have "store_macro CF_HASHTABLESIZE tab name exp = Some (Inr (tab(j := Some ?t)))"
      unfolding store_macro_wf [OF wf h] using False j(4) by auto
    moreover have "find_cell CF_HASHTABLESIZE (tab(j := Some ?t)) name = Some (Inr (Some j))"
      unfolding found using False j(1,5) h by simp
    ultimately show ?thesis using j(3) that by blast
  qed
qed

subsection \<open>The contract of a store of variables\<close>

text \<open>
  \<open>val s n\<close> is what the search for \<open>n\<close> yields, \<open>result n v\<close> what it yields for a variable that was
  given the value \<open>v\<close>, and \<open>has_room s n\<close> allows \<open>n\<close> to be stored.
\<close>

locale variable_store =
  fixes val :: "'s \<Rightarrow> string \<Rightarrow> 'r"
    and put :: "'s \<Rightarrow> string \<Rightarrow> string \<Rightarrow> 's"
    and has_room :: "'s \<Rightarrow> string \<Rightarrow> bool"
    and result :: "string \<Rightarrow> string \<Rightarrow> 'r"
  assumes val_same: "has_room s n \<Longrightarrow> val (put s n v) n = result n v"
    and val_other: "has_room s n \<Longrightarrow> m \<noteq> n \<Longrightarrow> val (put s n v) m = val s m"
    and room_put: "has_room s n \<Longrightarrow> has_room (put s n v) n"
begin

lemma val_put: "has_room s n \<Longrightarrow> val (put s n v) m = (if m = n then result n v else val s m)"
  by (simp add: val_same val_other)

lemma put_twice: "has_room s n \<Longrightarrow> val (put (put s n v) n w) m = val (put s n w) m"
  by (simp add: val_put room_put)

lemma put_swap:
  "has_room s n \<Longrightarrow> has_room s m \<Longrightarrow> has_room (put s n v) m \<Longrightarrow> has_room (put s m w) n \<Longrightarrow> n \<noteq> m \<Longrightarrow>
     val (put (put s n v) m w) k = val (put (put s m w) n v) k"
  by (simp add: val_put)

text \<open>A client that gives several variables their values, in turn.\<close>

fun puts :: "'s \<Rightarrow> (string \<times> string) list \<Rightarrow> 's" where
  "puts s [] = s"
| "puts s ((n, v) # kvs) = puts (put s n v) kvs"

fun rooms :: "'s \<Rightarrow> (string \<times> string) list \<Rightarrow> bool" where
  "rooms s [] = True"
| "rooms s ((n, v) # kvs) = (has_room s n \<and> rooms (put s n v) kvs)"

lemma val_puts:
  "rooms s kvs \<Longrightarrow> val (puts s kvs) m =
     (case map_of (rev kvs) m of None \<Rightarrow> val s m | Some v \<Rightarrow> result m v)"
  by (induction s kvs rule: puts.induct) (auto simp: val_put map_add_def split: option.splits)

end

definition table_val :: "(string \<Rightarrow> string option) \<Rightarrow> hashtable \<Rightarrow> string \<Rightarrow> string option outcome option" where
  "table_val getenv tab name = get_macro getenv CF_HASHTABLESIZE tab name"

definition table_put :: "hashtable \<Rightarrow> string \<Rightarrow> string \<Rightarrow> hashtable" where
  "table_put tab name exp = (case store_macro CF_HASHTABLESIZE tab name exp of
       Some (Inr tab') \<Rightarrow> tab' | _ \<Rightarrow> tab)"

definition stored_value :: "string \<Rightarrow> string \<Rightarrow> string option outcome option" where
  "stored_value name exp = Some (Inr (Some (take (CF_BUFSIZE - 2 - length name) exp)))"

lemma table_put_room:
  assumes "room tab name"
  shows "store_macro CF_HASHTABLESIZE tab name exp = Some (Inr (table_put tab name exp))"
  by (rule store_macro_cell [OF assms, of exp]) (simp add: table_put_def)

lemma get_macro_other:
  assumes "wf_table tab" and "var_name name" and "tab j = None \<or> holds tab name j" and "m \<noteq> name"
  shows "get_macro getenv fuel (tab(j := Some (cell_text name exp))) m = get_macro getenv fuel tab m"
proof -
  let ?tab = "tab(j := Some (cell_text name exp))"
  have holds: "holds ?tab m i = holds tab m i" for i
    using assms(3,4) cell_text_name [OF assms(2), of exp]
    by (auto simp: holds_upd dest: holds_fun holds_empty)
  have cells: "find_cell fuel ?tab m = find_cell fuel tab m"
    by (rule find_cell_cong [OF cell_text_wf [OF assms(2,1)] assms(1) holds])
  have "?tab i = tab i" if "holds tab m i" for i
    using that assms(3,4) by (auto dest: holds_fun holds_empty)
  moreover have "find_cell fuel tab m = Some (Inr (Some i)) \<Longrightarrow> holds tab m i" for i
    by (rule find_cell_holds [OF assms(1)])
  ultimately show ?thesis
    unfolding get_macro_def cells by (auto split: option.splits sum.splits simp: bind_outcome_def)
qed

lemma table_put_cell:
  assumes "room tab name"
  obtains j where "slot_of name \<le> j" "j < CF_HASHTABLESIZE - 1" "tab j = None \<or> holds tab name j"
    and "table_put tab name exp = tab(j := Some (cell_text name exp))"
    and "find_cell CF_HASHTABLESIZE (table_put tab name exp) name = Some (Inr (Some j))"
  by (rule store_macro_cell [OF assms, of exp]) (simp add: table_put_def)

interpretation cells: variable_store "table_val getenv" table_put room stored_value for getenv
proof
  fix tab name exp
  assume r: "room tab name"
  then have v: "var_name name" and wf: "wf_table tab" and h: "0 \<le> Hash name"
    by (simp_all add: room_def)
  from table_put_cell [OF r, of exp] obtain j where j: "slot_of name \<le> j" "j < CF_HASHTABLESIZE - 1"
    "tab j = None \<or> holds tab name j" "table_put tab name exp = tab(j := Some (cell_text name exp))"
    "find_cell CF_HASHTABLESIZE (table_put tab name exp) name = Some (Inr (Some j))" .
  show "table_val getenv (table_put tab name exp) name = stored_value name exp"
    using cell_text_value [OF v, of exp]
    by (simp add: table_val_def stored_value_def get_macro_def j(5)) (simp add: j(4))
  show "table_val getenv (table_put tab name exp) m = table_val getenv tab m" if "m \<noteq> name" for m
    unfolding table_val_def j(4) by (rule get_macro_other [OF wf v j(3) that])
  have "holds (table_put tab name exp) name j"
    using cell_text_name [OF v, of exp] by (simp add: j(4) holds_upd)
  moreover have "wf_table (table_put tab name exp)"
    unfolding j(4) by (rule cell_text_wf [OF v wf])
  ultimately show "room (table_put tab name exp) name"
    using v h j(1,2) by (auto simp: room_def)
qed

subsection \<open>Searches that end and searches that do not\<close>

lemma find_cell_total:
  "wf_table tab \<Longrightarrow> 0 < Hash name \<Longrightarrow> find_cell CF_HASHTABLESIZE tab name \<noteq> None"
  using get_probe_total [of tab "slot_of name" "slot_of name" CF_HASHTABLESIZE name] Hash_bounds [of name]
  by (simp add: find_cell_wf)

lemma get_probe_hangs:
  "wf_table tab \<Longrightarrow> (\<And>i. \<not> holds tab name i) \<Longrightarrow> get_probe fuel tab name 0 i = None"
  by (induction fuel arbitrary: i) (simp_all add: get_probe_step)

lemma delete_probe_hangs:
  "wf_table tab \<Longrightarrow> (\<And>i. \<not> holds tab name i) \<Longrightarrow> delete_probe fuel tab name 0 i = None"
proof (induction fuel arbitrary: i)
  case (Suc fuel)
  obtain r where "CompareMacro (Some name) (tab (next_cell i)) = Inr r" "r \<noteq> 0"
    using CompareMacroE [OF Suc.prems(1), of name "next_cell i"] Suc.prems(2) by blast
  with Suc show ?case by (simp add: delete_probe.simps(2))
qed simp

subsection \<open>Properties\<close>



end
