(* ===== verification/VarString.thy ===== *)
theory VarString
  imports Macros
begin

text \<open>
  varstring.c: the text of a cfengine 2 string with its variables rewritten to their cfengine 3
  names. \<open>ExpandVarstring\<close> is the converter's work horse; the nested variables make it recursive
  and an unterminated variable makes it loop until its buffer is full. The diagnostics function
  \<open>yyerror\<close> belongs to the scanner, which is not part of the sources; it is taken to return.

  The theory also has the functions that cut strings with variables into lists, and, because it
  rewrites the value it stores, \<open>AddMacroValue\<close> of macro.c.
\<close>

subsection \<open>Variable names\<close>

definition VVNAMES :: "string list" where
  "VVNAMES =
    [''version'', ''faculty'', ''site'', ''host'', ''fqhost'', ''ipaddress'', ''binserver'', 
     ''sysadm'', ''domain'', ''timezone'', ''netmask'', ''nfstype'', ''sensiblesize'', 
     ''sensiblecount'', ''editfilesize'', ''editbinfilesize'', ''actionsequence'', 
     ''mountpattern'', ''homepattern'', ''addclasses'', ''addinstallable'', ''schedule'', 
     ''access'', ''class'', ''arch'', ''ostype'', ''date'', ''year'', ''month'', ''day'', 
     ''hr'', ''min'', ''allclasses'', ''excludecopy'', ''singlecopy'', ''autodefine'', 
     ''excludelink'', ''copylinks'', ''linkcopies'', ''repository'', ''spc'', ''tab'', ''lf'', 
     ''cr'', ''n'', ''dblquote'', ''colon'', ''quote'', ''dollar'', ''repchar'', ''split'', 
     ''underscoreclasses'', ''interfacename'', ''expireafter'', ''ifelapsed'', 
     ''fileextensions'', ''suspiciousnames'', ''spooldirectories'', ''allowconnectionsfrom'', 
     ''denyconnectionsfrom'', ''allowmultipleconnectionsfrom'', ''methodparameters'', 
     ''methodname'', ''methodpeers'', ''trustkeysfrom'', ''dynamicaddresses'', ''allowusers'', 
     ''skipverify'', ''defaultcopytype'', ''allowredefinitionof'', ''defaultpkgmgr'', 
     ''abortclasses'', ''ignoreinterfaceregex'']"

text \<open>The members of \<open>enum vnames\<close> that are tested for.\<close>

definition cfhost :: nat where "cfhost = 3"
definition cffqhost :: nat where "cffqhost = 4"
definition cfipaddr :: nat where "cfipaddr = 5"
definition cfbinserver :: nat where "cfbinserver = 6"
definition cfclass :: nat where "cfclass = 23"
definition cfarch :: nat where "cfarch = 24"
definition cfarch2 :: nat where "cfarch2 = 25"
definition cfdate :: nat where "cfdate = 26"
definition cfspc :: nat where "cfspc = 40"
definition cftab :: nat where "cftab = 41"
definition cflf :: nat where "cflf = 42"
definition cfcr :: nat where "cfcr = 43"
definition cfn :: nat where "cfn = 44"
definition cfdollar :: nat where "cfdollar = 48"

definition ScanVariable :: "string \<Rightarrow> nat outcome" where
  "ScanVariable name = bind_outcome (ToLowerStr name) (\<lambda>low.
     Inr (case index_from (\<lambda>v. v = low) 0 VVNAMES of None \<Rightarrow> length VVNAMES | Some i \<Rightarrow> i))"

definition CheckVarID :: "string \<Rightarrow> bool" where
  "CheckVarID var = list_all (\<lambda>c. isalnum c \<or> c \<in> set ''_[].'') var"

subsection \<open>Bracketed variables\<close>

record scan_state =
  sc_left :: char
  sc_right :: char
  sc_dollar :: bool
  sc_bracks :: int
  sc_vars :: nat

definition count_var :: "char \<Rightarrow> char \<Rightarrow> scan_state \<Rightarrow> scan_state" where
  "count_var l r st = (if sc_left st = l \<and> sc_right st = r \<and> sc_dollar st \<and> sc_bracks st = 0
     then st\<lparr>sc_vars := sc_vars st + 1, sc_dollar := False\<rparr> else st)"

definition opens :: "string \<Rightarrow> bool" where
  "opens s = (case s of [] \<Rightarrow> False | c # _ \<Rightarrow> c = CHR ''('' \<or> c = CHR ''{'')"

fun var_scan :: "scan_state \<Rightarrow> string \<Rightarrow> scan_state" where
  "var_scan st [] = st"
| "var_scan st (c # s) =
     (let st1 =
        (if c = CHR ''$'' then (if opens s then st\<lparr>sc_dollar := True\<rparr> else st)
         else if c = CHR ''('' \<or> c = CHR ''{'' then
           (if sc_dollar st then st\<lparr>sc_left := c, sc_bracks := sc_bracks st + 1\<rparr> else st)
         else if c = CHR '')'' \<or> c = CHR ''}'' then
           (if sc_dollar st then st\<lparr>sc_bracks := sc_bracks st - 1, sc_right := c\<rparr> else st)
         else st) in
      var_scan (count_var CHR ''{'' CHR ''}'' (count_var CHR ''('' CHR '')'' st1)) s)"

definition IsVarString :: "string \<Rightarrow> nat" where
  "IsVarString str =
     (let st = var_scan \<lparr>sc_left = CHR ''x'', sc_right = CHR ''x'', sc_dollar = False,
                          sc_bracks = 0, sc_vars = 0\<rparr> str in
      if sc_bracks st \<noteq> 0 then 0 else sc_vars st)"

text \<open>
  \<open>inner_scan\<close> is the number of characters before the bracket that closes the one before the
  string; illegal characters are only reported.
\<close>

fun inner_scan :: "nat \<Rightarrow> int \<Rightarrow> string \<Rightarrow> nat option" where
  "inner_scan k bracks [] = None"
| "inner_scan k bracks (c # s) =
     (let b = (if c = CHR ''('' \<or> c = CHR ''{'' then bracks + 1
               else if c = CHR '')'' \<or> c = CHR ''}'' then bracks - 1 else bracks) in
      if b = 0 then Some k else inner_scan (k + 1) b s)"

definition ExtractInnerVarString :: "string \<Rightarrow> string outcome" where
  "ExtractInnerVarString str = (case inner_scan 0 1 (drop 2 str) of
       None \<Rightarrow> Inr []
     | Some k \<Rightarrow> if CF_BUFSIZE \<le> k then Inl (Undefined ''ExtractInnerVarString: substr'')
                 else Inr (take k (drop 2 str)))"

text \<open>
  \<open>outer_scan\<close> finds the end of the variable at the front of a string; \<open>None\<close> is a stray dollar
  or a missing bracket, for which the function returns NULL and leaves the buffer empty.
\<close>

fun outer_scan :: "nat \<Rightarrow> bool \<Rightarrow> int \<Rightarrow> bool \<Rightarrow> string \<Rightarrow> nat option" where
  "outer_scan k dollar bracks onebrack [] = (if dollar \<and> bracks \<noteq> 0 then None else Some 0)"
| "outer_scan k dollar bracks onebrack (c # s) =
     (if c = CHR ''$'' \<and> \<not> opens s then None
      else (let dollar' = (dollar \<or> c = CHR ''$'');
                open = (c = CHR ''('' \<or> c = CHR ''{'');
                b = (if open then bracks + 1
                     else if c = CHR '')'' \<or> c = CHR ''}'' then bracks - 1 else bracks);
                one = (onebrack \<or> open) in
        if dollar' \<and> b = 0 \<and> one then Some (k + 1) else outer_scan (k + 1) dollar' b one s))"

definition ExtractOuterVarString :: "string \<Rightarrow> string option outcome" where
  "ExtractOuterVarString str = (case outer_scan 0 False 0 False str of
       None \<Rightarrow> Inr None
     | Some k \<Rightarrow> if CF_BUFSIZE \<le> k then Inl (Undefined ''ExtractOuterVarString: substr'')
                 else Inr (Some (take k str)))"

subsection \<open>Rewriting variables\<close>

text \<open>\<open>VARCH\<close> and \<open>VARCH2\<close> only enter through a test for overflow.\<close>

record expand_env =
  VARIABLES :: bool
  VARCH :: string
  VARCH2 :: string

definition put_text :: "string \<Rightarrow> string \<Rightarrow> string outcome" where
  "put_text buffer t = (if CF_EXPANDSIZE \<le> length buffer + length t
     then Inl (Undefined ''ExpandVarstring: buffer'') else Inr (buffer @ t))"

definition put_checked :: "string \<Rightarrow> string \<Rightarrow> string \<Rightarrow> string outcome" where
  "put_checked buffer need t = (if ExpandOverflow buffer need
     then Inl (FatalErr ''Can't expandvarstring'') else put_text buffer t)"

definition other_variable :: "bool \<Rightarrow> bool \<Rightarrow> string \<Rightarrow> string" where
  "other_variable vars brace item = take (CF_MAXVARSIZE - 1)
     ((if brace then ''${'' else ''$('') @ (if vars then [] else ''g.'') @ item
        @ (if brace then ''}'' else '')''))"

definition put_variable :: "expand_env \<Rightarrow> bool \<Rightarrow> string \<Rightarrow> string \<Rightarrow> nat \<Rightarrow> string outcome" where
  "put_variable env brace buffer item v =
     (if v = cfhost then put_text buffer ''$(sys.uqhost)''
      else if v = cffqhost then put_text buffer ''$(sys.host)''
      else if v = cfipaddr then put_text buffer ''$(sys.ipv4)''
      else if v = cfclass then put_text buffer ''$(sys.class)''
      else if v = cfarch then put_checked buffer (VARCH env) ''$(sys.os)''
      else if v = cfarch2 then put_checked buffer (VARCH2 env) ''$(sys.longarch)''
      else if v = cfdate then put_text buffer ''$(sys.date)''
      else if v = cfspc then put_checked buffer '' '' '' ''
      else if v = cftab then put_checked buffer '' '' [CHR 0x09]
      else if v = cflf then put_checked buffer '' '' ''$(sys.endl)''
      else if v = cfcr then put_checked buffer '' '' ''$(sys.r)''
      else if v = cfn then put_checked buffer '' '' ''$(sys.n)''
      else if v = cfdollar then put_text buffer ''$(sys.dollar)''
      else put_text buffer (other_variable (VARIABLES env) brace item))"

lemma put_textD: "put_text buffer t = Inr b \<Longrightarrow> b = buffer @ t \<and> length b < CF_EXPANDSIZE"
  by (auto simp: put_text_def split: if_splits)

lemma put_checkedD:
  "put_checked buffer need t = Inr b \<Longrightarrow> b = buffer @ t \<and> length b < CF_EXPANDSIZE"
  by (auto simp: put_checked_def put_textD split: if_splits)

lemma other_variable_nonempty: "other_variable vars brace item \<noteq> []"
  by (simp add: other_variable_def CF_MAXVARSIZE_def)

lemma put_variable_longer:
  "put_variable env brace buffer item v = Inr b \<Longrightarrow> length buffer < length b \<and> length b < CF_EXPANDSIZE"
  using other_variable_nonempty [of "VARIABLES env" brace item]
  by (auto simp: put_variable_def dest!: put_textD put_checkedD split: if_splits)

lemma ExtractInner_shorter:
  "ExtractInnerVarString str = Inr temp \<Longrightarrow> 2 \<le> length str \<Longrightarrow> length temp < length str"
  by (auto simp: ExtractInnerVarString_def split: option.splits if_splits)

lemma opens_nonempty: "opens s \<Longrightarrow> s \<noteq> []"
  by (auto simp: opens_def)

lemma scan_rest_length: "drop (length (scan_not seps sp)) sp = c # s \<Longrightarrow> length s < length sp"
  by (metis Suc_le_lessD length_Cons length_drop diff_le_self)

text \<open>
  The loop of \<open>ExpandVarstring\<close>. When no variable could be extracted the pointer steps back and
  the same place is read again, with a longer buffer.
\<close>

function expand_loop :: "expand_env \<Rightarrow> string \<Rightarrow> string \<Rightarrow> string outcome" where
  "expand_loop env buffer sp =
     (if sp = [] then Inr buffer
      else (let current = scan_not ''$'' sp; rest = drop (length current) sp in
        if CF_EXPANDSIZE \<le> length current then Inl (Undefined ''ExpandVarstring: currentitem'')
        else if ExpandOverflow buffer current then Inl (FatalErr ''Can't expand varstring'')
        else (let buf = buffer @ current in
          case rest of
            [] \<Rightarrow> Inr buf
          | dollar # s \<Rightarrow>
              if \<not> opens s then bind_outcome (put_text buf ''$'') (\<lambda>b. expand_loop env b s)
              else bind_outcome (ExtractOuterVarString rest) (\<lambda>outer.
                bind_outcome (ExtractInnerVarString rest) (\<lambda>temp.
                bind_outcome
                  (if strstr temp ''$'' then expand_loop env [] temp else Inr temp) (\<lambda>item.
                bind_outcome (ScanVariable item) (\<lambda>v.
                bind_outcome (put_variable env (hd s = CHR ''{'') buf item v) (\<lambda>b.
                  (let var = (case outer of None \<Rightarrow> [] | Some var \<Rightarrow> var) in
                   if var = [] then expand_loop env b rest
                   else expand_loop env b (drop (length var) rest))))))))))"
  by pat_completeness auto

termination
proof (relation "measures [\<lambda>(env, buffer, sp). length sp, \<lambda>(env, buffer, sp). CF_EXPANDSIZE - length buffer]",
    goal_cases)
  case (2 env buffer sp current rest buf c s b)
  then show ?case using scan_rest_length [of "''$''" sp c s] by simp
next
  case (3 env buffer sp current rest buf c s a temp)
  then have "rest = c # s" and "s \<noteq> []" using opens_nonempty [of s] by metis+
  then have "2 \<le> length rest" by (cases s) auto
  with 3 have "length temp < length rest" using ExtractInner_shorter by blast
  moreover have "length rest \<le> length sp" using 3(3) by simp
  ultimately have "length temp < length sp" by (rule order.strict_trans2)
  then show ?case by simp
next
  case (4 env buffer sp current rest buf c s a temp item v b var)
  have "length buffer < length b" "length b < CF_EXPANDSIZE"
    using 4 by (auto dest!: put_variable_longer)
  with 4 show ?case by auto
qed auto

declare expand_loop.simps [simp del]

definition ExpandVarstring :: "expand_env \<Rightarrow> string option \<Rightarrow> string outcome" where
  "ExpandVarstring env string = (case string of
       None \<Rightarrow> Inr []
     | Some s \<Rightarrow> if length s = 0 then Inr [] else expand_loop env [] s)"

text \<open>
  \<open>ExpandVarbinserv\<close> keeps the text and the server name and drops every other variable. A
  variable that is not closed makes the loop step over the terminator.
\<close>

function binserv_loop :: "string \<Rightarrow> string option \<Rightarrow> string \<Rightarrow> string outcome" where
  "binserv_loop buffer bserver sp =
     (let current = scan_not ''$'' sp; buf = buffer @ current in
      if CF_EXPANDSIZE \<le> length current then Inl (Undefined ''ExpandVarbinserv: currentitem'')
      else (case drop (length current) sp of
          [] \<Rightarrow> Inr buf
        | dollar # s \<Rightarrow>
            if \<not> opens s then binserv_loop (buf @ ''$'') bserver s
            else (let stop = (if hd s = CHR ''{'' then CHR ''}'' else CHR '')'');
                      item = scan_not [stop] (tl s) in
              if CF_EXPANDSIZE \<le> length item then Inl (Undefined ''ExpandVarbinserv: currentitem'')
              else bind_outcome (ScanVariable item) (\<lambda>v.
                bind_outcome
                  (if v = cfbinserver then (case bserver of
                       None \<Rightarrow> Inl (Undefined ''ExpandVarbinserv: bserver is NULL'')
                     | Some b \<Rightarrow> put_checked buf b b)
                   else Inr buf)
                  (\<lambda>b. case drop (length item) (tl s) of
                       [] \<Rightarrow> Inl (Undefined ''ExpandVarbinserv: past the end'')
                     | _ # r \<Rightarrow> binserv_loop b bserver r)))))"
  by pat_completeness auto
termination
proof (relation "measure (\<lambda>(buffer, bserver, sp). length sp)", goal_cases)
  case (2 buffer bserver sp current buf c s)
  then show ?case using scan_rest_length [of "''$''" sp c s] by simp
next
  case (3 buffer bserver sp current buf c s stop item v b d r)
  then have "length s < length sp" using scan_rest_length [of "''$''" sp c s] by simp
  moreover have "length r < length (tl s)"
    using 3 by (metis length_drop length_Cons diff_le_self Suc_le_lessD)
  ultimately show ?case by simp
qed auto

definition ExpandVarbinserv :: "string \<Rightarrow> string option \<Rightarrow> string outcome" where
  "ExpandVarbinserv string bserver = binserv_loop [] bserver string"

subsection \<open>Cutting strings into lists\<close>

lemma outer_scan_inside:
  "outer_scan k True b True s = Some n \<Longrightarrow> b \<noteq> 0 \<Longrightarrow> k < n"
proof (induction s arbitrary: k b)
  case (Cons c s)
  then show ?case by (auto split: if_splits dest!: Cons.IH)
qed simp

lemma outer_scan_dollar:
  assumes "outer_scan 0 False 0 False (CHR ''$'' # s) = Some n"
  shows "0 < n"
proof -
  have "opens s" using assms by (auto split: if_splits)
  then obtain d t where "s = d # t" "d = CHR ''('' \<or> d = CHR ''{''"
    by (cases s) (auto simp: opens_def)
  with assms show ?thesis by (auto split: if_splits dest!: outer_scan_inside)
qed

lemma ExtractOuter_nonempty:
  "ExtractOuterVarString (CHR ''$'' # s) = Inr (Some var) \<Longrightarrow> var \<noteq> []"
  using outer_scan_dollar [of s]
  by (auto simp: ExtractOuterVarString_def simp del: outer_scan.simps split: option.splits if_splits)

function split_var :: "expand_env \<Rightarrow> string \<Rightarrow> string \<Rightarrow> item list outcome" where
  "split_var env before sp = (case sp of
       [] \<Rightarrow> Inr (if before = [] then [] else [mk_item before None])
     | c # s \<Rightarrow>
         if c = CHR ''$'' then
           bind_outcome (ExtractOuterVarString (CHR ''$'' # s)) (\<lambda>outer. case outer of
               None \<Rightarrow>
                 if CF_BUFSIZE - 1 \<le> length before then Inl (Undefined ''SplitVarstring: before'')
                 else split_var env (before @ ''$'') s
             | Some var \<Rightarrow>
                 bind_outcome (ExpandVarstring env (Some var)) (\<lambda>exp.
                 bind_outcome (split_var env [] (drop (length var) (CHR ''$'' # s))) (\<lambda>rest.
                   Inr ((if before = [] then [] else [mk_item before None])
                          @ mk_item exp None # rest))))
         else if CF_BUFSIZE - 1 \<le> length before then Inl (Undefined ''SplitVarstring: before'')
         else split_var env (before @ [c]) s)"
  by pat_completeness auto
termination
proof (relation "measure (\<lambda>(env, before, sp). length sp)", goal_cases)
  case (3 env before sp c s outer var exp)
  then have "var \<noteq> []" using ExtractOuter_nonempty by blast
  with 3 show ?case by (cases var) auto
qed auto

declare split_var.simps [simp del]

definition SplitVarstring :: "expand_env \<Rightarrow> string \<Rightarrow> item list outcome" where
  "SplitVarstring env string =
     (if length string = 0 then Inr [mk_item string None] else split_var env [] string)"

text \<open>\<open>prev\<close> is the character before the current one, \<open>None\<close> at the start of the string.\<close>

fun split_string :: "char \<Rightarrow> char option \<Rightarrow> string \<Rightarrow> string \<Rightarrow> item list outcome" where
  "split_string sep prev before [] = Inr [mk_item before (Some [])]"
| "split_string sep prev before (c # s) =
     (if c = sep then
        (if prev = Some (CHR 0x5C) then split_string sep (Some c) (butlast before @ [sep]) s
         else bind_outcome (split_string sep (Some c) [] s) (\<lambda>rest.
                Inr (mk_item before None # rest)))
      else if CF_BUFSIZE - 1 \<le> length before then Inl (Undefined ''SplitString: before'')
      else split_string sep (Some c) (before @ [c]) s)"

definition SplitString :: "string \<Rightarrow> char \<Rightarrow> item list outcome" where
  "SplitString string sep = split_string sep None [] string"

definition IsListVar :: "expand_env \<Rightarrow> string \<Rightarrow> char \<Rightarrow> bool outcome" where
  "IsListVar env name sep = bind_outcome (ExpandVarstring env (Some name)) (\<lambda>test. Inr (sep \<in> set test))"

definition VarListLen :: "string \<Rightarrow> char \<Rightarrow> nat" where
  "VarListLen name sep = foldl (\<lambda>n c. if c = sep then n + 1 else n) 0 name + 1"

text \<open>\<open>GetSepElement\<close> steps over a colon, whatever the separator is.\<close>

fun skip_elements :: "nat \<Rightarrow> char \<Rightarrow> string \<Rightarrow> string" where
  "skip_elements 0 sep sps = sps"
| "skip_elements (Suc i) sep sps =
     (case dropWhile (\<lambda>c. c \<noteq> sep) sps of
        [] \<Rightarrow> skip_elements i sep []
      | c # r \<Rightarrow> skip_elements i sep (if c = CHR '':'' then r else c # r))"

definition GetSepElement :: "string \<Rightarrow> nat \<Rightarrow> char \<Rightarrow> string outcome" where
  "GetSepElement from index sep =
     (if CF_BUFSIZE \<le> length from then Inl (Undefined ''GetSepElement: buf'')
      else (case skip_elements index sep from of
          [] \<Rightarrow> Inr from
        | c # r \<Rightarrow> Inr (takeWhile (\<lambda>c. c \<noteq> sep) (if c = CHR '':'' then r else c # r))))"

subsection \<open>Variables that hold rewritten text\<close>

definition TrueVar :: "(string \<Rightarrow> string option) \<Rightarrow> expand_env \<Rightarrow> nat \<Rightarrow> macro_state \<Rightarrow> string
    \<Rightarrow> bool outcome option" where
  "TrueVar getenv env fuel st var = (case GetMacroValue getenv fuel st (CONTEXT st) var of
       None \<Rightarrow> None
     | Some r \<Rightarrow> Some (bind_outcome r (\<lambda>value. case value of
           None \<Rightarrow> Inr False
         | Some _ \<Rightarrow>
             bind_outcome (ExpandVarstring env (Some (take (CF_MAXVARSIZE - 1) (''$('' @ var @ '')''))))
               (\<lambda>buff. bind_outcome (ToLowerStr buff) (\<lambda>low. Inr (low = ''on'' \<or> low = ''true''))))))"

text \<open>\<open>None\<close> for an argument is NULL, which is reported and then dereferenced.\<close>

definition AddMacroValue :: "expand_env \<Rightarrow> nat \<Rightarrow> macro_state \<Rightarrow> string option \<Rightarrow> string option
    \<Rightarrow> string option \<Rightarrow> macro_state outcome option" where
  "AddMacroValue env fuel st scop name val = (case name of
       None \<Rightarrow> Some (Inl (Undefined ''AddMacroValue: name is NULL''))
     | Some n \<Rightarrow>
         if CF_MAXVARSIZE < length n then Some (Inr st)
         else (case val of
             None \<Rightarrow> Some (Inl (Undefined ''AddMacroValue: value is NULL''))
           | Some v \<Rightarrow>
               if strstr v (''${'' @ n @ ''}'') \<or> strstr v (''$('' @ n @ '')'') then Some (Inr st)
               else (case ExpandVarstring env (Some v) of
                   Inl e \<Rightarrow> Some (Inl e)
                 | Inr exp \<Rightarrow> (case scop of
                       None \<Rightarrow> Some (Inl (Undefined ''AddMacroValue: scope is NULL''))
                     | Some s \<Rightarrow> (case ObjectContext st s of
                           None \<Rightarrow> Some (Inl (Undefined ''AddMacroValue: no such scope''))
                         | Some ptr \<Rightarrow> (case store_macro fuel (table ptr) n exp of
                               None \<Rightarrow> None
                             | Some r \<Rightarrow> Some (bind_outcome r (\<lambda>tab.
                                 Inr (st\<lparr>VOBJ := put_table (VOBJ st) s tab\<rparr>)))))))))"

end
