(* ===== verification/VarTemplate.thy ===== *)
theory VarTemplate
  imports VarString
begin

text \<open>
  The abstract syntax of strings with variables, the text it has in cfengine 2 and its translation
  to cfengine 3, and the proof that \<open>ExpandVarstring\<close> computes the translation. The theory also
  has the properties of the functions that cut such strings, and of the variables of a scope.
\<close>

subsection \<open>Templates\<close>

text \<open>A reference has braces or parentheses; its name may contain references.\<close>

datatype piece = Lit string | Ref bool "piece list"

definition close_of :: "bool \<Rightarrow> char" where
  "close_of brace = (if brace then CHR ''}'' else CHR '')'')"

definition open_of :: "bool \<Rightarrow> char" where
  "open_of brace = (if brace then CHR ''{'' else CHR ''('')"

fun show_piece :: "piece \<Rightarrow> string" where
  "show_piece (Lit s) = s"
| "show_piece (Ref brace ps) =
     CHR ''$'' # open_of brace # concat (map show_piece ps) @ [close_of brace]"

definition show_pieces :: "piece list \<Rightarrow> string" where
  "show_pieces ps = concat (map show_piece ps)"

definition cf3_names :: "(string \<times> string) list" where
  "cf3_names =
    [(''host'', ''$(sys.uqhost)''), (''fqhost'', ''$(sys.host)''), (''ipaddress'', ''$(sys.ipv4)''),
     (''class'', ''$(sys.class)''), (''arch'', ''$(sys.os)''), (''ostype'', ''$(sys.longarch)''),
     (''date'', ''$(sys.date)''), (''spc'', '' ''), (''tab'', [CHR 0x09]), (''lf'', ''$(sys.endl)''),
     (''cr'', ''$(sys.r)''), (''n'', ''$(sys.n)''), (''dollar'', ''$(sys.dollar)'')]"

definition convert_ref :: "expand_env \<Rightarrow> bool \<Rightarrow> string \<Rightarrow> string" where
  "convert_ref env brace item = (case map_of cf3_names (until_nul (map ToLower item)) of
       Some t \<Rightarrow> t
     | None \<Rightarrow> CHR ''$'' # open_of brace # (if VARIABLES env then [] else ''g.'') @ item
                 @ [close_of brace])"

fun convert_piece :: "expand_env \<Rightarrow> piece \<Rightarrow> string" where
  "convert_piece env (Lit s) = s"
| "convert_piece env (Ref brace ps) = convert_ref env brace (concat (map (convert_piece env) ps))"

definition convert_pieces :: "expand_env \<Rightarrow> piece list \<Rightarrow> string" where
  "convert_pieces env ps = concat (map (convert_piece env) ps)"

text \<open>Literal text has no dollar sign, and inside a reference no bracket; names are of bounded length.\<close>

fun wf_piece :: "expand_env \<Rightarrow> bool \<Rightarrow> piece \<Rightarrow> bool" where
  "wf_piece env inner (Lit s) =
     (CHR ''$'' \<notin> set s \<and> (inner \<longrightarrow> list_all (\<lambda>c. c \<notin> set ''(){}'') s))"
| "wf_piece env inner (Ref brace ps) =
     (list_all (wf_piece env True) ps \<and> length (concat (map show_piece ps)) < CF_BUFSIZE - 3
      \<and> length (concat (map (convert_piece env) ps)) \<le> 1000)"

lemma show_pieces_simps [simp]:
  "show_pieces [] = []" "show_pieces (p # ps) = show_piece p @ show_pieces ps"
  by (simp_all add: show_pieces_def)

lemma convert_pieces_simps [simp]:
  "convert_pieces env [] = []"
  "convert_pieces env (p # ps) = convert_piece env p @ convert_pieces env ps"
  by (simp_all add: convert_pieces_def)

lemma show_piece_Ref [simp]:
  "show_piece (Ref brace ps) = CHR ''$'' # open_of brace # show_pieces ps @ [close_of brace]"
  by (simp add: show_pieces_def)

lemma convert_piece_Ref [simp]:
  "convert_piece env (Ref brace ps) = convert_ref env brace (convert_pieces env ps)"
  by (simp add: convert_pieces_def)

lemma wf_piece_Ref [simp]:
  "wf_piece env inner (Ref brace ps) = (list_all (wf_piece env True) ps
     \<and> length (show_pieces ps) < CF_BUFSIZE - 3 \<and> length (convert_pieces env ps) \<le> 1000)"
  by (simp add: show_pieces_def convert_pieces_def)

declare show_piece.simps(2) [simp del] convert_piece.simps(2) [simp del] wf_piece.simps(2) [simp del]

subsection \<open>The bracket scans\<close>

lemma bracket_chars [simp]:
  "open_of b \<noteq> CHR ''$''" "close_of b \<noteq> CHR ''$''" "(open_of b = CHR ''{'') = b"
  by (simp_all add: open_of_def close_of_def)

lemma opens_open_of [simp]: "opens (open_of b # s)"
  by (simp add: opens_def open_of_def)

lemma outer_scan_flat:
  "list_all (\<lambda>c. c \<notin> set ''(){}$'') s \<Longrightarrow> 0 < b \<Longrightarrow>
     outer_scan k True b True (s @ r) = outer_scan (k + length s) True b True r"
  by (induction s arbitrary: k) auto

lemma inner_scan_flat:
  "list_all (\<lambda>c. c \<notin> set ''(){}'') s \<Longrightarrow> 0 < b \<Longrightarrow>
     inner_scan k b (s @ r) = inner_scan (k + length s) b r"
  by (induction s arbitrary: k) auto

lemma outer_scan_open:
  "0 < b \<Longrightarrow> outer_scan k True b True (CHR ''$'' # open_of c # s) = outer_scan (k + 2) True (b + 1) True s"
  by (cases c) (simp_all add: opens_def open_of_def)

lemma outer_scan_close:
  "1 < b \<Longrightarrow> outer_scan k True b True (close_of c # s) = outer_scan (k + 1) True (b - 1) True s"
  by (cases c) (simp_all add: close_of_def)

lemma outer_scan_piece:
  "wf_piece env True p \<Longrightarrow> 0 < b \<Longrightarrow>
     outer_scan k True b True (show_piece p @ r) = outer_scan (k + length (show_piece p)) True b True r"
proof (induction p arbitrary: k b r)
  case (Lit s)
  then show ?case by (intro outer_scan_flat [THEN trans]) (auto simp: list_all_iff)
next
  case (Ref c ps)
  have "outer_scan k True b True (show_pieces qs @ r)
      = outer_scan (k + length (show_pieces qs)) True b True r"
    if "set qs \<subseteq> set ps" "0 < b" for qs k b r
    using that
  proof (induction qs arbitrary: k)
    case (Cons q qs)
    then have "wf_piece env True q" using Ref.prems(1) by (auto simp: list_all_iff)
    with Cons Ref.IH [of q b k "show_pieces qs @ r"] show ?case by (simp add: add.assoc)
  qed simp
  then have "outer_scan (k + 2) True (b + 1) True (show_pieces ps @ close_of c # r)
      = outer_scan (k + 2 + length (show_pieces ps)) True (b + 1) True (close_of c # r)"
    using Ref.prems(2) by simp
  also have "\<dots> = outer_scan (k + length (show_piece (Ref c ps))) True b True r"
    using Ref.prems(2) by (subst outer_scan_close) (simp_all add: add.commute)
  finally show ?case
    using Ref.prems(2) outer_scan_open by simp
qed

lemma inner_scan_piece:
  "wf_piece env True p \<Longrightarrow> 0 < b \<Longrightarrow>
     inner_scan k b (show_piece p @ r) = inner_scan (k + length (show_piece p)) b r"
proof (induction p arbitrary: k b r)
  case (Lit s)
  then show ?case by (intro inner_scan_flat [THEN trans]) (auto simp: list_all_iff)
next
  case (Ref c ps)
  have "inner_scan k b (show_pieces qs @ r) = inner_scan (k + length (show_pieces qs)) b r"
    if "set qs \<subseteq> set ps" "0 < b" for qs k b r
    using that
  proof (induction qs arbitrary: k)
    case (Cons q qs)
    then have "wf_piece env True q" using Ref.prems(1) by (auto simp: list_all_iff)
    with Cons Ref.IH [of q b k "show_pieces qs @ r"] show ?case by (simp add: add.assoc)
  qed simp
  then have "inner_scan (k + 2) (b + 1) (show_pieces ps @ close_of c # r)
      = inner_scan (k + 2 + length (show_pieces ps)) (b + 1) (close_of c # r)"
    using Ref.prems(2) by simp
  with Ref.prems(2) show ?case
    by (cases c) (simp_all add: open_of_def close_of_def add.commute)
qed

lemma outer_scan_pieces:
  "list_all (wf_piece env True) ps \<Longrightarrow> 0 < b \<Longrightarrow>
     outer_scan k True b True (show_pieces ps @ r) = outer_scan (k + length (show_pieces ps)) True b True r"
  by (induction ps arbitrary: k) (simp_all add: outer_scan_piece [of env] add.assoc)

lemma inner_scan_pieces:
  "list_all (wf_piece env True) ps \<Longrightarrow> 0 < b \<Longrightarrow>
     inner_scan k b (show_pieces ps @ r) = inner_scan (k + length (show_pieces ps)) b r"
  by (induction ps arbitrary: k) (simp_all add: inner_scan_piece [of env] add.assoc)

lemma ExtractOuter_Ref:
  assumes "wf_piece env inner (Ref b ps)"
  shows "ExtractOuterVarString (show_piece (Ref b ps) @ r) = Inr (Some (show_piece (Ref b ps)))"
proof -
  have "outer_scan 0 False 0 False (show_piece (Ref b ps) @ r)
      = outer_scan 2 True 1 True (show_pieces ps @ close_of b # r)"
    by (cases b) (simp_all add: opens_def open_of_def numeral_2_eq_2)
  also have "\<dots> = outer_scan (2 + length (show_pieces ps)) True 1 True (close_of b # r)"
    using assms by (subst outer_scan_pieces [of env]) simp_all
  also have "\<dots> = Some (length (show_piece (Ref b ps)))"
    by (cases b) (simp_all add: close_of_def)
  finally show ?thesis
    using assms by (simp add: ExtractOuterVarString_def CF_BUFSIZE_def del: outer_scan.simps)
qed

lemma ExtractInner_Ref:
  assumes "wf_piece env inner (Ref b ps)"
  shows "ExtractInnerVarString (show_piece (Ref b ps) @ r) = Inr (show_pieces ps)"
proof -
  have "inner_scan 0 1 (show_pieces ps @ close_of b # r)
      = inner_scan (length (show_pieces ps)) 1 (close_of b # r)"
    using assms by (subst inner_scan_pieces [of env]) simp_all
  also have "\<dots> = Some (length (show_pieces ps))"
    by (cases b) (simp_all add: close_of_def)
  finally show ?thesis
    using assms by (simp add: ExtractInnerVarString_def CF_BUFSIZE_def)
qed

subsection \<open>Names\<close>

lemma index_from_nth:
  "index_from P k xs = Some i \<Longrightarrow> \<exists>j. i = k + j \<and> j < length xs \<and> P (xs ! j)"
proof (induction xs arbitrary: k)
  case (Cons x xs)
  show ?case
  proof (cases "P x")
    case True
    with Cons.prems show ?thesis by auto
  next
    case False
    with Cons.prems Cons.IH [of "Suc k"] obtain j where "i = Suc k + j" "j < length xs" "P (xs ! j)"
      by auto
    then show ?thesis by (intro exI [of _ "Suc j"]) simp
  qed
qed simp

lemmas vname_defs = cfhost_def cffqhost_def cfipaddr_def cfclass_def cfarch_def cfarch2_def
  cfdate_def cfspc_def cftab_def cflf_def cfcr_def cfn_def cfdollar_def

definition converted_vars :: "nat list" where
  "converted_vars = [cfhost, cffqhost, cfipaddr, cfclass, cfarch, cfarch2, cfdate, cfspc, cftab,
     cflf, cfcr, cfn, cfdollar]"

lemma converted_vars_names:
  "v \<in> set converted_vars \<Longrightarrow> v < length VVNAMES \<and> map_of cf3_names (VVNAMES ! v) \<noteq> None"
proof -
  have "list_all (\<lambda>v. v < length VVNAMES \<and> map_of cf3_names (VVNAMES ! v) \<noteq> None) converted_vars"
    by code_simp
  then show "v \<in> set converted_vars \<Longrightarrow> ?thesis" by (simp add: list_all_iff)
qed

text \<open>The text of each converted variable, by its number.\<close>

definition var_texts :: "(nat \<times> string) list" where
  "var_texts = zip converted_vars (map snd cf3_names)"

lemma cf3_names_index:
  "map_of cf3_names low = Some t \<Longrightarrow>
     \<exists>i. index_from (\<lambda>v. v = low) 0 VVNAMES = Some i \<and> map_of var_texts i = Some t"
proof -
  have "list_all (\<lambda>(low, t). case index_from (\<lambda>v. v = low) 0 VVNAMES of
      None \<Rightarrow> False | Some i \<Rightarrow> map_of var_texts i = Some t) cf3_names"
    by code_simp
  moreover assume "map_of cf3_names low = Some t"
  ultimately show ?thesis
    by (auto simp: list_all_iff dest!: map_of_SomeD split: option.splits)
qed

lemma put_variable_other:
  "v \<notin> set converted_vars \<Longrightarrow>
     put_variable env b buffer item v = put_text buffer (other_variable (VARIABLES env) b item)"
  by (simp add: put_variable_def converted_vars_def)

lemma other_variable_short:
  "length item \<le> 1000 \<Longrightarrow> other_variable (VARIABLES env) b item =
     CHR ''$'' # open_of b # (if VARIABLES env then [] else ''g.'') @ item @ [close_of b]"
  by (auto simp: other_variable_def CF_MAXVARSIZE_def open_of_def close_of_def)

lemma put_text_fits: "length buffer + length t < CF_EXPANDSIZE \<Longrightarrow> put_text buffer t = Inr (buffer @ t)"
  by (simp add: put_text_def)

lemma put_checked_fits:
  "length buffer + length need \<le> CF_EXPANDSIZE - CF_BUFFERMARGIN \<Longrightarrow>
     length buffer + length t < CF_EXPANDSIZE \<Longrightarrow> put_checked buffer need t = Inr (buffer @ t)"
  by (simp add: put_checked_def put_text_def ExpandOverflow_def)

lemma put_variable_converted:
  assumes "map_of var_texts v = Some t"
    and "length buffer + length t + length (VARCH env) + length (VARCH2 env) + 1
       \<le> CF_EXPANDSIZE - CF_BUFFERMARGIN"
  shows "put_variable env b buffer item v = Inr (buffer @ t)"
proof -
  have "length buffer + length t < CF_EXPANDSIZE"
    "length buffer + length (VARCH env) \<le> CF_EXPANDSIZE - CF_BUFFERMARGIN"
    "length buffer + length (VARCH2 env) \<le> CF_EXPANDSIZE - CF_BUFFERMARGIN"
    "length buffer + 1 \<le> CF_EXPANDSIZE - CF_BUFFERMARGIN"
    using assms(2) by (simp_all add: CF_EXPANDSIZE_def CF_BUFFERMARGIN_def CF_BUFSIZE_def)
  then show ?thesis
    using assms(1)
    by (auto simp: var_texts_def converted_vars_def cf3_names_def put_variable_def vname_defs
        put_text_fits put_checked_fits split: if_splits)
qed

lemma convert_ref_put:
  assumes "length item \<le> 1000"
    and "length buffer + length (convert_ref env b item) + length (VARCH env) + length (VARCH2 env) + 1
       \<le> CF_EXPANDSIZE - CF_BUFFERMARGIN"
  shows "bind_outcome (ScanVariable item) (put_variable env b buffer item)
    = Inr (buffer @ convert_ref env b item)"
proof -
  let ?low = "until_nul (map ToLower item)"
  let ?v = "case index_from (\<lambda>v. v = ?low) 0 VVNAMES of None \<Rightarrow> length VVNAMES | Some i \<Rightarrow> i"
  have scan: "ScanVariable item = Inr ?v"
    using assms(1) by (simp add: ScanVariable_def ToLowerStr_def CF_BUFSIZE_def)
  show ?thesis
  proof (cases "map_of cf3_names ?low")
    case None
    have "?v = length VVNAMES \<or> VVNAMES ! ?v = ?low"
      by (auto split: option.splits dest: index_from_nth)
    then have "?v \<notin> set converted_vars"
      using None converted_vars_names by fastforce
    moreover have "put_text buffer (convert_ref env b item) = Inr (buffer @ convert_ref env b item)"
      using assms(2)
      by (intro put_text_fits) (simp add: CF_EXPANDSIZE_def CF_BUFFERMARGIN_def CF_BUFSIZE_def)
    ultimately show ?thesis
      using None assms(1) by (simp add: scan put_variable_other other_variable_short convert_ref_def)
  next
    case (Some t)
    with assms(2) put_variable_converted [of _ t buffer env b item] cf3_names_index [OF Some] scan
    show ?thesis by (auto simp: convert_ref_def)
  qed
qed

subsection \<open>The rewriting loop\<close>

text \<open>The room a text needs: what is in the buffer, the literal text ahead and the tested names.\<close>

definition fits :: "expand_env \<Rightarrow> nat \<Rightarrow> bool" where
  "fits env n \<longleftrightarrow> n + length (VARCH env) + length (VARCH2 env) + 1 \<le> CF_EXPANDSIZE - CF_BUFFERMARGIN"

lemma fits_mono: "fits env n \<Longrightarrow> m \<le> n \<Longrightarrow> fits env m"
  by (simp add: fits_def)

lemma scan_dollar_append:
  "CHR ''$'' \<notin> set s \<Longrightarrow> scan_not ''$'' (s @ t) = s @ scan_not ''$'' t"
  by (induction s) (auto simp: scan_not_def)

lemma expand_loop_Nil [simp]: "expand_loop env buffer [] = Inr buffer"
  by (subst expand_loop.simps) simp

lemma expand_loop_text:
  assumes "CHR ''$'' \<notin> set s" and "fits env (length buffer + length s + length (scan_not ''$'' t))"
  shows "expand_loop env buffer (s @ t) = expand_loop env (buffer @ s) t"
proof (cases "s = []")
  case False
  have fit: "\<not> CF_EXPANDSIZE \<le> length s + length (scan_not ''$'' t)"
    "\<not> CF_EXPANDSIZE \<le> length (scan_not ''$'' t)"
    "\<not> ExpandOverflow buffer (s @ scan_not ''$'' t)" "\<not> ExpandOverflow (buffer @ s) (scan_not ''$'' t)"
    using assms(2)
    by (simp_all add: fits_def ExpandOverflow_def CF_EXPANDSIZE_def CF_BUFFERMARGIN_def CF_BUFSIZE_def)
  show ?thesis
  proof (cases "t = []")
    case True
    then show ?thesis
      using False fit assms(1) by (simp add: expand_loop.simps [of env buffer s] scan_not_all)
  next
    case t: False
    show ?thesis
      using False t fit
      by (cases "drop (length (scan_not ''$'' t)) t") (simp_all add: expand_loop.simps [of env buffer "s @ t"] expand_loop.simps [of env "buffer @ s" t]
          scan_dollar_append [OF assms(1)] cong: if_cong)
  qed
qed simp

lemma no_dollar_text:
  "\<not> strstr (show_pieces ps) ''$'' \<Longrightarrow> show_pieces ps = convert_pieces env ps"
proof (induction ps)
  case (Cons p ps)
  then show ?case by (cases p) (simp_all add: strstr_single)
qed simp

lemma expand_loop_ref:
  assumes "wf_piece env inner (Ref b ps)"
    and "expand_loop env [] (show_pieces ps) = Inr (convert_pieces env ps)"
    and "fits env (length buffer + length (convert_piece env (Ref b ps)))"
  shows "expand_loop env buffer (show_piece (Ref b ps) @ t)
    = expand_loop env (buffer @ convert_piece env (Ref b ps)) t"
proof -
  let ?sp = "show_piece (Ref b ps) @ t" and ?item = "convert_pieces env ps"
  have scan: "scan_not ''$'' ?sp = []" by (simp add: scan_not_def)
  have ov: "\<not> ExpandOverflow buffer []"
    using assms(3) by (simp add: fits_def ExpandOverflow_def)
  have item: "(if strstr (show_pieces ps) ''$'' then expand_loop env [] (show_pieces ps)
      else Inr (show_pieces ps)) = Inr ?item"
    using assms(1,2) no_dollar_text [of ps env] by auto
  have put: "bind_outcome (ScanVariable ?item) (\<lambda>v. bind_outcome (put_variable env b buffer ?item v) f)
      = f (buffer @ convert_ref env b ?item)" for f :: "string \<Rightarrow> string outcome"
  proof -
    have "bind_outcome (ScanVariable ?item) (put_variable env b buffer ?item)
        = Inr (buffer @ convert_ref env b ?item)"
      using assms(1,3) by (intro convert_ref_put) (simp_all add: fits_def)
    then show ?thesis by (cases "ScanVariable ?item") simp_all
  qed
  have "expand_loop env buffer ?sp = bind_outcome (ExtractOuterVarString ?sp) (\<lambda>outer.
      bind_outcome (ExtractInnerVarString ?sp) (\<lambda>temp.
      bind_outcome (if strstr temp ''$'' then expand_loop env [] temp else Inr temp) (\<lambda>item.
      bind_outcome (ScanVariable item) (\<lambda>v. bind_outcome (put_variable env b buffer item v) (\<lambda>c.
        (let var = (case outer of None \<Rightarrow> [] | Some var \<Rightarrow> var) in
         if var = [] then expand_loop env c ?sp else expand_loop env c (drop (length var) ?sp)))))))"
    using scan ov by (subst expand_loop.simps) (simp add: CF_EXPANDSIZE_def CF_BUFSIZE_def cong: if_cong)
  also have "\<dots> = expand_loop env (buffer @ convert_ref env b ?item) t"
    by (simp only: ExtractOuter_Ref [OF assms(1)] ExtractInner_Ref [OF assms(1)]
        bind_outcome_simps item put) simp
  finally show ?thesis by simp
qed

lemma scan_show_pieces:
  "list_all (wf_piece env inner) ps \<Longrightarrow>
     length (scan_not ''$'' (show_pieces ps @ t)) \<le> length (convert_pieces env ps) + length (scan_not ''$'' t)"
proof (induction ps)
  case (Cons p ps)
  then show ?case
    by (cases p) (simp_all add: scan_dollar_append, simp add: scan_not_def)
qed simp

lemma expand_piece:
  "fits env 1000 \<Longrightarrow> wf_piece env inner p \<Longrightarrow>
     fits env (length buffer + length (convert_piece env p) + length (scan_not ''$'' t)) \<Longrightarrow>
     expand_loop env buffer (show_piece p @ t) = expand_loop env (buffer @ convert_piece env p) t"
proof (induction p arbitrary: inner buffer t)
  case (Lit s)
  then show ?case by (simp add: expand_loop_text)
next
  case (Ref b ps)
  have inner: "expand_loop env buf (show_pieces qs) = Inr (buf @ convert_pieces env qs)"
    if "set qs \<subseteq> set ps" "fits env (length buf + length (convert_pieces env qs))" for qs buf
    using that
  proof (induction qs arbitrary: buf)
    case (Cons q qs)
    have "list_all (wf_piece env True) (q # qs)"
      using Ref.prems(2) Cons.prems(1) by (auto simp: list_all_iff)
    then have q: "wf_piece env True q" and qs: "list_all (wf_piece env True) qs" by simp_all
    have "length (scan_not ''$'' (show_pieces qs)) \<le> length (convert_pieces env qs)"
      using scan_show_pieces [OF qs, of "[]"] by simp
    then have "fits env (length buf + length (convert_piece env q) + length (scan_not ''$'' (show_pieces qs)))"
      by (intro fits_mono [OF Cons.prems(2)]) simp
    with Ref.IH [OF _ Ref.prems(1) q] Cons.prems(1)
    have "expand_loop env buf (show_piece q @ show_pieces qs)
        = expand_loop env (buf @ convert_piece env q) (show_pieces qs)" by simp
    with Cons show ?case by (simp add: add.assoc)
  qed simp
  have "length (convert_pieces env ps) \<le> 1000" using Ref.prems(2) by simp
  then have "fits env (length (convert_pieces env ps))"
    by (rule fits_mono [OF Ref.prems(1)])
  with inner [of ps "[]"] have "expand_loop env [] (show_pieces ps) = Inr (convert_pieces env ps)"
    by simp
  from expand_loop_ref [OF Ref.prems(2) this] fits_mono [OF Ref.prems(3)] show ?case by simp
qed

lemma expand_pieces:
  "fits env 1000 \<Longrightarrow> list_all (wf_piece env inner) ps \<Longrightarrow>
     fits env (length buffer + length (convert_pieces env ps)) \<Longrightarrow>
     expand_loop env buffer (show_pieces ps) = Inr (buffer @ convert_pieces env ps)"
proof (induction ps arbitrary: buffer)
  case (Cons p ps)
  from Cons.prems(2) have p: "wf_piece env inner p" and ps: "list_all (wf_piece env inner) ps"
    by simp_all
  have "length (scan_not ''$'' (show_pieces ps)) \<le> length (convert_pieces env ps)"
    using scan_show_pieces [OF ps, of "[]"] by simp
  then have "fits env (length buffer + length (convert_piece env p) + length (scan_not ''$'' (show_pieces ps)))"
    by (intro fits_mono [OF Cons.prems(3)]) simp
  from expand_piece [OF Cons.prems(1) p this] Cons.IH [OF Cons.prems(1) ps] Cons.prems(3)
  show ?case by (simp add: add.assoc)
qed simp

subsection \<open>Properties of the rewriting\<close>

text \<open>
  C22. \<open>ExpandVarstring\<close> translates: on the text of any template, nested references included, it
  returns the text with every reference replaced by its cfengine 3 form, the names of cfengine 2's
  own variables mapped to \<open>sys\<close> variables and all others qualified, provided the result fits.
\<close>

theorem ExpandVarstring_converts:
  assumes "list_all (wf_piece env False) ps" and "fits env 1000"
    and "fits env (length (convert_pieces env ps))"
  shows "ExpandVarstring env (Some (show_pieces ps)) = Inr (convert_pieces env ps)"
proof (cases "show_pieces ps = []")
  case True
  then have "convert_pieces env ps = []"
    using no_dollar_text [of ps env] by (simp add: True)
  with True show ?thesis by (simp add: ExpandVarstring_def)
next
  case False
  with expand_pieces [OF assms(2,1), of "[]"] assms(3) show ?thesis
    by (simp add: ExpandVarstring_def)
qed

theorem ExpandVarstring_converts_witness:
  "ExpandVarstring \<lparr>VARIABLES = False, VARCH = ''i686'', VARCH2 = ''linux''\<rparr> (Some ''/a/$(host)/${x$(y)}'')
    = Inr ''/a/$(sys.uqhost)/${g.x$(g.y)}''"
proof -
  let ?env = "\<lparr>VARIABLES = False, VARCH = ''i686'', VARCH2 = ''linux''\<rparr>"
  let ?ps = "[Lit ''/a/'', Ref False [Lit ''host''], Lit ''/'', Ref True [Lit ''x'', Ref False [Lit ''y'']]]"
  have shown: "show_pieces ?ps = ''/a/$(host)/${x$(y)}''"
    by (simp add: open_of_def close_of_def)
  have low: "until_nul (map ToLower ''host'') = ''host''" "until_nul (map ToLower ''y'') = ''y''"
    "until_nul (map ToLower ''x$(g.y)'') = ''x$(g.y)''" by code_simp+
  have conv: "convert_pieces ?env ?ps = ''/a/$(sys.uqhost)/${g.x$(g.y)}''"
    using low by (simp add: convert_ref_def cf3_names_def open_of_def close_of_def)
  have "list_all (wf_piece ?env False) ?ps"
    using low by (simp add: convert_ref_def cf3_names_def open_of_def close_of_def CF_BUFSIZE_def)
  then show ?thesis
    using ExpandVarstring_converts [of ?env ?ps] unfolding shown conv
    by (simp add: fits_def CF_EXPANDSIZE_def CF_BUFFERMARGIN_def CF_BUFSIZE_def)
qed

end
