(* ===== verification/Variables.thy ===== *)
theory Variables
  imports VarTemplate
begin

text \<open>
  The variables of a scope as their users see them: what is read after \<open>AddMacroValue\<close>, what a
  deletion uncovers, the options \<open>TrueVar\<close> reads, and the functions that take list elements
  out of strings.
\<close>

subsection \<open>Scopes after a store\<close>

lemma ObjectContext_put:
  "ObjectContext (st\<lparr>VOBJ := put_table (VOBJ st) s tab\<rparr>) s' =
     map_option (\<lambda>cp. if s' = s then cp\<lparr>table := tab\<rparr> else cp) (ObjectContext st s')"
proof -
  have "List.find (\<lambda>cp. scope cp = s') (put_table cps s tab)
      = map_option (\<lambda>cp. if s' = s then cp\<lparr>table := tab\<rparr> else cp) (List.find (\<lambda>cp. scope cp = s') cps)"
    for cps by (induction cps) (auto simp: option.map_ident)
  then show ?thesis by (simp add: ObjectContext_def)
qed

lemma ObjectContext_scope: "ObjectContext st s = Some cp \<Longrightarrow> scope cp = s"
  by (auto simp: ObjectContext_def find_Some_iff)

lemma scope_and_name_object:
  "scope_and_name st s m = Inr (cp, v) \<Longrightarrow> ObjectContext st (scope cp) = Some cp"
  using ObjectContext_scope [of st s cp] ObjectContext_scope [of st "scan_not ''.'' m" cp]
  by (auto simp: scope_and_name_def split: if_splits option.splits)

lemma scope_and_name_put:
  assumes "scope_and_name st s' m = Inr (cp, v)"
  shows "scope_and_name (st\<lparr>VOBJ := put_table (VOBJ st) s tab\<rparr>) s' m
    = Inr (if scope cp = s then cp\<lparr>table := tab\<rparr> else cp, v)"
  using assms
  by (auto simp: scope_and_name_def ObjectContext_put dest: ObjectContext_scope
      split: if_splits option.splits)

lemma stored_value_fits:
  "length n + length e + 2 \<le> CF_BUFSIZE \<Longrightarrow> stored_value n e = Some (Inr (Some e))"
  by (simp add: stored_value_def)

text \<open>
  C23. What \<open>AddMacroValue\<close> stores is what \<open>GetMacroValue\<close> reads: after a variable is given a value in
  a scope that has room for it, looking it up in that scope yields the rewritten value, and every
  other variable, of this scope or another, reads as before.
\<close>

theorem AddMacroValue_read_back:
  assumes "ObjectContext st s = Some cp" and "room (table cp) n"
    and "\<not> strstr n ''.''" and "length n < CF_MAXVARSIZE"
    and "\<not> strstr v (''${'' @ n @ ''}'')" and "\<not> strstr v (''$('' @ n @ '')'')"
    and "ExpandVarstring env (Some v) = Inr e" and "length n + length e + 2 \<le> CF_BUFSIZE"
  shows "\<exists>st'. AddMacroValue env CF_HASHTABLESIZE st (Some s) (Some n) (Some v) = Some (Inr st')
    \<and> GetMacroValue getenv CF_HASHTABLESIZE st' s n = Some (Inr (Some e))
    \<and> (\<forall>s' m cp' m'. scope_and_name st s' m = Inr (cp', m') \<and> (scope cp' \<noteq> s \<or> m' \<noteq> n) \<longrightarrow>
         GetMacroValue getenv CF_HASHTABLESIZE st' s' m = GetMacroValue getenv CF_HASHTABLESIZE st s' m)"
proof (intro exI conjI allI impI)
  let ?tab = "table_put (table cp) n e"
  let ?st = "st\<lparr>VOBJ := put_table (VOBJ st) s ?tab\<rparr>"
  note scope = ObjectContext_scope [OF assms(1)]
  show "AddMacroValue env CF_HASHTABLESIZE st (Some s) (Some n) (Some v) = Some (Inr ?st)"
    using assms table_put_room [OF assms(2), of e] by (simp add: AddMacroValue_def)
  have "scope_and_name st s n = Inr (cp, n)"
    using assms(1,3,4) by (simp add: scope_and_name_def)
  from scope_and_name_put [OF this, of s ?tab] scope
  show "GetMacroValue getenv CF_HASHTABLESIZE ?st s n = Some (Inr (Some e))"
    using cells.val_same [OF assms(2), of getenv e] stored_value_fits [OF assms(8)]
    by (simp add: GetMacroValue_def table_val_def)
  fix s' m cp' m'
  assume other: "scope_and_name st s' m = Inr (cp', m') \<and> (scope cp' \<noteq> s \<or> m' \<noteq> n)"
  then show "GetMacroValue getenv CF_HASHTABLESIZE ?st s' m = GetMacroValue getenv CF_HASHTABLESIZE st s' m"
    using scope_and_name_put [of st s' m cp' m' s ?tab] cells.val_other [OF assms(2), of m' getenv e]
      scope_and_name_object [of st s' m cp' m'] assms(1)
    by (auto simp: GetMacroValue_def table_val_def scope)
qed

theorem AddMacroValue_read_back_witness:
  "\<exists>st'. AddMacroValue \<lparr>VARIABLES = False, VARCH = [], VARCH2 = []\<rparr> CF_HASHTABLESIZE
       (SetContext \<lparr>VOBJ = [], CONTEXT = []\<rparr> ''main'') (Some ''main'') (Some ''dir'') (Some ''/tmp'') = Some (Inr st')
    \<and> GetMacroValue (\<lambda>_. None) CF_HASHTABLESIZE st' ''main'' ''dir'' = Some (Inr (Some ''/tmp''))"
proof -
  let ?env = "\<lparr>VARIABLES = False, VARCH = [], VARCH2 = []\<rparr>"
  let ?st = "SetContext \<lparr>VOBJ = [], CONTEXT = []\<rparr> ''main''"
  have hash: "Hash ''dir'' = 975" by code_simp
  have "ExpandVarstring ?env (Some ''/tmp'') = Inr ''/tmp''"
    using expand_pieces [of ?env False "[Lit ''/tmp'']" "[]"]
    by (simp add: ExpandVarstring_def fits_def CF_EXPANDSIZE_def CF_BUFFERMARGIN_def CF_BUFSIZE_def)
  moreover have "room InitHashTable ''dir''"
    by (auto simp: room_def hash InitHashTable_def wf_table_def var_name_def CF_MAXVARSIZE_def
        CF_HASHTABLESIZE_def)
  ultimately show ?thesis
    using AddMacroValue_read_back [of ?st "''main''" "\<lparr>scope = ''main'', table = InitHashTable\<rparr>"
        "''dir''" "''/tmp''" ?env "''/tmp''" "\<lambda>_. None"]
    by (auto simp: SetContext_def InstallObject_def ObjectContext_def CF_MAXVARSIZE_def CF_BUFSIZE_def)
qed

subsection \<open>Deletion\<close>

lemma Hash_room_empty:
  "var_name n \<Longrightarrow> 0 \<le> Hash n \<Longrightarrow> slot_of n < CF_HASHTABLESIZE - 1 \<Longrightarrow> wf_table tab \<Longrightarrow>
     tab (slot_of n) = None \<Longrightarrow> table_put tab n e = tab(slot_of n := Some (cell_text n e))"
  by (simp add: table_put_def store_macro_wf)

lemma wf_table_delete: "wf_table tab \<Longrightarrow> wf_table (tab(i := None))"
  by (simp add: wf_table_def)

lemma delete_cell_slot:
  "wf_table tab \<Longrightarrow> 0 \<le> Hash n \<Longrightarrow> holds tab n (slot_of n) \<Longrightarrow>
     delete_cell fuel tab n = Some (Inr (tab(slot_of n := None)))"
  using CompareMacro_holds [of tab n "slot_of n"] by (auto simp: delete_cell_def)

text \<open>
  Deleting a variable can bring back a value it had before: when two names share a slot and the
  first is deleted, the second is stored a second time, in front of its old cell, and deleting it
  removes only the new cell.
\<close>

lemma DeleteMacro_uncovers_old_value:
  assumes "var_name a" and "var_name b" and "a \<noteq> b" and "Hash a = Hash b" and "0 < Hash b"
    and "slot_of b + 1 < CF_HASHTABLESIZE - 1" and "length b + length old + 2 \<le> CF_BUFSIZE"
  shows "\<exists>t3 t5. delete_cell fuel (table_put (table_put InitHashTable a x) b old) a = Some (Inr t3)
    \<and> delete_cell fuel (table_put t3 b new) b = Some (Inr t5)
    \<and> table_val getenv t5 b = Some (Inr (Some old))"
proof -
  let ?h = "slot_of b"
  define t1 where "t1 = InitHashTable(?h := Some (cell_text a x))"
  define t2 where "t2 = t1(?h + 1 := Some (cell_text b old))"
  define t3 where "t3 = t2(?h := None)"
  define t4 where "t4 = t3(?h := Some (cell_text b new))"
  define t5 where "t5 = t4(?h := None)"
  note defs = t1_def t2_def t3_def t4_def t5_def
  have names: "scan_not ''='' (cell_text a y) = a" "scan_not ''='' (cell_text b y) = b" for y
    using assms(1,2) by (simp_all add: cell_text_name)
  have wf: "wf_table t1" "wf_table t2" "wf_table t3" "wf_table t4" "wf_table t5"
    unfolding defs
    by (intro cell_text_wf wf_table_delete assms(1,2) InitHashTable_wf)+
  have h: "?h < CF_HASHTABLESIZE - 1" "next_cell ?h = ?h + 1"
    using assms(6) by (simp_all add: next_cell_def)
  have "table_put InitHashTable a x = t1"
    using Hash_room_empty [OF assms(1) _ _ InitHashTable_wf, of x] assms(4,5) h(1)
    by (simp add: t1_def) (simp add: InitHashTable_def)
  moreover have "table_put t1 b old = t2"
  proof -
    have "t1 ?h \<noteq> None" "\<not> holds t1 b ?h" "t1 (?h + 1) = None"
      using assms(3) names by (simp_all add: t1_def holds_def InitHashTable_def)
    then have "store_probe (Suc f) t1 b (cell_text b old) ?h ?h = Some (Inr t2)" for f
      using store_probe_step [OF wf(1) h(1)] by (simp add: t2_def)
    from this [of "CF_HASHTABLESIZE - 1"] \<open>t1 ?h \<noteq> None\<close> \<open>\<not> holds t1 b ?h\<close> assms(5) show ?thesis
      by (auto simp: table_put_def store_macro_wf wf(1) CF_HASHTABLESIZE_def)
  qed
  moreover have "delete_cell fuel t2 a = Some (Inr t3)"
    using delete_cell_slot [OF wf(2), of a fuel] assms(4,5) names
    by (simp add: t3_def) (simp add: t1_def t2_def holds_def)
  moreover have "table_put t3 b new = t4"
    using Hash_room_empty [OF assms(2) _ h(1) wf(3)] assms(5) by (simp add: t4_def t3_def)
  moreover have "delete_cell fuel t4 b = Some (Inr t5)"
    using delete_cell_slot [OF wf(4), of b fuel] assms(5) names
    by (simp add: t5_def) (simp add: t4_def holds_def)
  moreover have "find_cell CF_HASHTABLESIZE t5 b = Some (Inr (Some (?h + 1)))"
  proof -
    have "\<not> holds t5 b ?h" "holds t5 b (?h + 1)"
      using names by (simp_all add: defs holds_def)
    then have "get_probe (Suc f) t5 b ?h ?h = Some (Inr (Some (?h + 1)))" for f
      using get_probe_step [OF wf(5)] h(2) by simp
    from this [of "CF_HASHTABLESIZE - 1"] \<open>\<not> holds t5 b ?h\<close> assms(5) show ?thesis
      by (simp add: find_cell_wf wf(5) CF_HASHTABLESIZE_def)
  qed
  moreover have "t5 (?h + 1) = Some (cell_text b old)" by (simp add: defs)
  ultimately show ?thesis
    using cell_text_value [OF assms(2), of old] assms(7) by (simp add: table_val_def get_macro_def)
qed

lemma DeleteMacro_uncovers_old_value_witness:
  "\<exists>t3 t5. delete_cell 5 (table_put (table_put InitHashTable ''b0'' ''1'') ''am'' ''old'') ''b0'' = Some (Inr t3)
    \<and> delete_cell 5 (table_put t3 ''am'' ''new'') ''am'' = Some (Inr t5)
    \<and> table_val (\<lambda>_. None) t5 ''am'' = Some (Inr (Some ''old''))"
proof -
  have "Hash ''b0'' = 1057" "Hash ''am'' = 1057" by code_simp+
  then show ?thesis
    by (intro DeleteMacro_uncovers_old_value)
      (simp_all add: var_name_def CF_MAXVARSIZE_def CF_HASHTABLESIZE_def CF_BUFSIZE_def)
qed

subsection \<open>Elements of lists in strings\<close>

lemma skip_elements_stuck:
  "sep \<noteq> CHR '':'' \<Longrightarrow> skip_elements n sep (sep # r) = sep # r"
  by (induction n) simp_all

text \<open>
  With a separator other than the colon, \<open>GetSepElement\<close> cannot step over a separator: every
  element but the first is returned as the empty string.
\<close>

lemma GetSepElement_other_separator:
  assumes "sep \<noteq> CHR '':''" and "sep \<in> set from" and "0 < index" and "length from < CF_BUFSIZE"
  shows "GetSepElement from index sep = Inr []"
proof -
  obtain i where i: "index = Suc i" using assms(3) by (cases index) auto
  obtain u r where "from = u @ sep # r" "sep \<notin> set u" using split_list_first [OF assms(2)] by auto
  moreover from this have "\<forall>c \<in> set u. c \<noteq> sep" by auto
  ultimately have "dropWhile (\<lambda>c. c \<noteq> sep) from = sep # r" by simp
  with assms i show ?thesis
    by (simp add: GetSepElement_def skip_elements_stuck)
qed

lemma GetSepElement_other_separator_witness: "GetSepElement ''a,b,c'' 1 CHR '','' = Inr []"
  by (rule GetSepElement_other_separator) (simp_all add: CF_BUFSIZE_def)

definition escape :: "char \<Rightarrow> string \<Rightarrow> string" where
  "escape sep s = concat (map (\<lambda>c. if c = sep then [CHR 0x5C, sep] else [c]) s)"

lemma split_string_escape:
  assumes "sep \<noteq> CHR 0x5C"
  shows "CHR 0x5C \<notin> set s \<Longrightarrow> length before + length s + 1 < CF_BUFSIZE \<Longrightarrow> prev \<noteq> Some (CHR 0x5C) \<Longrightarrow>
    \<exists>prev'. prev' \<noteq> Some (CHR 0x5C) \<and>
      (\<forall>t. split_string sep prev before (escape sep s @ t) = split_string sep prev' (before @ s) t)"
proof (induction s arbitrary: before prev)
  case Nil
  then show ?case by (auto simp: escape_def)
next
  case (Cons c s)
  have "c \<noteq> CHR 0x5C" using Cons.prems(1) by auto
  with Cons.prems Cons.IH [of "before @ [c]" "Some c"] assms show ?case
    by (auto simp: escape_def)
qed

text \<open>
  \<open>SplitString\<close> undoes joining: elements without backslashes, with their separators escaped and
  joined by the separator, are split into the elements.
\<close>

lemma SplitString_join:
  assumes "ts \<noteq> []" and "sep \<noteq> CHR 0x5C"
    and "\<forall>t \<in> set ts. CHR 0x5C \<notin> set t \<and> length t + 1 < CF_BUFSIZE"
  shows "\<exists>items. SplitString (join_names sep (map (escape sep) ts)) sep = Inr items
    \<and> map it_name items = ts"
proof -
  have "\<exists>items. split_string sep prev [] (join_names sep (map (escape sep) ts)) = Inr items
      \<and> map it_name items = ts" if "prev \<noteq> Some (CHR 0x5C)" for prev
    using assms(1,3) that
  proof (induction ts arbitrary: prev)
    case (Cons t us)
    from split_string_escape [OF assms(2), of t "[]" prev] Cons.prems
    obtain prev' where prev': "prev' \<noteq> Some (CHR 0x5C)"
      "\<And>r. split_string sep prev [] (escape sep t @ r) = split_string sep prev' t r" by auto
    show ?case
    proof (cases us)
      case Nil
      with prev'(2) [of "[]"] show ?thesis by simp
    next
      case (Cons u vs)
      with Cons.IH [of "Some sep"] Cons.prems assms(2) obtain items where
        "split_string sep (Some sep) [] (join_names sep (map (escape sep) us)) = Inr items"
        "map it_name items = us" by auto
      with prev' Cons show ?thesis by simp
    qed
  qed simp
  then show ?thesis by (simp add: SplitString_def)
qed

lemma SplitString_join_witness:
  "\<exists>items. SplitString (''a'' @ [CHR 0x5C] @ '':b:c'') CHR '':'' = Inr items \<and> map it_name items = [''a:b'', ''c'']"
  using SplitString_join [of "[''a:b'', ''c'']" "CHR '':''"] by (simp add: escape_def CF_BUFSIZE_def)

end
