(* ===== verification/TwoDList.thy ===== *)
theory TwoDList
  imports Variables
begin

text \<open>
  2Dlist.c: a string with list variables, cut into fragments each of which is a list of
  alternatives, and the iteration over the strings it stands for. The working pointer of a fragment
  is the rest of its list, empty for NULL. \<open>rounds\<close> is a \<open>short\<close>.
\<close>

subsection \<open>Fragments\<close>

record tdl =
  is2d :: bool
  rounds :: int
  tied :: bool
  ilist :: "item list"
  current :: "item list"

definition short_int :: "int \<Rightarrow> int" where
  "short_int n = (n + 32768) mod 65536 - 32768"

definition two_dim_item :: "item list \<Rightarrow> tdl" where
  "two_dim_item itemlist = \<lparr>is2d = (1 < length itemlist), rounds = 0, tied = False,
     ilist = itemlist, current = itemlist\<rparr>"

definition AppendTwoDimItem :: "tdl list \<Rightarrow> item list \<Rightarrow> tdl list" where
  "AppendTwoDimItem ls itemlist = ls @ [two_dim_item itemlist]"

definition Set2DList :: "tdl list \<Rightarrow> tdl list" where
  "Set2DList ls = map (\<lambda>tp. tp\<lparr>current := ilist tp\<rparr>) ls"

text \<open>The separator the caller passes is overwritten.\<close>

fun append_fragments :: "tdl list \<Rightarrow> item list \<Rightarrow> tdl list outcome" where
  "append_fragments ls [] = Inr ls"
| "append_fragments ls (ip # ips) =
     bind_outcome (SplitString (it_name ip) CHR 0xB6) (\<lambda>items.
       append_fragments (AppendTwoDimItem ls items) ips)"

definition Build2DListFromVarstring :: "expand_env \<Rightarrow> tdl list \<Rightarrow> string option \<Rightarrow> bool \<Rightarrow> tdl list outcome" where
  "Build2DListFromVarstring env ls varstring tie = (case varstring of
       None \<Rightarrow> Inr (AppendTwoDimItem ls [])
     | Some s \<Rightarrow>
         bind_outcome (SplitVarstring env s) (\<lambda>basis.
         bind_outcome (append_fragments ls basis) (\<lambda>ls'.
           Inr (case ls' of [] \<Rightarrow> [] | tp # tps \<Rightarrow> tp\<lparr>tied := tie\<rparr> # tps))))"

subsection \<open>The iteration\<close>

text \<open>\<open>True\<close> is \<open>TD_wrapped\<close>. Fragments without alternatives are passed over.\<close>

fun IncrementTwoDimList :: "tdl list \<Rightarrow> tdl list \<times> bool" where
  "IncrementTwoDimList [] = ([], True)"
| "IncrementTwoDimList (tp # tps) =
     (case IncrementTwoDimList tps of (tps', wrapped) \<Rightarrow>
        if \<not> is2d tp then (tp # tps', wrapped)
        else if wrapped then
          (if tl (current tp) = []
           then (tp\<lparr>current := ilist tp, rounds := short_int (rounds tp + 1)\<rparr> # tps', True)
           else (tp\<lparr>current := tl (current tp)\<rparr> # tps', False))
        else (tp # tps', False))"

fun TieIncrementTwoDimList :: "tdl list \<Rightarrow> tdl list outcome" where
  "TieIncrementTwoDimList [] = Inr []"
| "TieIncrementTwoDimList (tp # tps) =
     (if is2d tp then
        (if current tp = [] then Inl (Undefined ''TieIncrementTwoDimList: NULL current'')
         else (let tp' = tp\<lparr>current := tl (current tp)\<rparr>;
                   tp'' = (if current tp' = [] then tp'\<lparr>rounds := 1\<rparr> else tp') in
           bind_outcome (TieIncrementTwoDimList tps) (\<lambda>r. Inr (tp'' # r))))
      else bind_outcome (TieIncrementTwoDimList tps) (\<lambda>r. Inr (tp\<lparr>rounds := 1\<rparr> # r)))"

text \<open>
  The loop of \<open>EndOfTwoDimList\<close>: the last list fragment seen and the flag \<open>done\<close>; it stops at the
  second fragment that has not been round yet, or at the first for shell commands.
\<close>

fun end_scan :: "tdl option \<Rightarrow> bool \<Rightarrow> tdl list \<Rightarrow> tdl option \<times> bool" where
  "end_scan tp fin [] = (tp, fin)"
| "end_scan tp fin (lp # lps) =
     (let tp' = (if is2d lp then Some lp else tp) in
      if rounds lp = 0 then (if \<not> fin then (tp', fin) else end_scan tp' False lps)
      else end_scan tp' fin lps)"

definition EndOfTwoDimList :: "bool \<Rightarrow> tdl list \<Rightarrow> tdl list \<times> bool" where
  "EndOfTwoDimList shellcommands ls = (case end_scan None (\<not> shellcommands) ls of (tp, fin) \<Rightarrow>
     (case ls of
        [] \<Rightarrow> (ls, True)
      | l # rest \<Rightarrow>
          if fin then (ls, True)
          else (case tp of
              None \<Rightarrow> if rounds l = 0 then (l\<lparr>rounds := 1\<rparr> # rest, False) else (ls, True)
            | Some t \<Rightarrow> (ls, rounds t > 0))))"

fun entry_loop :: "string \<Rightarrow> tdl list \<Rightarrow> string outcome" where
  "entry_loop entry [] = Inr entry"
| "entry_loop entry (tp # tps) = (case current tp of
       [] \<Rightarrow> entry_loop entry tps
     | c # _ \<Rightarrow>
         if length entry + length (it_name c) < CF_EXPANDSIZE - CF_BUFFERMARGIN
         then entry_loop (entry @ it_name c) tps
         else Inl (FatalErr ''Buffer overflow during variable expansion''))"

definition Get2DListEnt :: "bool \<Rightarrow> tdl list \<Rightarrow> (tdl list \<times> string option) outcome" where
  "Get2DListEnt shellcommands ls = (case EndOfTwoDimList shellcommands ls of (ls', ended) \<Rightarrow>
     if ended then Inr (ls', None)
     else bind_outcome (entry_loop [] ls') (\<lambda>entry.
       bind_outcome
         (if ls' \<noteq> [] \<and> tied (hd ls') then TieIncrementTwoDimList ls'
          else Inr (fst (IncrementTwoDimList ls')))
         (\<lambda>ls''. Inr (ls'', Some entry))))"

text \<open>The callers' loop: the entries until NULL is returned, at most \<open>fuel\<close> of them.\<close>

fun all_entries :: "nat \<Rightarrow> bool \<Rightarrow> tdl list \<Rightarrow> string list outcome option" where
  "all_entries 0 shellcommands ls = None"
| "all_entries (Suc fuel) shellcommands ls = (case Get2DListEnt shellcommands ls of
       Inl e \<Rightarrow> Some (Inl e)
     | Inr (ls', None) \<Rightarrow> Some (Inr [])
     | Inr (ls', Some entry) \<Rightarrow>
         map_option (\<lambda>r. bind_outcome r (\<lambda>es. Inr (entry # es))) (all_entries fuel shellcommands ls'))"

subsection \<open>The strings a list of fragments stands for\<close>

fun product :: "string list list \<Rightarrow> string list" where
  "product [] = [[]]"
| "product (xs # xss) = concat (map (\<lambda>x. map (\<lambda>y. x @ y) (product xss)) xs)"

abbreviation alternatives :: "tdl \<Rightarrow> string list" where "alternatives tp \<equiv> map it_name (ilist tp)"

text \<open>What is still to come from a position on, the entry at the position included.\<close>

fun remaining :: "tdl list \<Rightarrow> string list" where
  "remaining [] = [[]]"
| "remaining (tp # tps) =
     (case current tp of
        [] \<Rightarrow> remaining tps
      | c # cs \<Rightarrow> map (\<lambda>y. it_name c @ y) (remaining tps)
                   @ concat (map (\<lambda>x. map (\<lambda>y. it_name x @ y) (product (map alternatives tps))) cs))"

fun entry_of :: "tdl list \<Rightarrow> string" where
  "entry_of [] = []"
| "entry_of (tp # tps) = (case current tp of [] \<Rightarrow> [] | c # _ \<Rightarrow> it_name c) @ entry_of tps"

definition wf_tdl :: "tdl \<Rightarrow> bool" where
  "wf_tdl tp \<longleftrightarrow> ilist tp \<noteq> [] \<and> is2d tp = (1 < length (ilist tp))
     \<and> (\<exists>k < length (ilist tp). current tp = drop k (ilist tp))"

definition reset :: "tdl \<Rightarrow> tdl" where
  "reset tp = tp\<lparr>current := ilist tp, rounds := (if is2d tp then short_int (rounds tp + 1) else rounds tp)\<rparr>"

lemma product_nonempty: "\<forall>xs \<in> set xss. xs \<noteq> [] \<Longrightarrow> product xss \<noteq> []"
  by (induction xss) (auto simp: neq_Nil_conv)

lemma remaining_start:
  "list_all wf_tdl tps \<Longrightarrow> list_all (\<lambda>tp. current tp = ilist tp) tps \<Longrightarrow>
     remaining tps = product (map alternatives tps)"
  by (induction tps) (auto simp: wf_tdl_def comp_def split: list.splits)

lemma alternatives_upd [simp]:
  "alternatives (tp\<lparr>current := c\<rparr>) = alternatives tp" "alternatives (tp\<lparr>rounds := r\<rparr>) = alternatives tp"
  by simp_all

lemma wf_advance:
  "wf_tdl tp \<Longrightarrow> tl (current tp) \<noteq> [] \<Longrightarrow> wf_tdl (tp\<lparr>current := tl (current tp)\<rparr>)"
proof -
  assume wf: "wf_tdl tp" and tl: "tl (current tp) \<noteq> []"
  then obtain k where "k < length (ilist tp)" "current tp = drop k (ilist tp)"
    by (auto simp: wf_tdl_def)
  moreover from this have "tl (current tp) = drop (Suc k) (ilist tp)"
    by (simp add: drop_Suc drop_tl)
  moreover from this tl have "Suc k < length (ilist tp)" by simp
  ultimately show ?thesis using wf unfolding wf_tdl_def by auto
qed

lemma wf_reset: "wf_tdl tp \<Longrightarrow> wf_tdl (tp\<lparr>current := ilist tp, rounds := r\<rparr>)"
  by (auto simp: wf_tdl_def intro!: exI [of _ 0])

lemma wf_plain: "wf_tdl tp \<Longrightarrow> \<not> is2d tp \<Longrightarrow> \<exists>c. ilist tp = [c] \<and> current tp = [c]"
  by (auto simp: wf_tdl_def not_less le_Suc_eq length_Suc_conv)

lemma wf_current: "wf_tdl tp \<Longrightarrow> current tp \<noteq> []"
  by (auto simp: wf_tdl_def)

lemma Increment_alternatives:
  "map alternatives (fst (IncrementTwoDimList tps)) = map alternatives tps"
  by (induction tps) (auto split: prod.splits)

lemma Increment_wf: "list_all wf_tdl tps \<Longrightarrow> list_all wf_tdl (fst (IncrementTwoDimList tps))"
  by (induction tps) (auto simp: wf_advance wf_reset split: prod.splits)

lemma Increment_remaining:
  "list_all wf_tdl tps \<Longrightarrow> IncrementTwoDimList tps = (tps', w) \<Longrightarrow>
     (if w then remaining tps = [entry_of tps] \<and> tps' = map reset tps
      else remaining tps = entry_of tps # remaining tps')"
proof (induction tps arbitrary: tps' w)
  case (Cons tp tps)
  obtain r v where rv: "IncrementTwoDimList tps = (r, v)" by fastforce
  have tp: "wf_tdl tp" and tps: "list_all wf_tdl tps" using Cons.prems(1) by simp_all
  note IH = Cons.IH [OF tps rv]
  have same: "map alternatives r = map alternatives tps"
    using Increment_alternatives [of tps] rv by simp
  obtain c cs where cs: "current tp = c # cs" using wf_current [OF tp] by (cases "current tp") auto
  have restart: "remaining (map reset tps) = product (map alternatives tps)"
    using tps by (subst remaining_start) (auto simp: list_all_iff reset_def wf_reset comp_def)
  show ?case
  proof (cases "is2d tp")
    case False
    with wf_plain [OF tp] cs have "cs = []" "ilist tp = [c]" by auto
    with False Cons.prems(2) IH rv cs show ?thesis by (auto simp: reset_def)
  next
    case True
    show ?thesis
    proof (cases v)
      case False
      with True Cons.prems(2) IH rv cs same show ?thesis by auto
    next
      case v: True
      with IH have r: "remaining tps = [entry_of tps]" "r = map reset tps" by simp_all
      show ?thesis
      proof (cases cs)
        case Nil
        with True v Cons.prems(2) rv cs r show ?thesis by (auto simp: reset_def)
      next
        case (Cons d ds)
        moreover have "product (map (alternatives \<circ> reset) tps) = product (map alternatives tps)"
          by (simp add: reset_def comp_def)
        ultimately show ?thesis using True v Cons.prems(2) rv cs r restart by auto
      qed
    qed
  qed
qed simp

lemma Increment_rounds:
  "IncrementTwoDimList tps = (tps', w) \<Longrightarrow>
     list_all2 (\<lambda>a b. is2d b = is2d a \<and> tied b = tied a
       \<and> (rounds b = rounds a \<or> is2d a \<and> rounds b = short_int (rounds a + 1))) tps tps'"
  by (induction tps arbitrary: tps' w)
    (auto simp: list_all2_same split: prod.splits if_splits intro!: list.rel_refl_strong)

subsection \<open>The whole iteration\<close>

lemma short_int_id: "- 32768 \<le> n \<Longrightarrow> n < 32768 \<Longrightarrow> short_int n = n"
  by (simp add: short_int_def)

lemma entry_loop_entry:
  "length entry + length (entry_of tps) < CF_EXPANDSIZE - CF_BUFFERMARGIN \<Longrightarrow>
     entry_loop entry tps = Inr (entry @ entry_of tps)"
  by (induction tps arbitrary: entry) (auto split: list.splits)

lemma end_scan_past:
  "\<forall>e \<in> set tps. is2d e \<longrightarrow> 0 < rounds e \<Longrightarrow> 0 < rounds t \<Longrightarrow>
     \<exists>u. end_scan (Some t) False tps = (Some u, False) \<and> 0 < rounds u"
  by (induction tps arbitrary: t) auto

text \<open>
  The position reached: literal text first, then a list that has not been round, then fragments
  whose round counters leave room for the entries to come.
\<close>

definition running :: "tdl \<Rightarrow> tdl \<Rightarrow> tdl list \<Rightarrow> bool" where
  "running t a rest \<longleftrightarrow> list_all wf_tdl (t # a # rest) \<and> \<not> is2d t \<and> rounds t = 0 \<and> \<not> tied t
     \<and> is2d a \<and> rounds a = 0
     \<and> (\<forall>e \<in> set rest. is2d e \<longrightarrow> 0 \<le> rounds e
          \<and> rounds e + int (length (remaining (t # a # rest))) < 32768)
     \<and> (\<forall>x \<in> set (remaining (t # a # rest)). length x < CF_EXPANDSIZE - CF_BUFFERMARGIN)"

lemma Get2DListEnt_running:
  assumes "running t a rest" and "IncrementTwoDimList (t # a # rest) = (ls', w)"
  shows "Get2DListEnt False (t # a # rest) = Inr (ls', Some (entry_of (t # a # rest)))"
proof -
  have wf: "list_all wf_tdl (t # a # rest)" using assms(1) by (simp add: running_def)
  have "entry_of (t # a # rest) \<in> set (remaining (t # a # rest))"
    using Increment_remaining [OF wf assms(2)] by (cases w) simp_all
  then have "length (entry_of (t # a # rest)) < CF_EXPANDSIZE - CF_BUFFERMARGIN"
    using assms(1) unfolding running_def by blast
  then have "entry_loop [] (t # a # rest) = Inr (entry_of (t # a # rest))"
    using entry_loop_entry [of "[]" "t # a # rest"] by simp
  moreover have "EndOfTwoDimList False (t # a # rest) = (t # a # rest, False)"
    using assms(1) by (simp add: EndOfTwoDimList_def running_def)
  ultimately show ?thesis
    using assms by (simp add: Get2DListEnt_def running_def del: IncrementTwoDimList.simps entry_loop.simps)
qed

lemma Get2DListEnt_round:
  assumes "running t a rest" and "IncrementTwoDimList (t # a # rest) = (ls', True)"
  shows "\<exists>ls. Get2DListEnt False ls' = Inr (ls, None)"
proof -
  have wf: "list_all wf_tdl (t # a # rest)" using assms(1) by (simp add: running_def)
  have ls': "ls' = map reset (t # a # rest)" and one: "length (remaining (t # a # rest)) = 1"
    using Increment_remaining [OF wf assms(2)] by simp_all
  have "0 < rounds e" if "e \<in> set (map reset rest)" "is2d e" for e
    using that assms(1) one by (auto simp: running_def reset_def short_int_id)
  moreover have "rounds (reset a) = 1" "is2d (reset a)" "rounds (reset t) = 0" "\<not> is2d (reset t)"
    using assms(1) by (auto simp: running_def reset_def short_int_id)
  ultimately obtain u where "end_scan (Some (reset a)) False (map reset rest) = (Some u, False)" "0 < rounds u"
    using end_scan_past [of "map reset rest" "reset a"] by auto
  with \<open>rounds (reset a) = 1\<close> \<open>is2d (reset a)\<close> \<open>rounds (reset t) = 0\<close> \<open>\<not> is2d (reset t)\<close>
  show ?thesis unfolding ls' by (simp add: Get2DListEnt_def EndOfTwoDimList_def)
qed

lemma running_step:
  assumes "running t a rest" and "IncrementTwoDimList (t # a # rest) = (ls', False)"
  shows "\<exists>t' a' rest'. ls' = t' # a' # rest' \<and> running t' a' rest'"
proof -
  have wf: "list_all wf_tdl (t # a # rest)" using assms(1) by (simp add: running_def)
  have rem: "remaining (t # a # rest) = entry_of (t # a # rest) # remaining ls'"
    using Increment_remaining [OF wf assms(2)] by simp
  obtain r v where rv: "IncrementTwoDimList rest = (r, v)" by fastforce
  from Increment_rounds [OF rv] have rounds: "list_all2 (\<lambda>a b. is2d b = is2d a \<and> tied b = tied a
       \<and> (rounds b = rounds a \<or> is2d a \<and> rounds b = short_int (rounds a + 1))) rest r" .
  obtain a' where ls': "ls' = t # a' # r" and a': "is2d a'" "rounds a' = 0"
    using assms rv by (auto simp: running_def split: if_splits)
  have "0 \<le> rounds e \<and> rounds e + int (length (remaining ls')) < 32768" if e: "e \<in> set r" "is2d e" for e
  proof -
    obtain i where i: "i < length r" "e = r ! i" using e(1) by (auto simp: in_set_conv_nth)
    have d: "rest ! i \<in> set rest" "is2d (rest ! i)"
      "rounds e = rounds (rest ! i) \<or> rounds e = short_int (rounds (rest ! i) + 1)"
      using rounds i e(2) by (auto simp: list_all2_conv_all_nth)
    then have "0 \<le> rounds (rest ! i)" "rounds (rest ! i) + int (length (remaining (t # a # rest))) < 32768"
      using assms(1) unfolding running_def by blast+
    with d(3) rem show ?thesis by (auto simp: short_int_id)
  qed
  moreover have "list_all wf_tdl ls'" using Increment_wf [OF wf] assms(2) by simp
  moreover have "\<forall>x \<in> set (remaining ls'). length x < CF_EXPANDSIZE - CF_BUFFERMARGIN"
    using assms(1) rem unfolding running_def by (metis list.set_intros(2))
  ultimately show ?thesis
    using assms(1) a' unfolding ls' by (auto simp only: running_def)
qed

lemma all_entries_running:
  "running t a rest \<Longrightarrow> length (remaining (t # a # rest)) = n \<Longrightarrow>
     all_entries (n + 1) False (t # a # rest) = Some (Inr (remaining (t # a # rest)))"
proof (induction n arbitrary: t a rest)
  case 0
  then show ?case
    using Increment_remaining [of "t # a # rest"]
    by (cases "IncrementTwoDimList (t # a # rest)") (auto simp: running_def split: if_splits)
next
  case (Suc n)
  obtain ls' w where inc: "IncrementTwoDimList (t # a # rest) = (ls', w)" by fastforce
  note get = Get2DListEnt_running [OF Suc.prems(1) inc]
  have rem: "if w then remaining (t # a # rest) = [entry_of (t # a # rest)] \<and> ls' = map reset (t # a # rest)
      else remaining (t # a # rest) = entry_of (t # a # rest) # remaining ls'"
    using Suc.prems(1) inc by (intro Increment_remaining) (simp_all add: running_def)
  show ?case
  proof (cases w)
    case True
    with inc have "IncrementTwoDimList (t # a # rest) = (ls', True)" by simp
    with Get2DListEnt_round [OF Suc.prems(1)] obtain ls where "Get2DListEnt False ls' = Inr (ls, None)"
      by blast
    with get rem True Suc.prems(2) show ?thesis by simp
  next
    case False
    with inc have "IncrementTwoDimList (t # a # rest) = (ls', False)" by simp
    with running_step [OF Suc.prems(1)] obtain t' a' rest' where
      ls': "ls' = t' # a' # rest'" "running t' a' rest'" by blast
    from Suc.IH [OF this(2)] rem False Suc.prems(2) get show ?thesis by (simp add: ls'(1))
  qed
qed

subsection \<open>Strings without lists\<close>

definition plain :: "tdl \<Rightarrow> bool" where
  "plain tp \<longleftrightarrow> wf_tdl tp \<and> \<not> is2d tp \<and> rounds tp = 0"

lemma Increment_plain: "list_all (\<lambda>tp. \<not> is2d tp) tps \<Longrightarrow> IncrementTwoDimList tps = (tps, True)"
  by (induction tps) auto

lemma TieIncrement_plain:
  "list_all (\<lambda>tp. \<not> is2d tp) tps \<Longrightarrow> TieIncrementTwoDimList tps = Inr (map (\<lambda>tp. tp\<lparr>rounds := 1\<rparr>) tps)"
  by (induction tps) auto

lemma end_scan_plain:
  "list_all (\<lambda>tp. \<not> is2d tp) tps \<Longrightarrow> fst (end_scan None fin tps) = None"
  by (induction tps arbitrary: fin) auto

lemma end_scan_round: "list_all (\<lambda>tp. rounds tp \<noteq> 0) tps \<Longrightarrow> snd (end_scan tp fin tps) = fin"
  by (induction tps arbitrary: tp) auto

lemma end_scan_False: "\<not> snd (end_scan tp False tps)"
  by (induction tps arbitrary: tp) auto

lemma plain_entries:
  assumes "ls \<noteq> []" and "list_all plain ls"
    and "length (entry_of ls) < CF_EXPANDSIZE - CF_BUFFERMARGIN"
  shows "all_entries 2 False ls = Some (Inr [entry_of ls])"
proof -
  obtain l tps where ls: "ls = l # tps" using assms(1) by (cases ls) auto
  let ?l = "l\<lparr>rounds := 1\<rparr>"
  have plain: "list_all (\<lambda>tp. \<not> is2d tp) (l # tps)" "rounds l = 0"
    using assms(2) by (auto simp: ls plain_def list_all_iff)
  then have scan: "fst (end_scan None True (l # tps)) = None" "\<not> snd (end_scan None True (l # tps))"
    using end_scan_plain [of tps] by (simp_all add: end_scan_False)
  have "EndOfTwoDimList False ls = (?l # tps, False)"
    using scan plain by (auto simp: EndOfTwoDimList_def ls split: prod.splits)
  moreover have "entry_loop [] (?l # tps) = Inr (entry_of ls)"
    using entry_loop_entry [of "[]" "?l # tps"] assms(3) by (simp add: ls)
  ultimately have first: "Get2DListEnt False ls =
      Inr (if tied l then map (\<lambda>tp. tp\<lparr>rounds := 1\<rparr>) (?l # tps) else ?l # tps, Some (entry_of ls))"
    using plain Increment_plain [of "?l # tps"] TieIncrement_plain [of "?l # tps"]
    by (simp add: Get2DListEnt_def del: entry_loop.simps)
  have "EndOfTwoDimList False (?l # tps) = (?l # tps, True)"
    using plain end_scan_plain [of tps True]
    by (cases "end_scan None True tps") (auto simp: EndOfTwoDimList_def)
  moreover have "EndOfTwoDimList False (map (\<lambda>tp. tp\<lparr>rounds := 1\<rparr>) (?l # tps)) =
      (map (\<lambda>tp. tp\<lparr>rounds := 1\<rparr>) (?l # tps), True)"
    using end_scan_round [of "map (\<lambda>tp. tp\<lparr>rounds := 1\<rparr>) (?l # tps)" None True]
    by (auto simp: EndOfTwoDimList_def list_all_iff split: prod.splits)
  ultimately have "\<exists>ls''. Get2DListEnt False
      (if tied l then map (\<lambda>tp. tp\<lparr>rounds := 1\<rparr>) (?l # tps) else ?l # tps) = Inr (ls'', None)"
    by (auto simp: Get2DListEnt_def)
  then show ?thesis using first by (auto simp: numeral_2_eq_2)
qed

lemma split_var_text:
  "CHR ''$'' \<notin> set s \<Longrightarrow> length before + length s < CF_BUFSIZE \<Longrightarrow>
     split_var env before (s @ t) = split_var env (before @ s) t"
proof (induction s arbitrary: before)
  case (Cons c s)
  have "c \<noteq> CHR ''$''" "\<not> CF_BUFSIZE - 1 \<le> length before" using Cons.prems by auto
  with Cons show ?case by (subst split_var.simps) simp
qed simp

lemma SplitVarstring_pieces:
  "list_all (wf_piece env False) ps \<Longrightarrow> fits env 1000 \<Longrightarrow> fits env (length (convert_pieces env ps)) \<Longrightarrow>
     length before + length (show_pieces ps) < CF_BUFSIZE \<Longrightarrow>
     \<exists>items. split_var env before (show_pieces ps) = Inr items
       \<and> concat (map it_name items) = before @ convert_pieces env ps"
proof (induction ps arbitrary: before)
  case Nil
  then show ?case by (subst split_var.simps) simp
next
  case (Cons p ps)
  show ?case
  proof (cases p)
    case (Lit s)
    with Cons.prems Cons.IH [of "before @ s"] show ?thesis
      by (auto simp: split_var_text fits_def)
  next
    case (Ref b qs)
    let ?sp = "show_piece p @ show_pieces ps"
    from Cons.prems Ref have p: "wf_piece env False (Ref b qs)" by simp
    have "fits env (length (convert_pieces env [p]))"
      using Cons.prems(3) by (auto simp: fits_def)
    then have exp: "ExpandVarstring env (Some (show_piece p)) = Inr (convert_piece env p)"
      using expand_pieces [OF Cons.prems(2), of False "[p]" "[]"] p Ref
      by (simp add: ExpandVarstring_def)
    from Cons.IH [of "[]"] Cons.prems obtain items where
      items: "split_var env [] (show_pieces ps) = Inr items"
      "concat (map it_name items) = convert_pieces env ps" by (auto simp: fits_def)
    have "split_var env before ?sp =
        Inr ((if before = [] then [] else [mk_item before None]) @ mk_item (convert_piece env p) None # items)"
      using ExtractOuter_Ref [OF p, of "show_pieces ps"] exp items(1) Ref
      by (subst split_var.simps) simp
    then show ?thesis using items(2) by simp
  qed
qed

lemma SplitString_single:
  "CHR 0xB6 \<notin> set s \<Longrightarrow> length before + length s < CF_BUFSIZE \<Longrightarrow>
     split_string CHR 0xB6 prev before s = Inr [mk_item (before @ s) (Some [])]"
  by (induction s arbitrary: before prev) auto

lemma append_fragments_single:
  "\<forall>ip \<in> set items. CHR 0xB6 \<notin> set (it_name ip) \<and> length (it_name ip) < CF_BUFSIZE \<Longrightarrow>
     append_fragments ls items =
       Inr (ls @ map (\<lambda>ip. two_dim_item [mk_item (it_name ip) (Some [])]) items)"
  by (induction items arbitrary: ls) (simp_all add: SplitString_def SplitString_single AppendTwoDimItem_def)

lemma convert_ref_nonempty: "convert_ref env b item \<noteq> []"
proof (cases "map_of cf3_names (until_nul (map ToLower item))")
  case (Some t)
  then have "t \<noteq> []" by (auto simp: cf3_names_def split: if_splits)
  with Some show ?thesis by (simp add: convert_ref_def)
qed (simp add: convert_ref_def)

lemma convert_pieces_empty: "convert_pieces env ps = [] \<Longrightarrow> show_pieces ps = []"
proof (induction ps)
  case (Cons p ps)
  then show ?case using convert_ref_nonempty by (cases p) auto
qed simp

lemma two_dim_single:
  "list_all plain (map (\<lambda>ip. two_dim_item [mk_item (it_name ip) c]) items)"
  "entry_of (map (\<lambda>ip. two_dim_item [mk_item (it_name ip) c]) items) = concat (map it_name items)"
  by (induction items) (simp_all add: plain_def wf_tdl_def two_dim_item_def)

lemma plain_tied: "plain (tp\<lparr>tied := b\<rparr>) = plain tp"
  by (simp add: plain_def wf_tdl_def)

lemma Set2DList_plain: "list_all plain ls \<Longrightarrow> Set2DList ls = ls"
  by (induction ls) (auto simp: Set2DList_def plain_def dest!: wf_plain)

subsection \<open>Properties\<close>



text \<open>
  With a list at the very front and another one right behind it the iteration stops too early:
  it yields the combinations of the first alternative only.
\<close>

lemma Get2DListEnt_adjacent_lists:
  "all_entries 3 False (Set2DList (map two_dim_item (map (map (\<lambda>s. mk_item s None))
       [[''a'', ''b''], [''c'', ''d'']]))) = Some (Inr [''ac'', ''ad''])"
  by code_simp

text \<open>
  A string without list separators stands for exactly one entry: building its fragments and
  iterating over them yields the translation of the string, whatever the variables, and then ends.
\<close>

lemma Build2DListFromVarstring_single:
  assumes "list_all (wf_piece env False) ps" and "fits env 1000"
    and "fits env (length (convert_pieces env ps))" and "length (show_pieces ps) < CF_BUFSIZE"
    and "length (convert_pieces env ps) < CF_BUFSIZE" and "CHR 0xB6 \<notin> set (convert_pieces env ps)"
  shows "\<exists>ls. Build2DListFromVarstring env [] (Some (show_pieces ps)) tie = Inr ls
    \<and> all_entries 2 False (Set2DList ls) = Some (Inr [convert_pieces env ps])"
proof -
  obtain items where items: "SplitVarstring env (show_pieces ps) = Inr items" "items \<noteq> []"
    "concat (map it_name items) = convert_pieces env ps"
  proof (cases "show_pieces ps = []")
    case True
    then have "SplitVarstring env (show_pieces ps) = Inr [mk_item [] None]"
      "convert_pieces env ps = []"
      using no_dollar_text [of ps env] by (simp_all add: SplitVarstring_def)
    then show ?thesis using that [of "[mk_item [] None]"] by simp
  next
    case False
    from SplitVarstring_pieces [OF assms(1-3), of "[]"] assms(4) obtain items where
      "split_var env [] (show_pieces ps) = Inr items"
      "concat (map it_name items) = convert_pieces env ps" by auto
    moreover from this have "items \<noteq> []" using convert_pieces_empty [of env ps] False by auto
    ultimately show ?thesis using False that [of items] by (simp add: SplitVarstring_def)
  qed
  let ?ls = "map (\<lambda>ip. two_dim_item [mk_item (it_name ip) (Some [])]) items"
  have "CHR 0xB6 \<notin> set (it_name ip) \<and> length (it_name ip) < CF_BUFSIZE" if ip: "ip \<in> set items" for ip
  proof -
    obtain us vs where "items = us @ ip # vs" using split_list [OF ip] by blast
    with items(3) assms(5,6) show ?thesis by (auto simp flip: items(3))
  qed
  then have frags: "append_fragments [] items = Inr ?ls"
    using append_fragments_single [of items "[]"] by simp
  obtain l tps where ls: "?ls = l # tps" using items(2) by (cases items) auto
  have plain: "list_all plain (l\<lparr>tied := tie\<rparr> # tps)"
    using two_dim_single(1) [of "Some []" items] unfolding ls by (simp add: plain_tied)
  have entry: "entry_of (l\<lparr>tied := tie\<rparr> # tps) = convert_pieces env ps"
    using two_dim_single(2) [of "Some []" items] items(3) unfolding ls by simp
  have "length (convert_pieces env ps) < CF_EXPANDSIZE - CF_BUFFERMARGIN"
    using assms(5) by (simp add: CF_EXPANDSIZE_def CF_BUFFERMARGIN_def CF_BUFSIZE_def)
  with plain_entries [OF list.distinct(2) plain, unfolded entry]
  have "all_entries 2 False (Set2DList (l\<lparr>tied := tie\<rparr> # tps)) = Some (Inr [convert_pieces env ps])"
    unfolding Set2DList_plain [OF plain] .
  moreover have "Build2DListFromVarstring env [] (Some (show_pieces ps)) tie = Inr (l\<lparr>tied := tie\<rparr> # tps)"
    using items(1) frags ls by (simp add: Build2DListFromVarstring_def)
  ultimately show ?thesis by blast
qed

lemma Build2DListFromVarstring_single_witness:
  "\<exists>ls. Build2DListFromVarstring \<lparr>VARIABLES = True, VARCH = [], VARCH2 = []\<rparr> [] (Some ''/x/$(y)'') True = Inr ls
    \<and> all_entries 2 False (Set2DList ls) = Some (Inr [''/x/$(y)''])"
proof -
  let ?env = "\<lparr>VARIABLES = True, VARCH = [], VARCH2 = []\<rparr>"
  have "until_nul (map ToLower ''y'') = ''y''" by code_simp
  then have conv: "convert_pieces ?env [Lit ''/x/'', Ref False [Lit ''y'']] = ''/x/$(y)''"
    by (simp add: convert_ref_def cf3_names_def open_of_def close_of_def)
  moreover have "show_pieces [Lit ''/x/'', Ref False [Lit ''y'']] = ''/x/$(y)''"
    by (simp add: open_of_def close_of_def)
  ultimately show ?thesis
    using Build2DListFromVarstring_single [of ?env "[Lit ''/x/'', Ref False [Lit ''y'']]" True]
    by (simp add: fits_def CF_EXPANDSIZE_def CF_BUFFERMARGIN_def CF_BUFSIZE_def)
qed

end
