(* ===== verification/Wildcards.thy ===== *)
theory Wildcards
  imports ClassEval
begin

text \<open>
  wildcard.c: file name patterns with \<open>*\<close> and \<open>?\<close>, and the search of a list of patterns
  (\<open>IsWildItemIn\<close> of item-ext.c). A position in a string is the rest of it; \<open>NULL\<close> is \<open>None\<close>. The
  meaning of a pattern is \<open>glob\<close>: a star stands for one or more characters.
\<close>

subsection \<open>The code\<close>

definition Wild :: "char \<Rightarrow> bool" where
  "Wild c = (c = CHR ''*'' \<or> c = CHR ''?'')"

definition IsWildCard :: "string \<Rightarrow> bool" where
  "IsWildCard str = (strstr str ''?'' \<or> strstr str ''*'')"

text \<open>\<open>FixWildcards\<close> fills a static buffer of \<open>CF_BUFSIZE\<close> bytes without looking at its size.\<close>

fun fix_wildcards :: "string \<Rightarrow> string" where
  "fix_wildcards [] = []"
| "fix_wildcards (c # s) =
     (if c = CHR ''*'' then ''.*'' @ fix_wildcards s
      else if c = CHR ''?'' then ''.'' @ fix_wildcards s
      else if c = CHR ''.'' then [char_of (92 :: nat), CHR ''.''] @ fix_wildcards s
      else c # fix_wildcards s)"

definition FixWildcards :: "string \<Rightarrow> string outcome" where
  "FixWildcards s = (let r = fix_wildcards s in
     if CF_BUFSIZE \<le> length r then Inl (Undefined ''FixWildcards: replace'') else Inr r)"

datatype wild_status = startofstrings | middleofstrings | endofstrings

fun after_loop :: "string \<Rightarrow> wild_status \<Rightarrow> string \<Rightarrow> string option" where
  "after_loop small status [] = None"
| "after_loop small status (c # bigptr) =
     (if strncmp_eq (c # bigptr) small (length small) then Some (drop (length small) (c # bigptr))
      else if status = startofstrings then None
      else after_loop small status bigptr)"

definition AfterSubString :: "string \<Rightarrow> string \<Rightarrow> wild_status \<Rightarrow> char \<Rightarrow> string option" where
  "AfterSubString big small status lastwild =
     (if length small > length big then None
      else if lastwild = CHR ''?'' then
        (if strncmp_eq big small (length small) then Some (drop (length small) big) else None)
      else (let big' = (if status = endofstrings then drop (length big - length small) big else big) in
        after_loop small status big'))"

text \<open>
  The inner loop over question marks; the flag tells that it ran at least once, \<open>None\<close> is the
  return in its body. Stepping over the terminator of the string and reading there is undefined.
\<close>

fun wild_marks :: "string \<Rightarrow> string \<Rightarrow> bool \<Rightarrow> (string \<times> string \<times> bool) option outcome" where
  "wild_marks [] cmpptr moved = Inr (Some ([], cmpptr, moved))"
| "wild_marks (c # wildptr) cmpptr moved =
     (if c \<noteq> CHR ''?'' then Inr (Some (c # wildptr, cmpptr, moved))
      else (case cmpptr of
          [] \<Rightarrow> Inl (Undefined ''WildMatch: past the string'')
        | _ # cmpptr' \<Rightarrow>
            if cmpptr' = [] \<and> wildptr \<noteq> [] then Inr None
            else wild_marks wildptr cmpptr' True))"

text \<open>The text up to the next wildcard, and its match: the position behind it.\<close>

definition literal_part :: "string \<Rightarrow> string" where
  "literal_part wildptr = takeWhile (\<lambda>c. \<not> Wild c) wildptr"

definition match_part :: "string \<Rightarrow> string \<Rightarrow> wild_status \<Rightarrow> char \<Rightarrow> string option outcome" where
  "match_part wildptr cmpptr status lastwild =
     (let buffer = literal_part wildptr in
      if CF_BUFSIZE \<le> length buffer then Inl (Undefined ''WildMatch: buffer'')
      else Inr (AfterSubString cmpptr buffer
        (if buffer \<noteq> [] \<and> length buffer = length wildptr then endofstrings else status) lastwild))"

lemma wild_marks_length [length_facts]:
  "wild_marks w c moved = Inr (Some (w', c', moved')) \<Longrightarrow> length w' \<le> length w"
  by (induction w c moved rule: wild_marks.induct) (auto split: if_splits list.splits)

lemma wild_marks_head: "wild_marks w c moved = Inr (Some (w', c', moved')) \<Longrightarrow> w' = [] \<or> hd w' \<noteq> CHR ''?''"
  by (induction w c moved rule: wild_marks.induct) (auto split: if_splits list.splits)

lemma literal_part_nonempty: "w \<noteq> [] \<Longrightarrow> \<not> Wild (hd w) \<Longrightarrow> literal_part w \<noteq> []"
  by (cases w) (simp_all add: literal_part_def)

lemma length_drop_stars: "w \<noteq> [] \<Longrightarrow> hd w = c \<Longrightarrow> length (dropWhile (\<lambda>d. d = c) w) < length w"
  by (cases w) (auto simp: le_imp_less_Suc length_dropWhile_le)

lemma length_drop_literal:
  "w \<noteq> [] \<Longrightarrow> \<not> Wild (hd w) \<Longrightarrow> length (drop (length (literal_part w)) w) < length w"
  using literal_part_nonempty [of w] by (cases "literal_part w") (auto simp: neq_Nil_conv)

text \<open>The outer loop.\<close>

function wild_loop :: "string \<Rightarrow> string \<Rightarrow> wild_status \<Rightarrow> char \<Rightarrow> bool outcome" where
  "wild_loop wildptr cmpptr status lastwild =
     (case wild_marks wildptr cmpptr False of
        Inl e \<Rightarrow> Inl e
      | Inr None \<Rightarrow> Inr False
      | Inr (Some (w, s, moved)) \<Rightarrow>
          (let status' = (if moved then middleofstrings else status);
               lastwild' = (if moved then CHR ''?'' else lastwild) in
           if w = [] \<and> s = [] then Inr True
           else if w = [] then Inr False
           else if hd w = CHR ''*'' then
             (let w' = dropWhile (\<lambda>c. c = CHR ''*'') w in
              if w' = [] then Inr (s \<noteq> [])
              else if s = [] then Inl (Undefined ''WildMatch: past the string'')
              else (case match_part w' (tl s) middleofstrings CHR ''*'' of
                  Inl e \<Rightarrow> Inl e
                | Inr None \<Rightarrow> Inr False
                | Inr (Some s') \<Rightarrow>
                    wild_loop (drop (length (literal_part w')) w') s' middleofstrings CHR ''*''))
           else (case match_part w s status' lastwild' of
               Inl e \<Rightarrow> Inl e
             | Inr None \<Rightarrow> Inr False
             | Inr (Some s') \<Rightarrow>
                 wild_loop (drop (length (literal_part w)) w) s' middleofstrings lastwild')))"
  by pat_completeness auto

termination
proof (relation "measure (\<lambda>(w, s, st, l). length w)", goal_cases)
  case (2 wildptr cmpptr)
  then show ?case
    by (auto dest!: wild_marks_length length_drop_stars [where c = "CHR ''*''"])
next
  case (3 wildptr cmpptr)
  then show ?case
    by (auto dest: wild_marks_length wild_marks_head
        intro!: less_le_trans [OF length_drop_literal] simp: Wild_def simp del: length_drop)
qed simp

declare wild_loop.simps [simp del]

definition WildMatch :: "string \<Rightarrow> string \<Rightarrow> bool outcome" where
  "WildMatch wildptr cmpptr =
     (if \<not> strstr wildptr ''*'' \<and> \<not> strstr wildptr ''?'' then Inr (wildptr = cmpptr)
      else wild_loop wildptr cmpptr startofstrings (char_of (0 :: nat)))"

text \<open>\<open>IsWildItemIn\<close> tries each pattern both ways round; items of classes that are not defined are skipped.\<close>

fun IsWildItemIn :: "class_state \<Rightarrow> item list \<Rightarrow> string \<Rightarrow> bool outcome" where
  "IsWildItemIn st [] wildcard = Inr False"
| "IsWildItemIn st (ptr # ptrs) wildcard =
     bind_outcome (IsExcluded st (it_classes ptr)) (\<lambda>excluded.
       if excluded then IsWildItemIn st ptrs wildcard
       else bind_outcome (WildMatch wildcard (it_name ptr)) (\<lambda>m1.
         if m1 then Inr True
         else bind_outcome (WildMatch (it_name ptr) wildcard) (\<lambda>m2.
           if m2 then Inr True else IsWildItemIn st ptrs wildcard)))"

section \<open>The meaning of a pattern\<close>

fun glob :: "string \<Rightarrow> string \<Rightarrow> bool" where
  "glob [] s = (s = [])"
| "glob (c # w) s =
     (if c = CHR ''*'' then
        (if w \<noteq> [] \<and> hd w = CHR ''*'' then glob w s
         else list_ex (\<lambda>n. glob w (drop n s)) [1..<length s + 1])
      else (case s of [] \<Rightarrow> False | d # t \<Rightarrow> (c = CHR ''?'' \<or> c = d) \<and> glob w t))"

declare glob.simps(2) [simp del]

lemma glob_char [simp]:
  "c \<noteq> CHR ''*'' \<Longrightarrow> glob (c # w) [] = False"
  "c \<noteq> CHR ''*'' \<Longrightarrow> glob (c # w) (d # t) = ((c = CHR ''?'' \<or> c = d) \<and> glob w t)"
  by (simp_all add: glob.simps)

lemma glob_star:
  assumes "w = [] \<or> hd w \<noteq> CHR ''*''"
  shows "glob (CHR ''*'' # w) s \<longleftrightarrow> (\<exists>t u. s = t @ u \<and> t \<noteq> [] \<and> glob w u)"
proof -
  have "(\<exists>n\<in>set [1..<length s + 1]. glob w (drop n s)) \<longleftrightarrow> (\<exists>t u. s = t @ u \<and> t \<noteq> [] \<and> glob w u)"
  proof
    assume "\<exists>n\<in>set [1..<length s + 1]. glob w (drop n s)"
    then obtain n where n: "1 \<le> n" "n \<le> length s" "glob w (drop n s)" by auto
    then have "s = take n s @ drop n s" "take n s \<noteq> []" by auto
    with n(3) show "\<exists>t u. s = t @ u \<and> t \<noteq> [] \<and> glob w u" by blast
  next
    assume "\<exists>t u. s = t @ u \<and> t \<noteq> [] \<and> glob w u"
    then obtain t u where tu: "s = t @ u" "t \<noteq> []" "glob w u" by blast
    then have "length t \<in> set [1..<length s + 1]" "drop (length t) s = u" by (auto simp: Suc_le_eq)
    with tu(3) show "\<exists>n\<in>set [1..<length s + 1]. glob w (drop n s)" by auto
  qed
  with assms show ?thesis by (auto simp: glob.simps list_ex_iff)
qed

lemma glob_stars:
  assumes "w \<noteq> []" and "hd w = CHR ''*''"
  shows "glob w s \<longleftrightarrow> (\<exists>t u. s = t @ u \<and> t \<noteq> [] \<and> glob (dropWhile (\<lambda>c. c = CHR ''*'') w) u)"
  using assms
proof (induction w)
  case (Cons c w)
  show ?case
  proof (cases "w \<noteq> [] \<and> hd w = CHR ''*''")
    case True
    with Cons show ?thesis by (simp add: glob.simps)
  next
    case False
    then have "dropWhile (\<lambda>c. c = CHR ''*'') w = w" by (cases w) auto
    with Cons.prems False glob_star [of w s] show ?thesis by auto
  qed
qed simp

lemma glob_nothing: "glob w [] \<longleftrightarrow> w = []"
proof (induction w)
  case (Cons c w)
  then show ?case by (cases "c = CHR ''*''") (auto simp: glob.simps)
qed simp

lemma glob_literal:
  assumes "list_all (\<lambda>c. \<not> Wild c) p"
  shows "glob (p @ w) s \<longleftrightarrow> (\<exists>u. s = p @ u \<and> glob w u)"
  using assms
proof (induction p arbitrary: s)
  case (Cons c p)
  then have "c \<noteq> CHR ''*''" "c \<noteq> CHR ''?''" by (auto simp: Wild_def)
  with Cons show ?case by (cases s) auto
qed simp

text \<open>The characters a star has taken up can only become more.\<close>

lemma glob_star_longer:
  assumes "w \<noteq> []" and "hd w = CHR ''*''" and "glob w u"
  shows "glob w (x @ u)"
proof -
  obtain t v where "u = t @ v" "t \<noteq> []" "glob (dropWhile (\<lambda>c. c = CHR ''*'') w) v"
    using assms glob_stars by blast
  then have "x @ u = (x @ t) @ v" "x @ t \<noteq> []" "glob (dropWhile (\<lambda>c. c = CHR ''*'') w) v" by simp_all
  then show ?thesis using glob_stars [OF assms(1,2)] by blast
qed

section \<open>The parts of the loop\<close>

lemma wild_marks_glob:
  "wild_marks w s m = Inr (Some (w', s', m')) \<Longrightarrow> glob w s = glob w' s'"
  by (induction w s m rule: wild_marks.induct) (auto split: if_splits list.splits)

lemma wild_marks_None: "wild_marks w s m = Inr None \<Longrightarrow> \<not> glob w s"
  by (induction w s m rule: wild_marks.induct) (auto split: if_splits list.splits simp: glob_nothing)

lemma wild_marks_no_mark:
  "CHR ''?'' \<notin> set w \<Longrightarrow> wild_marks w s m = Inr (Some (w, s, m))"
  by (cases w) auto

lemma wild_marks_same:
  "wild_marks w s False = Inr (Some (w', s', False)) \<Longrightarrow> w' = w \<and> s' = s"
proof -
  have moved: "wild_marks w s True = Inr (Some (w', s', m')) \<Longrightarrow> m'" for w s m'
    by (induction w s "True" rule: wild_marks.induct) (auto split: if_splits list.splits)
  assume "wild_marks w s False = Inr (Some (w', s', False))"
  then show ?thesis using moved by (cases w) (fastforce split: if_splits list.splits)+
qed

lemma strncmp_eq_split: "strncmp_eq s p (length p) \<Longrightarrow> s = p @ drop (length p) s"
  by (metis append_take_drop_id strncmp_eq_def take_all_iff order_refl)

lemma after_loop_Some:
  "after_loop p st s = Some u \<Longrightarrow>
     \<exists>x. s = x @ p @ u \<and> (\<forall>y v. s = y @ p @ v \<longrightarrow> length x \<le> length y) \<and> (st = startofstrings \<longrightarrow> x = [])"
proof (induction p st s rule: after_loop.induct)
  case (2 p st c s)
  show ?case
  proof (cases "strncmp_eq (c # s) p (length p)")
    case True
    with 2(2) have "c # s = [] @ p @ u" using strncmp_eq_split by fastforce
    then show ?thesis by (metis le0 list.size(3))
  next
    case False
    with 2 obtain x where x: "s = x @ p @ u" "\<forall>y v. s = y @ p @ v \<longrightarrow> length x \<le> length y"
      and st: "st \<noteq> startofstrings"
      by (auto split: if_splits)
    have "length (c # x) \<le> length y" if "c # s = y @ p @ v" for y v
    proof (cases y)
      case Nil
      with that False show ?thesis by (simp add: strncmp_eq_prefix)
    next
      case (Cons d y')
      with that x(2) show ?thesis by auto
    qed
    with x(1) st show ?thesis by (intro exI [of _ "c # x"]) auto
  qed
qed simp

lemma after_loop_None:
  "after_loop p st s = None \<Longrightarrow> st \<noteq> startofstrings \<Longrightarrow> s = x @ p @ v \<Longrightarrow> p @ v = []"
proof (induction p st s arbitrary: x rule: after_loop.induct)
  case (2 p st c s)
  have no: "\<not> strncmp_eq (c # s) p (length p)" using 2(2) by (simp split: if_splits)
  with 2(2,3) have IH: "\<And>x. s = x @ p @ v \<Longrightarrow> p @ v = []"
    by (intro 2(1)) simp_all
  show ?case
  proof (cases x)
    case Nil
    with 2(4) have "strncmp_eq (c # s) p (length p)" by (simp add: strncmp_eq_def)
    with no show ?thesis by blast
  next
    case (Cons d x')
    with 2(4) IH [of x'] show ?thesis by simp
  qed
qed simp

text \<open>A match of a part of the pattern, anchored or behind a star.\<close>

lemma match_part_split: "w = literal_part w @ drop (length (literal_part w)) w"
  by (simp add: literal_part_def dropWhile_eq_drop [symmetric])

lemma literal_part_literal: "list_all (\<lambda>c. \<not> Wild c) (literal_part w)"
  by (auto simp: literal_part_def list_all_iff dest: set_takeWhileD)

lemma literal_part_rest: "drop (length (literal_part w)) w = [] \<or> Wild (hd (drop (length (literal_part w)) w))"
  using hd_dropWhile [of "\<lambda>c. \<not> Wild c" w] by (auto simp: literal_part_def dropWhile_eq_drop [symmetric])

lemma match_part_anchored:
  assumes "match_part w s st lw = Inr (Some u)"
    and "lw = CHR ''?'' \<or> st = startofstrings \<and> length (literal_part w) \<noteq> length w"
  shows "s = literal_part w @ u"
proof (cases "lw = CHR ''?''")
  case True
  with assms(1) show ?thesis
    by (auto simp: match_part_def AfterSubString_def dest: strncmp_eq_split split: if_splits)
next
  case False
  with assms have "after_loop (literal_part w) startofstrings s = Some u"
    by (auto simp: match_part_def AfterSubString_def split: if_splits)
  then show ?thesis using after_loop_Some by fastforce
qed

lemma match_part_floating:
  assumes "match_part w s st CHR ''*'' = Inr (Some u)"
  obtains x where "s = x @ literal_part w @ u"
proof -
  let ?p = "literal_part w"
  obtain st' s' where "after_loop ?p st' s' = Some u" and "\<exists>x. s = x @ s'"
    using assms by (auto simp: match_part_def AfterSubString_def split: if_splits)
      (metis append_take_drop_id append_Nil)+
  then show ?thesis using after_loop_Some that by (metis append.assoc)
qed

section \<open>Soundness\<close>

definition entry :: "string \<Rightarrow> wild_status \<Rightarrow> bool" where
  "entry w st = (w = [] \<or> Wild (hd w) \<or> st = startofstrings \<and> (\<exists>c\<in>set w. Wild c))"

lemma entry_rest: "entry (drop (length (literal_part w)) w) st"
  using literal_part_rest [of w] by (auto simp: entry_def)

lemma literal_part_wild: "\<exists>c\<in>set w. Wild c \<Longrightarrow> length (literal_part w) \<noteq> length w"
  by (metis literal_part_literal list_all_iff match_part_split append_eq_conv_conj length_drop
      diff_self_eq_0 length_0_conv append_Nil2)

lemma wild_loop_sound:
  "wild_loop w s st l = Inr True \<Longrightarrow> entry w st \<Longrightarrow> glob w s"
proof (induction w s st l rule: wild_loop.induct)
  case (1 wildptr cmpptr status lastwild)
  obtain r where r: "wild_marks wildptr cmpptr False = Inr r"
    using 1(3) by (subst (asm) wild_loop.simps) (auto split: sum.splits)
  obtain w s moved where marks: "wild_marks wildptr cmpptr False = Inr (Some (w, s, moved))"
    using r 1(3) by (cases r) (auto simp: wild_loop.simps)
  have meaning: "glob wildptr cmpptr = glob w s" using wild_marks_glob [OF marks] .
  have no_mark: "w = [] \<or> hd w \<noteq> CHR ''?''" using wild_marks_head [OF marks] .
  have "glob w s"
  proof (cases "w = [] \<or> hd w = CHR ''*''")
    case True
    show ?thesis
    proof (cases "w = []")
      case True
      with 1(3) marks show ?thesis by (subst (asm) wild_loop.simps) (simp split: if_splits)
    next
      case False
      with True have star: "w \<noteq> []" "hd w = CHR ''*''" by auto
      let ?w = "dropWhile (\<lambda>c. c = CHR ''*'') w"
      have "\<exists>t u. s = t @ u \<and> t \<noteq> [] \<and> glob ?w u"
      proof (cases "?w = []")
        case True
        with 1(3) marks star have "s \<noteq> []" by (subst (asm) wild_loop.simps) (simp split: if_splits)
        moreover have "glob ?w []" unfolding True by simp
        ultimately show ?thesis by (metis append_Nil2)
      next
        case w: False
        with 1(3) marks star obtain u where s: "s \<noteq> []"
          and part: "match_part ?w (tl s) middleofstrings CHR ''*'' = Inr (Some u)"
          and rec: "wild_loop (drop (length (literal_part ?w)) ?w) u middleofstrings CHR ''*'' = Inr True"
          by (subst (asm) wild_loop.simps) (auto split: if_splits sum.splits option.splits)
        have "glob (drop (length (literal_part ?w)) ?w) u"
          by (rule 1(1) [OF marks refl refl refl refl refl]) (use star w s part rec entry_rest in auto)
        moreover obtain x where "tl s = x @ literal_part ?w @ u" using match_part_floating [OF part] .
        ultimately have "s = (hd s # x) @ (literal_part ?w @ u)" "glob ?w (literal_part ?w @ u)"
          using s glob_literal [OF literal_part_literal] match_part_split [of ?w]
          by (metis append_Cons list.collapse, metis)
        then show ?thesis by blast
      qed
      then show ?thesis using glob_stars [OF star] by blast
    qed
  next
    case False
    let ?st = "if moved then middleofstrings else status"
    let ?l = "if moved then CHR ''?'' else lastwild"
    from False 1(3) marks obtain u where part: "match_part w s ?st ?l = Inr (Some u)"
      and rec: "wild_loop (drop (length (literal_part w)) w) u middleofstrings ?l = Inr True"
      by (subst (asm) wild_loop.simps) (auto split: if_splits sum.splits option.splits)
    have "glob (drop (length (literal_part w)) w) u"
      by (rule 1(2) [OF marks refl refl refl refl refl]) (use False part rec entry_rest in auto)
    moreover have "?l = CHR ''?'' \<or> ?st = startofstrings \<and> length (literal_part w) \<noteq> length w"
    proof (cases moved)
      case m: False
      with marks have "w = wildptr" using wild_marks_same by auto
      with False no_mark 1(4) have "status = startofstrings" "\<exists>c\<in>set w. Wild c"
        by (auto simp: entry_def Wild_def)
      with m show ?thesis using literal_part_wild by simp
    qed simp
    ultimately show ?thesis
      using match_part_anchored [OF part] glob_literal [OF literal_part_literal] match_part_split by metis
  qed
  with meaning show ?case by simp
qed

section \<open>Completeness for one kind of wildcard\<close>

definition one_kind :: "string \<Rightarrow> bool" where
  "one_kind w = (CHR ''?'' \<notin> set w \<or> CHR ''*'' \<notin> set w)"

lemma one_kind_suffix: "one_kind w \<Longrightarrow> w = x @ v \<Longrightarrow> one_kind v"
  by (auto simp: one_kind_def)

lemma wild_marks_glob_Some:
  "glob w s \<Longrightarrow> \<exists>w' s' m'. wild_marks w s m = Inr (Some (w', s', m')) \<and> (\<exists>x. w = x @ w')"
proof (induction w s m rule: wild_marks.induct)
  case (2 c w s m)
  show ?case
  proof (cases "c = CHR ''?''")
    case True
    with 2(2) obtain d t where s: "s = d # t" "glob w t" by (cases s) auto
    moreover from s(2) have "\<not> (t = [] \<and> w \<noteq> [])" using glob_nothing by auto
    moreover obtain w' s' m' x where "wild_marks w t True = Inr (Some (w', s', m'))" "w = x @ w'"
      using 2(1) [of d t] True s \<open>\<not> (t = [] \<and> w \<noteq> [])\<close> by auto
    ultimately show ?thesis using True by (intro exI [of _ w'] exI [of _ s'] exI [of _ m']) auto
  qed auto
qed simp

lemma after_loop_first: "p @ v \<noteq> [] \<Longrightarrow> after_loop p st (p @ v) = Some v"
proof -
  assume "p @ v \<noteq> []"
  then obtain c s where cs: "p @ v = c # s" by (cases "p @ v") auto
  have "strncmp_eq (p @ v) p (length p)" by (simp add: strncmp_eq_def)
  then show ?thesis using cs by (simp del: append_eq_Cons_conv) (metis append_eq_conv_conj)
qed

lemma append_shorter: "a @ u = b @ v \<Longrightarrow> length a \<le> length b \<Longrightarrow> \<exists>z. u = z @ v"
  by (auto simp: append_eq_append_conv2)

lemma glob_part: "glob w s \<longleftrightarrow> (\<exists>v. s = literal_part w @ v \<and> glob (drop (length (literal_part w)) w) v)"
  by (subst match_part_split [of w]) (rule glob_literal [OF literal_part_literal])

lemma match_part_complete_anchored:
  assumes "length w < CF_BUFSIZE" and "s = literal_part w @ v" and "literal_part w \<noteq> []"
    and "lw = CHR ''?'' \<or> st = startofstrings \<and> length (literal_part w) \<noteq> length w"
  shows "match_part w s st lw = Inr (Some v)"
proof -
  have "length (literal_part w) \<le> length w" by (simp add: literal_part_def length_takeWhile_le)
  then have "length (literal_part w) < CF_BUFSIZE" using assms(1) by simp
  moreover have "after_loop (literal_part w) startofstrings s = Some v"
    unfolding assms(2) using assms(3) by (intro after_loop_first) simp
  moreover have "strncmp_eq s (literal_part w) (length (literal_part w))" by (simp add: strncmp_eq_def assms(2))
  ultimately show ?thesis using assms(2,4) by (auto simp: match_part_def AfterSubString_def)
qed

lemma match_part_complete_floating:
  assumes "length w < CF_BUFSIZE" and "s = x @ literal_part w @ v" and "literal_part w \<noteq> []"
    and "glob (drop (length (literal_part w)) w) v"
    and "drop (length (literal_part w)) w = [] \<or> hd (drop (length (literal_part w)) w) = CHR ''*''"
  obtains u where "match_part w s middleofstrings CHR ''*'' = Inr (Some u)"
    and "glob (drop (length (literal_part w)) w) u"
proof -
  let ?p = "literal_part w"
  let ?r = "drop (length ?p) w"
  have short: "\<not> CF_BUFSIZE \<le> length ?p" and fits: "\<not> length s < length ?p"
    using assms(1,2) length_takeWhile_le [of "\<lambda>c. \<not> Wild c" w] by (simp_all add: literal_part_def)
  show ?thesis
  proof (cases "?r = []")
    case True
    then have all: "length ?p = length w"
      using length_takeWhile_le [of "\<lambda>c. \<not> Wild c" w] by (simp add: literal_part_def)
    from True assms(4) have "v = []" unfolding True by simp
    with assms(2) have "drop (length s - length ?p) s = ?p" by simp
    then have "match_part w s middleofstrings CHR ''*'' = Inr (Some [])"
      using short fits all assms(3) after_loop_first [of ?p "[]" endofstrings]
      by (simp add: match_part_def AfterSubString_def)
    then show ?thesis using that True by simp
  next
    case False
    then have "length ?p \<noteq> length w" by auto
    then have is_loop: "match_part w s middleofstrings CHR ''*'' = Inr (after_loop ?p middleofstrings s)"
      using short fits by (simp add: match_part_def AfterSubString_def)
    obtain u where u: "after_loop ?p middleofstrings s = Some u"
      using after_loop_None [of ?p middleofstrings s x v] assms(2,3) by (cases "after_loop ?p middleofstrings s") auto
    then obtain y where "s = y @ ?p @ u" "length y \<le> length x"
      using after_loop_Some [OF u] assms(2) by auto
    with assms(2) have same: "(y @ ?p) @ u = (x @ ?p) @ v" and "length (y @ ?p) \<le> length (x @ ?p)" by simp_all
    then obtain z where "u = z @ v" using append_shorter by blast
    then have "glob ?r u" using glob_star_longer False assms(4,5) by blast
    with is_loop u show ?thesis using that by simp
  qed
qed

lemma wild_loop_complete:
  "glob w s \<Longrightarrow> entry w st \<Longrightarrow> one_kind w \<Longrightarrow> length w < CF_BUFSIZE \<Longrightarrow> wild_loop w s st l = Inr True"
proof (induction w s st l rule: wild_loop.induct)
  case (1 wildptr cmpptr status lastwild)
  obtain w s moved x where marks: "wild_marks wildptr cmpptr False = Inr (Some (w, s, moved))"
    and w: "wildptr = x @ w"
    using wild_marks_glob_Some [OF 1(3)] by blast
  have meaning: "glob w s" using wild_marks_glob [OF marks] 1(3) by simp
  have one: "one_kind w" "length w < CF_BUFSIZE" using 1(5,6) w one_kind_suffix by auto
  have no_mark: "w = [] \<or> hd w \<noteq> CHR ''?''" using wild_marks_head [OF marks] .
  consider (empty) "w = []" | (star) "w \<noteq> []" "hd w = CHR ''*''" | (literal) "w \<noteq> []" "\<not> Wild (hd w)"
    using no_mark by (auto simp: Wild_def)
  then show ?case
  proof cases
    case empty
    with meaning marks show ?thesis by (subst wild_loop.simps) simp
  next
    case star
    let ?w = "dropWhile (\<lambda>c. c = CHR ''*'') w"
    obtain t u where tu: "s = t @ u" "t \<noteq> []" "glob ?w u" using meaning glob_stars [OF star] by blast
    then have s: "s \<noteq> []" by simp
    show ?thesis
    proof (cases "?w = []")
      case True
      with star s marks show ?thesis by (subst wild_loop.simps) simp
    next
      case False
      let ?r = "drop (length (literal_part ?w)) ?w"
      have suffix: "w = takeWhile (\<lambda>c. c = CHR ''*'') w @ ?w" by simp
      have no_question: "CHR ''?'' \<notin> set ?w"
        using one(1) star by (cases w) (auto simp: one_kind_def dest: set_dropWhileD)
      have "hd ?w \<noteq> CHR ''*''" using hd_dropWhile [OF False] by simp
      moreover have "hd ?w \<noteq> CHR ''?''" using no_question False by (metis list.set_sel(1))
      ultimately have p: "literal_part ?w \<noteq> []" using False literal_part_nonempty by (simp add: Wild_def)
      have r: "?r = [] \<or> hd ?r = CHR ''*''"
        using literal_part_rest [of ?w] no_question by (metis Wild_def in_set_dropD list.set_sel(1))
      obtain v where v: "u = literal_part ?w @ v" "glob ?r v"
        using glob_part [of ?w u] tu(3) by blast
      have len: "length ?w < CF_BUFSIZE" using one(2) length_dropWhile_le le_less_trans by blast
      have "tl s = tl t @ literal_part ?w @ v" unfolding tu(1) v(1) using tu(2) by (cases t) simp_all
      then obtain z where z: "match_part ?w (tl s) middleofstrings CHR ''*'' = Inr (Some z)" "glob ?r z"
        using match_part_complete_floating [OF len _ p v(2) r] by blast
      have kind: "one_kind ?r" "length ?r < CF_BUFSIZE"
        using no_question len by (auto simp: one_kind_def dest: in_set_dropD)
      have "wild_loop ?r z middleofstrings CHR ''*'' = Inr True"
        by (rule 1(1) [OF marks refl refl refl refl refl]) (use star False s z entry_rest kind in auto)
      with marks star False s z show ?thesis by (subst wild_loop.simps) simp
    qed
  next
    case literal
    let ?st = "if moved then middleofstrings else status"
    let ?l = "if moved then CHR ''?'' else lastwild"
    let ?r = "drop (length (literal_part w)) w"
    have p: "literal_part w \<noteq> []" using literal literal_part_nonempty by simp
    obtain v where v: "s = literal_part w @ v" "glob ?r v"
      using glob_part [of w s] meaning by blast
    have "?l = CHR ''?'' \<or> ?st = startofstrings \<and> length (literal_part w) \<noteq> length w"
    proof (cases moved)
      case m: False
      with marks have "w = wildptr" using wild_marks_same by auto
      with literal 1(4) have "status = startofstrings" "\<exists>c\<in>set w. Wild c" by (auto simp: entry_def)
      with m show ?thesis using literal_part_wild by simp
    qed simp
    then have part: "match_part w s ?st ?l = Inr (Some v)"
      using match_part_complete_anchored one(2) v(1) p by blast
    have kind: "one_kind ?r" "length ?r < CF_BUFSIZE"
      using one one_kind_suffix match_part_split by (metis, simp)
    have "wild_loop ?r v middleofstrings ?l = Inr True"
      by (rule 1(2) [OF marks refl refl refl refl refl]) (use literal part v entry_rest kind in \<open>auto simp: Wild_def\<close>)
    with marks literal part show ?thesis by (subst wild_loop.simps) (simp add: Wild_def)
  qed
qed

section \<open>Matching\<close>

lemma strstr_wild: "strstr w ''*'' \<or> strstr w ''?'' \<longleftrightarrow> (\<exists>c\<in>set w. Wild c)"
  by (auto simp: strstr_single Wild_def)

lemma glob_no_wild: "\<forall>c\<in>set w. \<not> Wild c \<Longrightarrow> glob w s \<longleftrightarrow> w = s"
  using glob_literal [of w "[]" s] by (auto simp: list_all_iff)

lemma WildMatch_sound: "WildMatch w s = Inr True \<Longrightarrow> glob w s"
proof (cases "\<exists>c\<in>set w. Wild c")
  case True
  assume "WildMatch w s = Inr True"
  with True strstr_wild [of w] show ?thesis
    by (intro wild_loop_sound [of w s startofstrings "char_of (0 :: nat)"])
      (auto simp: WildMatch_def entry_def split: if_splits)
next
  case False
  assume "WildMatch w s = Inr True"
  with False strstr_wild [of w] glob_no_wild [of w s] show ?thesis by (auto simp: WildMatch_def)
qed



text \<open>With both kinds the first place that fits is taken and never given back.\<close>

lemma WildMatch_no_backtracking:
  "WildMatch ''*a?b'' ''xaxaab'' = Inr False" "glob ''*a?b'' ''xaxaab''"
  "WildMatch ''*?'' ''abc'' = Inr False" "glob ''*?'' ''abc''"
  by code_simp+

lemma IsWildItemIn_sound:
  "IsWildItemIn st xs s = Inr True \<Longrightarrow>
     \<exists>ptr\<in>set xs. IsExcluded st (it_classes ptr) = Inr False \<and> (glob s (it_name ptr) \<or> glob (it_name ptr) s)"
proof (induction xs)
  case (Cons p xs)
  have "WildMatch w t = Inr b \<Longrightarrow> b \<Longrightarrow> glob w t" for w t b using WildMatch_sound by simp
  with Cons show ?case by (auto elim!: bind_outcome_InrE split: if_splits)
qed simp

text \<open>
  A string that ends where the star of the pattern stands makes \<open>WildMatch\<close> step over the
  terminator and read behind it: \<open>a*b\<close> against \<open>a\<close>.
\<close>

lemma WildMatch_reads_past_end:
  assumes "\<forall>c\<in>set (p @ q). \<not> Wild c" and "p \<noteq> []" and "q \<noteq> []" and "length p < CF_BUFSIZE"
  shows "WildMatch (p @ ''*'' @ q) p = Inl (Undefined ''WildMatch: past the string'')"
proof -
  let ?w = "p @ ''*'' @ q"
  obtain c p' where p: "p = c # p'" using assms(2) by (cases p) auto
  have lit: "literal_part ?w = p"
    using assms(1) by (simp add: literal_part_def takeWhile_append2 Wild_def)
  have marks: "wild_marks ?w p False = Inr (Some (?w, p, False))"
    using assms(1) p by (simp add: Wild_def)
  have not_wild: "hd ?w \<noteq> CHR ''*''" using assms(1) p by (auto simp: Wild_def)
  have part: "match_part ?w p startofstrings (char_of (0 :: nat)) = Inr (Some [])"
    using lit assms(2,4) after_loop_first [of p "[]" startofstrings]
    by (simp add: match_part_def AfterSubString_def strncmp_eq_def)
  have "q \<noteq> [] \<and> hd q \<noteq> CHR ''*''" using assms(1,3) by (cases q) (auto simp: Wild_def)
  then have stars: "dropWhile (\<lambda>c. c = CHR ''*'') (''*'' @ q) = q" by (cases q) auto
  have rest: "wild_loop (''*'' @ q) [] middleofstrings l = Inl (Undefined ''WildMatch: past the string'')" for l
    using stars assms(3) by (subst wild_loop.simps) simp
  have "wild_loop ?w p startofstrings (char_of (0 :: nat)) = Inl (Undefined ''WildMatch: past the string'')"
    using marks not_wild part lit rest by (subst wild_loop.simps) (simp add: p)
  then show ?thesis by (simp add: WildMatch_def strstr_single)
qed

lemma WildMatch_reads_past_end_witness:
  "WildMatch ''a*b'' ''a'' = Inl (Undefined ''WildMatch: past the string'')"
  using WildMatch_reads_past_end [of "''a''" "''b''"] by (simp add: Wild_def CF_BUFSIZE_def)

end
