(* ===== verification/Fuzzy.thy ===== *)
theory Fuzzy
  imports Filenames "HOL-Library.Word"
begin

unbundle bit_operations_syntax

text \<open>
  item.c: matching addresses against prefixes, CIDR ranges and ranges of octets, and host names
  against numbered ranges; the access rules of cfservd rest on it. The address conversions of
  the C library are parameters: \<open>inet_addr\<close> is the 32-bit address of a text in host byte order and
  \<open>inet_pton6\<close> the sixteen bytes of an IPv6 address, \<open>None\<close> if the text is not one. The code is
  modelled with \<open>HAVE_GETADDRINFO\<close>.
\<close>

definition CF_MAX_IP_LEN :: nat where "CF_MAX_IP_LEN = 64"

type_synonym inet_addr = "string \<Rightarrow> 32 word"
type_synonym inet_pton6 = "string \<Rightarrow> 8 word list option"

subsection \<open>Scanning\<close>

text \<open>\<open>%ld\<close> saturates at the bounds of a 64-bit \<open>long\<close>, as \<open>strtol\<close> does.\<close>

definition long_clip :: "int \<Rightarrow> int" where
  "long_clip v = max (- (2 ^ 63)) (min (2 ^ 63 - 1) v)"

definition scan_long :: "string \<Rightarrow> (int \<times> string) option" where
  "scan_long s = map_option (\<lambda>(v, r). (long_clip v, r)) (scan_int s)"

definition scan_long_or :: "int \<Rightarrow> string \<Rightarrow> int" where
  "scan_long_or old s = (case scan_long s of None \<Rightarrow> old | Some (v, _) \<Rightarrow> v)"

text \<open>
  \<open>%lx\<close>: white space, a sign and \<open>0x\<close> may come first. The value is that of \<open>strtoul\<close>, saturated at
  the greatest 64-bit number, then stored in a \<open>long\<close>.
\<close>

definition hex_digit :: "char \<Rightarrow> int" where
  "hex_digit c = (if isdigit c then int (byte c) - 48 else int (byte (ToLower c)) - 87)"

definition scan_hex_digits :: "string \<Rightarrow> (int \<times> string) option" where
  "scan_hex_digits s =
     (let s' = (case s of
           a # b # c # r \<Rightarrow> if a = CHR ''0'' \<and> (b = CHR ''x'' \<or> b = CHR ''X'') \<and> isxdigit c then c # r else s
         | _ \<Rightarrow> s);
          ds = takeWhile isxdigit s' in
      if ds = [] then None
      else Some (foldl (\<lambda>v d. 16 * v + hex_digit d) 0 ds, drop (length ds) s'))"

definition long_of_unsigned :: "int \<Rightarrow> bool \<Rightarrow> int" where
  "long_of_unsigned u negative =
     (if 2 ^ 64 \<le> u then - 1
      else ((if negative then - u else u) + 2 ^ 63) mod 2 ^ 64 - 2 ^ 63)"

definition scan_hex :: "string \<Rightarrow> (int \<times> string) option" where
  "scan_hex s = (case dropWhile isspace s of
       [] \<Rightarrow> None
     | c # r \<Rightarrow>
         map_option (\<lambda>(u, t). (long_of_unsigned u (c = CHR ''-''), t))
           (scan_hex_digits (if c = CHR ''-'' \<or> c = CHR ''+'' then r else c # r)))"

text \<open>
  Two numbers with a minus sign between them: \<open>sscanf (s, "%ld-%ld", &from, &to)\<close> and the same
  with \<open>%lx\<close>. The values set, and how many.
\<close>

definition scan_pair ::
    "(string \<Rightarrow> (int \<times> string) option) \<Rightarrow> string \<Rightarrow> int \<Rightarrow> int \<Rightarrow> int \<times> int \<times> nat" where
  "scan_pair number s from to = (case number s of
       None \<Rightarrow> (from, to, 0)
     | Some (v, r) \<Rightarrow> (case r of
         [] \<Rightarrow> (v, to, 1)
       | c # t \<Rightarrow> if c \<noteq> CHR ''-'' then (v, to, 1)
                  else (case number t of None \<Rightarrow> (v, to, 1) | Some (w, _) \<Rightarrow> (v, w, 2))))"

definition scan_hex_or :: "int \<Rightarrow> string \<Rightarrow> int" where
  "scan_hex_or old s = (case scan_hex s of None \<Rightarrow> old | Some (v, _) \<Rightarrow> v)"

text \<open>\<open>sscanf (s, "%n[^/]/%d", address, &mask)\<close> on cleared variables.\<close>

definition scan_cidr :: "nat \<Rightarrow> string \<Rightarrow> string \<times> int" where
  "scan_cidr n s =
     (let address = scan_not_n n ''/'' s; r = drop (length address) s in
      (address, if address = [] then 0
                else (case r of [] \<Rightarrow> 0 | c # t \<Rightarrow> if c = CHR ''/'' then scan_int_or 0 t else 0)))"

text \<open>
  One step along an address: \<open>sscanf (sp, "%[^sep]", buffer)\<close> into an array of \<open>CF_MAX_IP_LEN\<close>
  bytes, which keeps its contents (\<open>None\<close>: never set) if nothing matches, then
  \<open>sp += strlen (buffer) + 1\<close>. A pointer behind the terminator is \<open>None\<close>.
\<close>

definition read_part ::
    "char \<Rightarrow> string option \<Rightarrow> string option \<Rightarrow> (string \<times> string option) outcome" where
  "read_part sep sp buffer = (case sp of
       None \<Rightarrow> Inl (Undefined ''read behind the end of an address'')
     | Some s \<Rightarrow>
         (let part = scan_not [sep] s in
          if CF_MAX_IP_LEN \<le> length part then Inl (Undefined ''part of an address too long'')
          else (case (if part = [] then buffer else Some part) of
              None \<Rightarrow> Inl (Undefined ''buffer not set'')
            | Some b \<Rightarrow> Inr (b, if length b < length s then Some (drop (length b + 1) s) else None))))"

definition no_part :: "char \<Rightarrow> string option \<Rightarrow> bool" where
  "no_part sep sp = (case sp of None \<Rightarrow> False | Some s \<Rightarrow> scan_not [sep] s = [])"

subsection \<open>The syntax check\<close>

text \<open>\<open>addr_scan\<close> is the loop that sets \<open>isADDR\<close>.\<close>

fun addr_scan :: "nat \<Rightarrow> string \<Rightarrow> bool" where
  "addr_scan k [] = False"
| "addr_scan k (c # s) =
     (if \<not> isxdigit c then False
      else if c = CHR '':'' then True
      else if isdigit c then (if 3 < k + 1 then False else addr_scan (k + 1) s)
      else addr_scan 0 s)"

fun range_syntax :: "nat \<Rightarrow> string option \<Rightarrow> int \<Rightarrow> int \<Rightarrow> bool outcome" where
  "range_syntax 0 sp1 from to = Inr True"
| "range_syntax (Suc n) sp1 from to =
     bind_outcome (read_part CHR ''.'' sp1 (Some [])) (\<lambda>(buffer1, sp1').
       if strstr buffer1 ''-'' then
         (case scan_pair scan_long buffer1 from to of (from', to', _) \<Rightarrow>
            if from' < 0 \<or> to' < 0 then Inr False
            else if to' < from' then Inr False
            else range_syntax n sp1' from' to')
       else range_syntax n sp1' from to)"

definition FuzzyMatchParse :: "string \<Rightarrow> bool outcome" where
  "FuzzyMatchParse s =
     (if \<not> addr_scan 0 s then Inr True
      else (let isCIDR = strstr s ''/''; isrange = strstr s ''-''; isv4 = strstr s ''.'';
                isv6 = strstr s '':'' in
        if isv4 \<and> isv6 then Inr False
        else if isCIDR \<and> isrange then Inr False
        else if isv4 \<and> isCIDR \<and> length s > 4 + 3 * 4 + 1 + 2 then Inr False
        else if isv4 \<and> isCIDR \<and> snd (scan_cidr 16 s) < 8 then Inr False
        else if isv4 \<and> isCIDR \<and> snd (scan_cidr 16 s) > 30 then Inr False
        else bind_outcome (if isv4 \<and> isrange then range_syntax 4 (Some s) (- 1) (- 1) else Inr True)
          (\<lambda>ok. if \<not> ok then Inr False
            else if isv6 \<and> isCIDR \<and> length s < 20 then Inr False
            else if isv6 \<and> isCIDR \<and> length s > 42 then Inr False
            else if isv6 \<and> isCIDR \<and> snd (scan_cidr 40 s) mod 8 \<noteq> 0 then Inr False
            else if isv6 \<and> isCIDR \<and> snd (scan_cidr 40 s) > 15 then Inr False
            else Inr True)))"

subsection \<open>Matching an address\<close>

text \<open>A shift by a negative count is undefined; \<open>unsigned long\<close> has 64 bits.\<close>

definition cidr_v4 :: "inet_addr \<Rightarrow> string \<Rightarrow> string \<Rightarrow> int outcome" where
  "cidr_v4 ip4 s1 s2 = (case scan_cidr 16 s1 of (address, bits) \<Rightarrow>
     (let shift = 32 - bits in
      if shift < 0 \<or> 64 \<le> shift then Inl (Undefined ''FuzzySetMatch: shift'')
      else (let a1 = drop_bit (nat shift) (ucast (ip4 address) :: 64 word);
                a2 = drop_bit (nat shift) (ucast (ip4 s2) :: 64 word) in
        if a1 = a2 then Inr 0 else Inr (- 1))))"

text \<open>The numbers of a part keep their values when a part is not a number.\<close>

fun range_v4 :: "nat \<Rightarrow> string option \<Rightarrow> string option \<Rightarrow> string option \<Rightarrow> int \<Rightarrow> int \<Rightarrow> int \<Rightarrow> int outcome" where
  "range_v4 0 sp1 sp2 b2 from to cmp = Inr 0"
| "range_v4 (Suc n) sp1 sp2 b2 from to cmp =
     (if no_part CHR ''.'' sp1 then Inr 0
      else bind_outcome (read_part CHR ''.'' sp1 None) (\<lambda>(buffer1, sp1').
        bind_outcome (read_part CHR ''.'' sp2 b2) (\<lambda>(buffer2, sp2').
          let cmp' = scan_long_or cmp buffer2 in
          if strstr buffer1 ''-'' then
            (case scan_pair scan_long buffer1 from to of (from', to', _) \<Rightarrow>
               if from' < 0 \<or> to' < 0 then Inr (- 1)
               else if from' > cmp' \<or> cmp' > to' then Inr (- 1)
               else range_v4 n sp1' sp2' (Some buffer2) from' to' cmp')
          else (let from' = scan_long_or from buffer1 in
            if from' \<noteq> cmp' then Inr (- 1)
            else range_v4 n sp1' sp2' (Some buffer2) from' to cmp'))))"

text \<open>
  IPv6: a mask is a number of bytes to compare. \<open>memcpy\<close> from the NULL pointer that
  \<open>sockaddr_pton\<close> gives for a text that is no address, and an index behind the sixteen bytes, are
  undefined.
\<close>

definition cidr_v6 :: "inet_pton6 \<Rightarrow> string \<Rightarrow> string \<Rightarrow> int outcome" where
  "cidr_v6 ip6 s1 s2 = (case scan_cidr 40 s1 of (address, bits) \<Rightarrow>
     if bits mod 8 \<noteq> 0 then Inr (- 1)
     else (case (ip6 address, ip6 s2) of
         (Some b1, Some b2) \<Rightarrow>
           (let blocks = nat (bits div 8) in
            if take (min blocks 16) b1 \<noteq> take (min blocks 16) b2 then Inr (- 1)
            else if 16 < blocks then Inl (Undefined ''FuzzySetMatch: s6_addr'')
            else Inr 0)
       | _ \<Rightarrow> Inl (Undefined ''FuzzySetMatch: sockaddr_pton'')))"

fun range_v6 :: "nat \<Rightarrow> string option \<Rightarrow> string option \<Rightarrow> string option \<Rightarrow> string option \<Rightarrow>
    int \<Rightarrow> int \<Rightarrow> int \<Rightarrow> int outcome" where
  "range_v6 0 sp1 sp2 b1 b2 from to cmp = Inr 0"
| "range_v6 (Suc n) sp1 sp2 b1 b2 from to cmp =
     bind_outcome (read_part CHR '':'' sp1 b1) (\<lambda>(buffer1, sp1').
       bind_outcome (read_part CHR '':'' sp2 b2) (\<lambda>(buffer2, sp2').
         if strstr buffer1 ''-'' then
           (case scan_pair scan_hex buffer1 from to of (from', to', _) \<Rightarrow>
              (let cmp' = scan_hex_or cmp buffer2 in
               if from' < 0 \<or> to' < 0 then Inr (- 1)
               else if from' \<ge> cmp' \<or> cmp' > to' then Inr (- 1)
               else range_v6 n sp1' sp2' (Some buffer1) (Some buffer2) from' to' cmp'))
         else (let from' = scan_long_or from buffer1; cmp' = scan_long_or cmp buffer2 in
           if from' \<noteq> cmp' then Inr (- 1)
           else range_v6 n sp1' sp2' (Some buffer1) (Some buffer2) from' to cmp')))"

definition FuzzySetMatch :: "inet_addr \<Rightarrow> inet_pton6 \<Rightarrow> string \<Rightarrow> string \<Rightarrow> int outcome" where
  "FuzzySetMatch ip4 ip6 s1 s2 =
     (let isCIDR = strstr s1 ''/''; isrange = strstr s1 ''-'';
          isv4 = strstr s1 ''.'' \<or> strstr s2 ''.'';
          isv6 = strstr s1 '':'' \<or> strstr s2 '':'' in
      if isv4 \<and> isv6 then Inr (- 1)
      else if isCIDR \<and> isrange then Inr (- 1)
      else if \<not> (isv6 \<or> isv4) then Inr (- 1)
      else if \<not> (isrange \<or> isCIDR) then Inr (strcmp s1 (take (length s1) s2))
      else if isv4 then
        (if isCIDR then cidr_v4 ip4 s1 s2
         else range_v4 4 (Some s1) (Some s2) None (- 1) (- 1) (- 1))
      else if isCIDR then cidr_v6 ip6 s1 s2
      else range_v6 8 (Some s1) (Some s2) None None (- 1) (- 1) (- 1))"

fun fuzzy_among :: "inet_addr \<Rightarrow> inet_pton6 \<Rightarrow> item list \<Rightarrow> string \<Rightarrow> bool outcome" where
  "fuzzy_among ip4 ip6 [] item_name = Inr False"
| "fuzzy_among ip4 ip6 (ptr # ptrs) item_name =
     bind_outcome (FuzzySetMatch ip4 ip6 (it_name ptr) item_name)
       (\<lambda>r. if r = 0 then Inr True else fuzzy_among ip4 ip6 ptrs item_name)"

definition IsFuzzyItemIn :: "inet_addr \<Rightarrow> inet_pton6 \<Rightarrow> item list \<Rightarrow> string option \<Rightarrow> bool outcome" where
  "IsFuzzyItemIn ip4 ip6 xs it = (case it of
       None \<Rightarrow> Inr True
     | Some s \<Rightarrow> if s = [] then Inr True else fuzzy_among ip4 ip6 xs s)"

subsection \<open>Host names with a number\<close>

definition FuzzyHostParse :: "string \<Rightarrow> bool" where
  "FuzzyHostParse arg2 = (snd (snd (scan_pair scan_long arg2 (- 1) (- 1))) = 2)"

text \<open>
  \<open>strncpy\<close> leaves no terminator after \<open>CF_MAXVARSIZE - 1\<close> bytes, and the loop that goes back over
  the digits does not stop at the front of the buffer.
\<close>

definition FuzzyHostMatch :: "string \<Rightarrow> string \<Rightarrow> string \<Rightarrow> int outcome" where
  "FuzzyHostMatch arg0 arg1 refhost =
     (if CF_MAXVARSIZE - 1 \<le> length refhost then Inl (Undefined ''FuzzyHostMatch: refbase'')
      else if list_all isdigit refhost then Inl (Undefined ''FuzzyHostMatch: before refbase'')
      else (let num = rev (takeWhile isdigit (rev refhost));
                refbase = take (length refhost - length num) refhost;
                cmp = scan_long_or (- 1) num in
        if cmp < 0 then Inr 1
        else if refbase = [] then Inr 1
        else (case scan_pair scan_long arg1 (- 1) (- 1) of (start, finish, _) \<Rightarrow>
          if cmp < start \<or> finish < cmp then Inr 1
          else bind_outcome (ToLowerStr refbase) (\<lambda>buf1.
            bind_outcome (ToLowerStr arg0) (\<lambda>buf2.
              if buf1 \<noteq> buf2 then Inr 1 else Inr 0)))))"

section \<open>What the matches mean\<close>

text \<open>
  A colon is not a hexadecimal digit, so the loop of \<open>FuzzyMatchParse\<close> never recognises an address
  and every check behind it is dead code.
\<close>

lemma addr_scan_False: "\<not> addr_scan k s"
  by (induction k s rule: addr_scan.induct) auto

lemma FuzzyMatchParse_accepts: "FuzzyMatchParse s = Inr True"
  by (simp add: FuzzyMatchParse_def addr_scan_False)

subsection \<open>CIDR ranges\<close>

lemma drop_bit_eq_iff_upper:
  fixes a b :: "'a::len word"
  shows "drop_bit k a = drop_bit k b \<longleftrightarrow> (\<forall>i. k \<le> i \<and> i < LENGTH('a) \<longrightarrow> bit a i = bit b i)"
proof
  assume eq: "drop_bit k a = drop_bit k b"
  show "\<forall>i. k \<le> i \<and> i < LENGTH('a) \<longrightarrow> bit a i = bit b i"
  proof (intro allI impI, elim conjE)
    fix i assume i: "k \<le> i" "i < LENGTH('a)"
    have "bit (drop_bit k a) (i - k) = bit (drop_bit k b) (i - k)" using eq by simp
    with i show "bit a i = bit b i" by (simp add: bit_drop_bit_eq)
  qed
next
  assume upper: "\<forall>i. k \<le> i \<and> i < LENGTH('a) \<longrightarrow> bit a i = bit b i"
  show "drop_bit k a = drop_bit k b"
  proof (rule bit_word_eqI)
    fix n
    have "bit a (k + n) = bit b (k + n)"
    proof (cases "k + n < LENGTH('a)")
      case True
      with upper show ?thesis by simp
    next
      case False
      then show ?thesis using bit_imp_le_length by blast
    qed
    then show "bit (drop_bit k a) n = bit (drop_bit k b) n" by (simp add: bit_drop_bit_eq)
  qed
qed

definition same_network :: "nat \<Rightarrow> 32 word \<Rightarrow> 32 word \<Rightarrow> bool" where
  "same_network n a b = (\<forall>i. 32 - n \<le> i \<and> i < 32 \<longrightarrow> bit a i = bit b i)"

lemma same_network_drop_bit: "same_network n a b \<longleftrightarrow> drop_bit (32 - n) a = drop_bit (32 - n) b"
  by (simp add: same_network_def drop_bit_eq_iff_upper)

lemma drop_bit_ucast_eq:
  fixes a b :: "32 word"
  shows "drop_bit k (ucast a :: 64 word) = drop_bit k (ucast b) \<longleftrightarrow>
    (\<forall>i. k \<le> i \<and> i < 32 \<longrightarrow> bit a i = bit b i)"
proof -
  have short: "bit c i \<longleftrightarrow> i < 32 \<and> bit c i" for c :: "32 word" and i
    using bit_imp_le_length [of c i] by auto
  have "(k \<le> i \<and> i < 64 \<longrightarrow> bit a i = bit b i) \<longleftrightarrow> (k \<le> i \<and> i < 32 \<longrightarrow> bit a i = bit b i)" for i
    using short [of a i] short [of b i] by (cases "i < 32") simp_all
  then show ?thesis by (simp add: drop_bit_eq_iff_upper bit_ucast_iff)
qed

lemma scan_int_or_show [simp]: "scan_int_or old (show_nat n) = int n"
  using scan_int_show [of "[]" n] by (simp add: scan_int_or_def)

lemma scan_cidr_show:
  assumes "length address \<le> k" and "address \<noteq> []" and "CHR ''/'' \<notin> set address"
  shows "scan_cidr k (address @ ''/'' @ show_nat n) = (address, int n)"
proof -
  have "scan_not ''/'' (address @ ''/'' @ show_nat n) = address"
    using scan_not_append [of address "''/''" "CHR ''/''"] assms(3) by auto
  with assms show ?thesis by (simp add: scan_cidr_def scan_not_n_def)
qed

lemma show_nat_no: "c \<in> set (show_nat n) \<Longrightarrow> isdigit c"
  using show_nat_digits [of n] by (simp add: list_all_iff)

lemma show_nat_char [simp]:
  "CHR ''/'' \<notin> set (show_nat n)" "CHR ''-'' \<notin> set (show_nat n)"
  "CHR ''.'' \<notin> set (show_nat n)" "CHR '':'' \<notin> set (show_nat n)"
  by (auto dest!: show_nat_no simp: isdigit_def)

lemma strstr_char: "strstr s [c] \<longleftrightarrow> c \<in> set s"
  by (rule strstr_single)

text \<open>
  C29. An IPv4 network in CIDR notation matches an address exactly when the two agree in the
  leading bits that the mask counts. \<open>inet_addr\<close> is any reading of addresses.
\<close>

theorem FuzzySetMatch_cidr:
  assumes "length address \<le> 16" and "CHR ''.'' \<in> set address"
    and "set ''/-:'' \<inter> set address = {}" and "CHR '':'' \<notin> set host" and "n \<le> 32"
  shows "FuzzySetMatch ip4 ip6 (address @ ''/'' @ show_nat n) host =
    Inr (if same_network n (ip4 address) (ip4 host) then 0 else - 1)"
proof -
  let ?s = "address @ ''/'' @ show_nat n"
  have cidr: "scan_cidr 16 ?s = (address, int n)"
    using assms by (intro scan_cidr_show) auto
  have flags: "strstr ?s ''/''" "\<not> strstr ?s ''-''" "strstr ?s ''.''"
      "\<not> strstr ?s '':''" "\<not> strstr host '':''"
    using assms by (auto simp: strstr_char)
  have shift: "nat (32 - int n) = 32 - n" using assms(5) by simp
  have "FuzzySetMatch ip4 ip6 ?s host = cidr_v4 ip4 ?s host"
    using flags by (simp add: FuzzySetMatch_def)
  also have "\<dots> = Inr (if same_network n (ip4 address) (ip4 host) then 0 else - 1)"
    unfolding cidr_v4_def cidr using assms(5)
    by (simp add: shift drop_bit_ucast_eq same_network_def)
  finally show ?thesis .
qed

theorem FuzzySetMatch_cidr_witness:
  "FuzzySetMatch (\<lambda>s. if s = ''10.1.2.3'' then 0x0A010203 else 0x0A0102FF) (\<lambda>_. None) ''10.1.2.3/24'' ''10.1.2.255''
    = Inr 0"
proof -
  let ?ip4 = "\<lambda>s. if s = ''10.1.2.3'' then 0x0A010203 else 0x0A0102FF :: 32 word"
  have shown: "''10.1.2.3'' @ ''/'' @ show_nat 24 = ''10.1.2.3/24''" by code_simp
  have same: "same_network 24 (0x0A010203) (0x0A0102FF)"
    unfolding same_network_drop_bit by code_simp
  show ?thesis
    using FuzzySetMatch_cidr [of "''10.1.2.3''" "''10.1.2.255''" 24 ?ip4 "\<lambda>_. None"] same shown by simp
qed

subsection \<open>Ranges of octets\<close>

datatype octet = One nat | Span nat nat

fun show_octet :: "octet \<Rightarrow> string" where
  "show_octet (One a) = show_nat a"
| "show_octet (Span a b) = show_nat a @ ''-'' @ show_nat b"

fun octet_ok :: "octet \<Rightarrow> nat \<Rightarrow> bool" where
  "octet_ok (One a) n = (n = a)"
| "octet_ok (Span a b) n = (a \<le> n \<and> n \<le> b)"

fun wf_octet :: "octet \<Rightarrow> bool" where
  "wf_octet (One a) = (a < 256)"
| "wf_octet (Span a b) = (a < 256 \<and> b < 256)"

lemma show_octet_no:
  "CHR ''.'' \<notin> set (show_octet oc)" "CHR ''/'' \<notin> set (show_octet oc)" "CHR '':'' \<notin> set (show_octet oc)"
  by (cases oc; simp)+

lemma show_octet_short:
  assumes "wf_octet oc"
  shows "show_octet oc \<noteq> []" "length (show_octet oc) < CF_MAX_IP_LEN"
proof -
  have short: "n < 256 \<Longrightarrow> length (show_nat n) \<le> 3" for n using length_show_nat [of n 2] by simp
  then have "length (show_octet oc) \<le> 7"
    using assms by (cases oc) (force dest!: short)+
  then show "length (show_octet oc) < CF_MAX_IP_LEN" by (simp add: CF_MAX_IP_LEN_def)
  show "show_octet oc \<noteq> []" by (cases oc) simp_all
qed

lemma scan_long_show:
  assumes "n < 2 ^ 63" and "r = [] \<or> \<not> isdigit (hd r)"
  shows "scan_long (show_nat n @ r) = Some (int n, r)"
proof -
  have "int n < 2 ^ 63" using assms(1) by simp
  then show ?thesis using scan_int_show [OF assms(2), of n] by (simp add: scan_long_def long_clip_def)
qed

lemma scan_long_or_show: "n < 2 ^ 63 \<Longrightarrow> scan_long_or old (show_nat n) = int n"
  using scan_long_show [of n "[]"] by (simp add: scan_long_or_def)

lemma scan_pair_show:
  assumes "a < 2 ^ 63" and "b < 2 ^ 63"
  shows "scan_pair scan_long (show_nat a @ CHR ''-'' # show_nat b) from to = (int a, int b, 2)"
  using scan_long_show [of a "CHR ''-'' # show_nat b"] scan_long_show [of b "[]"] assms
  by (simp add: scan_pair_def isdigit_def)

lemma read_part_join:
  assumes "sep \<notin> set p" and "p \<noteq> []" and "length p < CF_MAX_IP_LEN"
  shows "read_part sep (Some (join_names sep (p # ps))) old =
    Inr (p, if ps = [] then None else Some (join_names sep ps))"
proof (cases ps)
  case Nil
  with assms show ?thesis by (simp add: read_part_def)
next
  case (Cons q qs)
  have "scan_not [sep] (p @ sep # join_names sep (q # qs)) = p"
    using assms(1) by (intro scan_not_append) auto
  with Cons assms show ?thesis by (simp add: read_part_def)
qed

lemma dash_in_octet: "CHR ''-'' \<in> set (show_octet oc) \<longleftrightarrow> (\<exists>a b. oc = Span a b)"
  by (cases oc) auto

lemma range_v4_step:
  assumes "wf_octet oc" and "a < 256"
    and "sp1 = (if ocs = [] then None else Some (join_names CHR ''.'' (map show_octet ocs)))"
    and "sp2 = (if hs = [] then None else Some (join_names CHR ''.'' (map show_nat hs)))"
  obtains from' to' cmp' where
    "range_v4 (Suc n) (Some (join_names CHR ''.'' (map show_octet (oc # ocs))))
       (Some (join_names CHR ''.'' (map show_nat (a # hs)))) b2 from to cmp =
     (if octet_ok oc a then range_v4 n sp1 sp2 (Some (show_nat a)) from' to' cmp' else Inr (- 1))"
proof -
  let ?t1 = "join_names CHR ''.'' (map show_octet (oc # ocs))"
  let ?t2 = "join_names CHR ''.'' (map show_nat (a # hs))"
  have small: "a < 2 ^ 63" "length (show_nat a) < CF_MAX_IP_LEN"
    using assms(2) length_show_nat [of a 2] by (auto simp: CF_MAX_IP_LEN_def)
  have r1: "read_part CHR ''.'' (Some ?t1) None = Inr (show_octet oc, sp1)"
    using read_part_join [of "CHR ''.''" "show_octet oc" "map show_octet ocs"]
      show_octet_no show_octet_short [OF assms(1)] assms(3) by simp
  have r2: "read_part CHR ''.'' (Some ?t2) b2 = Inr (show_nat a, sp2)"
    using read_part_join [of "CHR ''.''" "show_nat a" "map show_nat hs"] small assms(4) by simp
  have some: "\<not> no_part CHR ''.'' (Some ?t1)"
    using r1 show_octet_short(1) [OF assms(1)]
    by (auto simp: no_part_def read_part_def split: if_splits)
  show ?thesis
  proof (cases oc)
    case (One b)
    with assms(1) have "b < 2 ^ 63" by simp
    with One some r1 r2 small have
      "range_v4 (Suc n) (Some ?t1) (Some ?t2) b2 from to cmp =
        (if octet_ok oc a then range_v4 n sp1 sp2 (Some (show_nat a)) (int b) to (int a) else Inr (- 1))"
      by (simp add: scan_long_or_show strstr_char)
    then show ?thesis by (rule that)
  next
    case (Span b c)
    with assms(1) have "b < 2 ^ 63" "c < 2 ^ 63" by simp_all
    with Span some r1 r2 small have
      "range_v4 (Suc n) (Some ?t1) (Some ?t2) b2 from to cmp =
        (if octet_ok oc a then range_v4 n sp1 sp2 (Some (show_nat a)) (int b) (int c) (int a) else Inr (- 1))"
      by (simp add: scan_long_or_show scan_pair_show strstr_char)
    then show ?thesis by (rule that)
  qed
qed

lemma range_v4_join:
  assumes "length hs = length ocs" and "length ocs \<le> n" and "ocs \<noteq> []"
    and "list_all wf_octet ocs" and "list_all (\<lambda>a. a < 256) hs"
  shows "range_v4 n (Some (join_names CHR ''.'' (map show_octet ocs)))
      (Some (join_names CHR ''.'' (map show_nat hs))) b2 from to cmp =
    (if \<not> list_all2 octet_ok ocs hs then Inr (- 1)
     else if length ocs = n then Inr 0
     else Inl (Undefined ''read behind the end of an address''))"
  using assms
proof (induction ocs arbitrary: hs n b2 "from" "to" cmp)
  case (Cons oc ocs)
  then obtain a hs' m where hs: "hs = a # hs'" and n: "n = Suc m" by (cases hs; cases n) auto
  obtain from' to' cmp' where step: "range_v4 (Suc m) (Some (join_names CHR ''.'' (map show_octet (oc # ocs))))
       (Some (join_names CHR ''.'' (map show_nat (a # hs')))) b2 from to cmp =
     (if octet_ok oc a
      then range_v4 m (if ocs = [] then None else Some (join_names CHR ''.'' (map show_octet ocs)))
        (if hs' = [] then None else Some (join_names CHR ''.'' (map show_nat hs')))
        (Some (show_nat a)) from' to' cmp' else Inr (- 1))"
    using range_v4_step [OF _ _ refl refl, of oc a m ocs hs' b2 "from" "to" cmp] Cons.prems hs by auto
  show ?case
  proof (cases "ocs = []")
    case True
    with Cons.prems step hs n show ?thesis
      by (cases m) (simp_all add: no_part_def read_part_def)
  next
    case False
    with Cons.prems hs have "hs' \<noteq> []" by auto
    with False Cons.prems hs n step Cons.IH [of hs' m] show ?thesis by simp
  qed
qed simp

lemma join_names_set: "set (join_names sep ts) \<subseteq> insert sep (\<Union>(set ` set ts))"
  by (induction sep ts rule: join_names.induct) auto

lemma join_names_members: "t \<in> set ts \<Longrightarrow> set t \<subseteq> set (join_names sep ts)"
  by (induction sep ts rule: join_names.induct) auto

lemma join_names_no:
  "c \<noteq> sep \<Longrightarrow> \<forall>t\<in>set ts. c \<notin> set t \<Longrightarrow> c \<notin> set (join_names sep ts)"
  using join_names_set [of sep ts] by blast

lemma join_names_sep: "1 < length ts \<Longrightarrow> sep \<in> set (join_names sep ts)"
  by (induction sep ts rule: join_names.induct) auto

text \<open>
  A range of octets matches an address exactly when each octet of the address lies in the
  range given at its place, where the range has four places. If it has fewer and they all match,
  the code reads behind the terminators of both strings.
\<close>

lemma FuzzySetMatch_octets:
  assumes "length hs = length ocs" and "2 \<le> length ocs" and "length ocs \<le> 4"
    and "list_all wf_octet ocs" and "list_all (\<lambda>a. a < 256) hs"
    and "Span a b \<in> set ocs"
  shows "FuzzySetMatch ip4 ip6 (join_names CHR ''.'' (map show_octet ocs))
      (join_names CHR ''.'' (map show_nat hs)) =
    (if \<not> list_all2 octet_ok ocs hs then Inr (- 1)
     else if length ocs = 4 then Inr 0
     else Inl (Undefined ''read behind the end of an address''))"
proof -
  let ?s1 = "join_names CHR ''.'' (map show_octet ocs)"
  let ?s2 = "join_names CHR ''.'' (map show_nat hs)"
  have "show_octet (Span a b) \<in> set (map show_octet ocs)" unfolding set_map using assms(6) by (rule imageI)
  then have "CHR ''-'' \<in> set ?s1" using join_names_members by fastforce
  moreover have "CHR ''.'' \<in> set ?s1" using assms(2) by (intro join_names_sep) simp
  moreover have "CHR ''/'' \<notin> set ?s1" "CHR '':'' \<notin> set ?s1" "CHR '':'' \<notin> set ?s2"
    by (intro join_names_no; auto simp: show_octet_no)+
  ultimately have "FuzzySetMatch ip4 ip6 ?s1 ?s2 = range_v4 4 (Some ?s1) (Some ?s2) None (- 1) (- 1) (- 1)"
    by (simp add: FuzzySetMatch_def strstr_char)
  also have "\<dots> = (if \<not> list_all2 octet_ok ocs hs then Inr (- 1)
     else if length ocs = 4 then Inr 0 else Inl (Undefined ''read behind the end of an address''))"
    using assms by (intro range_v4_join) auto
  finally show ?thesis .
qed

lemma FuzzySetMatch_octets_witness:
  "FuzzySetMatch (\<lambda>_. 0) (\<lambda>_. None) ''10.1.2.3-40'' ''10.1.2.40'' = Inr 0"
proof -
  have shown: "join_names CHR ''.'' (map show_octet [One 10, One 1, One 2, Span 3 40]) = ''10.1.2.3-40''"
    "join_names CHR ''.'' (map show_nat [10, 1, 2, 40]) = ''10.1.2.40''" by code_simp+
  show ?thesis
    using FuzzySetMatch_octets [of "[10, 1, 2, 40]" "[One 10, One 1, One 2, Span 3 40]" 3 40 "\<lambda>_. 0" "\<lambda>_. None"] shown
    by simp
qed

subsection \<open>IPv6 ranges\<close>

text \<open>
  The lower bound of an IPv6 range is excluded; a group without a range is read as a decimal number,
  so two groups that begin with a letter always agree.
\<close>

lemma FuzzySetMatch_v6_lower_bound:
  "FuzzySetMatch ip4 ip6 ''2001:0:0:0:0:0:0:1-5'' ''2001:0:0:0:0:0:0:1'' = Inr (- 1)"
  "FuzzySetMatch ip4 ip6 ''2001:0:0:0:0:0:0:1-5'' ''2001:0:0:0:0:0:0:2'' = Inr 0"
  by code_simp+

lemma FuzzySetMatch_v6_letters:
  "FuzzySetMatch ip4 ip6 ''fe80:0:0:0:0:0:0:1-5'' ''abcd:0:0:0:0:0:0:2'' = Inr 0"
  by code_simp

subsection \<open>Host names\<close>

lemma scan_pair_FuzzyHostParse: "a < 2 ^ 63 \<Longrightarrow> b < 2 ^ 63 \<Longrightarrow> FuzzyHostParse (show_nat a @ ''-'' @ show_nat b)"
  by (simp add: FuzzyHostParse_def scan_pair_show)

lemma scan_long_digits:
  assumes "list_all isdigit ds" and "ds \<noteq> []"
  shows "scan_long_or old ds = long_clip (digits_value ds)"
proof -
  obtain d r where ds: "ds = d # r" using assms(2) by (cases ds) auto
  have all: "takeWhile isdigit ds = ds"
    using assms(1) by (simp add: list_all_iff takeWhile_eq_all_conv)
  have "scan_unsigned ds = Some (digits_value ds, [])" unfolding scan_unsigned_def all using assms(2) by simp
  with ds assms(1) isdigit_not [of d] show ?thesis
    by (simp add: scan_long_or_def scan_long_def scan_int_def)
qed

lemma digits_value_nonneg: "list_all isdigit ds \<Longrightarrow> 0 \<le> digits_value ds"
  by (induction ds rule: rev_induct) (auto simp: digits_value_snoc isdigit_def digits_value_def)

lemma takeWhile_rev_split:
  assumes "list_all isdigit ds" and "b \<noteq> []" and "\<not> isdigit (last b)"
  shows "takeWhile isdigit (rev (b @ ds)) = rev ds"
proof -
  obtain a x where b: "b = a @ [x]" using assms(2) by (cases b rule: rev_cases) auto
  have "takeWhile isdigit (rev ds @ x # rev a) = rev ds"
    using assms(1,3) b by (subst takeWhile_append2) (auto simp: list_all_iff)
  then show ?thesis by (simp add: b)
qed

lemma until_nul_ToLower_length: "length s < CF_BUFSIZE - 1 \<Longrightarrow> ToLowerStr s = Inr (until_nul (map ToLower s))"
  by (simp add: ToLowerStr_def)

text \<open>
  C30. A host name that is a base name and a number matches a base name and a range exactly when
  the base names agree up to case and the number lies in the range. The names are short enough for
  the buffers of the code.
\<close>

theorem FuzzyHostMatch_correct:
  assumes "list_all isdigit ds" and "ds \<noteq> []" and "base \<noteq> []" and "\<not> isdigit (last base)"
    and "length base + length ds < CF_MAXVARSIZE - 1" and "length name < CF_BUFSIZE - 1"
    and "digits_value ds < 2 ^ 63" and "a < 2 ^ 63" and "b < 2 ^ 63"
  shows "FuzzyHostMatch name (show_nat a @ ''-'' @ show_nat b) (base @ ds) =
    Inr (if int a \<le> digits_value ds \<and> digits_value ds \<le> int b
            \<and> until_nul (map ToLower base) = until_nul (map ToLower name) then 0 else 1)"
proof -
  have num: "rev (takeWhile isdigit (rev (base @ ds))) = ds"
    using takeWhile_rev_split [OF assms(1,3,4)] by simp
  have cmp: "scan_long_or (- 1) ds = digits_value ds" "0 \<le> digits_value ds"
    using scan_long_digits [OF assms(1,2)] digits_value_nonneg [OF assms(1)] assms(7)
    by (simp_all add: long_clip_def)
  have "\<not> list_all isdigit base" using assms(3,4) by (auto simp: list_all_iff)
  moreover have "length base < CF_BUFSIZE - 1"
    using assms(5) by (simp add: CF_MAXVARSIZE_def CF_BUFSIZE_def)
  ultimately show ?thesis
    unfolding FuzzyHostMatch_def num
    using assms cmp by (simp add: scan_pair_show until_nul_ToLower_length)
qed

theorem FuzzyHostMatch_correct_witness:
  "FuzzyHostMatch ''node'' ''1-12'' ''Node07'' = Inr 0"
proof -
  have shown: "show_nat 1 @ ''-'' @ show_nat 12 = ''1-12''" by code_simp
  have "digits_value ''07'' = 7" "list_all isdigit ''07''" "\<not> isdigit (last ''Node'')"
    "until_nul (map ToLower ''Node'') = until_nul (map ToLower ''node'')" by code_simp+
  then show ?thesis
    using FuzzyHostMatch_correct [of "''07''" "''Node''" "''node''" 1 12] shown
    by (simp add: CF_MAXVARSIZE_def CF_BUFSIZE_def)
qed

end
