(* ===== verification/ServerAccess.thy ===== *)
theory ServerAccess
  imports Wildcards Fuzzy
begin

text \<open>
  cfservd.c: the connections of the server and the access rules for files (\<open>AccessControl\<close>), built
  on the file names of filenames.c, the patterns of wildcard.c and the address ranges of item.c.
  What the server asks the operating system is a parameter (\<open>server_env\<close>); the code is modelled
  with \<open>HAVE_REALPATH\<close> and \<open>HAVE_GETADDRINFO\<close>. Log messages are left out.
\<close>

subsection \<open>State\<close>

text \<open>
  \<open>malloc\<close> leaves a field of a new connection unset if \<open>NewConn\<close> does not write it: \<open>maproot\<close> and
  \<open>uid\<close> are \<open>None\<close> until they are written.
\<close>

record cfd_connection =
  id_verified :: bool
  rsa_auth :: bool
  trust :: bool
  maproot :: "bool option"
  hostname :: string
  username :: string
  ipaddr :: string
  conn_uid :: "int option"
  session_key :: "string option"

record auth =
  ap_path :: string
  ap_classes :: "string option"
  accesslist :: "item list"
  maproot_list :: "item list"
  ap_encrypt :: bool

record stat_info =
  st_mode :: nat
  st_nlink :: int
  st_uid :: int
  st_gid :: int
  st_size :: int
  st_blocks :: int
  st_atime :: int
  st_mtime :: int
  st_ctime :: int
  st_ino :: int
  st_dev :: int

record server_env =
  inet_addr :: inet_addr
  inet_pton6 :: inet_pton6
  realpath :: "string \<Rightarrow> string option"
  lstat :: "string \<Rightarrow> stat_info option"
  stat_file :: "string \<Rightarrow> stat_info option"
  readlink :: "string \<Rightarrow> string option"

record server_config =
  VADMIT :: "auth list"
  VDENY :: "auth list"
  ALLOWUSERLIST :: "item list"
  classes_of :: class_state

definition NewConn :: cfd_connection where
  "NewConn = \<lparr>id_verified = False, rsa_auth = False, trust = False, maproot = None,
     hostname = [], username = [], ipaddr = [], conn_uid = None, session_key = None\<rparr>"

subsection \<open>Access control\<close>

definition MapAddress :: "string \<Rightarrow> string" where
  "MapAddress unspec_address =
     (if strncmp_eq unspec_address ''::ffff:'' 7 then drop 7 unspec_address else unspec_address)"

definition AllowedUser :: "server_config \<Rightarrow> string \<Rightarrow> bool" where
  "AllowedUser cfg user = IsItemIn (ALLOWUSERLIST cfg) (Some user)"

text \<open>The test of a connection against a list of hosts, which the code writes out at each place.\<close>

definition or_outcome :: "bool outcome \<Rightarrow> bool outcome \<Rightarrow> bool outcome" where
  "or_outcome a b = bind_outcome a (\<lambda>r. if r then Inr True else b)"

definition host_in :: "server_env \<Rightarrow> server_config \<Rightarrow> item list \<Rightarrow> cfd_connection \<Rightarrow> bool outcome" where
  "host_in env cfg hosts conn =
     or_outcome (IsWildItemIn (classes_of cfg) hosts (hostname conn))
       (or_outcome (IsWildItemIn (classes_of cfg) hosts (MapAddress (ipaddr conn)))
         (IsFuzzyItemIn (inet_addr env) (inet_pton6 env) hosts (Some (MapAddress (ipaddr conn)))))"

definition covers :: "string \<Rightarrow> string \<Rightarrow> bool" where
  "covers rule_path realname =
     ((length rule_path < length realname \<and> strncmp_eq rule_path realname (length rule_path)
         \<and> realname ! length rule_path = CHR ''/'')
      \<or> rule_path = realname)"

fun admit_rules :: "server_env \<Rightarrow> server_config \<Rightarrow> string \<Rightarrow> bool \<Rightarrow> auth list \<Rightarrow> cfd_connection
    \<Rightarrow> (cfd_connection \<times> bool) outcome" where
  "admit_rules env cfg realname encrypt [] conn = Inr (conn, False)"
| "admit_rules env cfg realname encrypt (ap # aps) conn =
     (if covers (ap_path ap) realname then
        (if stat_file env (ap_path ap) = None then admit_rules env cfg realname encrypt aps conn
         else if \<not> encrypt \<and> ap_encrypt ap then Inr (conn, False)
         else bind_outcome (host_in env cfg (maproot_list ap) conn) (\<lambda>m.
           bind_outcome (host_in env cfg (accesslist ap) conn) (\<lambda>a.
             Inr (if m then conn\<lparr>maproot := Some True\<rparr> else conn, a))))
      else admit_rules env cfg realname encrypt aps conn)"

fun deny_rules :: "server_env \<Rightarrow> server_config \<Rightarrow> string \<Rightarrow> auth list \<Rightarrow> cfd_connection \<Rightarrow> bool
    \<Rightarrow> bool outcome" where
  "deny_rules env cfg realname [] conn access = Inr access"
| "deny_rules env cfg realname (ap # aps) conn access =
     (if strncmp_eq (ap_path ap) realname (length (ap_path ap)) then
        bind_outcome (host_in env cfg (accesslist ap) conn)
          (\<lambda>h. if h then Inr False else deny_rules env cfg realname aps conn access)
      else deny_rules env cfg realname aps conn access)"

text \<open>
  The name with its links resolved: all but the last node go through \<open>realpath\<close>. \<open>None\<close> if that
  fails. The buffers have \<open>CF_BUFSIZE\<close> bytes; \<open>strcat\<close> does not look.
\<close>

definition real_name :: "server_env \<Rightarrow> string \<Rightarrow> string option outcome" where
  "real_name env filename =
     (if CF_BUFSIZE - 1 \<le> length filename then Inl (Undefined ''AccessControl: path'')
      else (let lastnode = ReadLastNode filename in
        bind_outcome (ChopLastNode filename) (\<lambda>(path, _).
          case realpath env path of
            None \<Rightarrow> Inr None
          | Some r \<Rightarrow> bind_outcome (AddSlash r) (\<lambda>realname.
              if CF_BUFSIZE \<le> length (realname @ lastnode)
              then Inl (Undefined ''AccessControl: realname'')
              else Inr (Some (realname @ lastnode))))))"

definition AccessControl :: "server_env \<Rightarrow> server_config \<Rightarrow> string \<Rightarrow> cfd_connection \<Rightarrow> bool
    \<Rightarrow> (cfd_connection \<times> bool) outcome" where
  "AccessControl env cfg filename conn encrypt =
     bind_outcome (real_name env filename) (\<lambda>name. case name of
         None \<Rightarrow> Inr (conn, False)
       | Some realname \<Rightarrow>
           if lstat env realname = None then Inr (conn, False)
           else if VADMIT cfg = [] then Inr (conn, False)
           else bind_outcome (admit_rules env cfg realname encrypt (VADMIT cfg) (conn\<lparr>maproot := Some False\<rparr>))
             (\<lambda>(conn', access).
               bind_outcome (deny_rules env cfg realname (VDENY cfg) conn' access)
                 (\<lambda>access'. Inr (if \<not> rsa_auth conn' then conn'\<lparr>maproot := Some False\<rparr> else conn', access'))))"

section \<open>What is granted\<close>

text \<open>The rule that decides: the first that covers the name and exists.\<close>

definition deciding_rule :: "server_env \<Rightarrow> string \<Rightarrow> auth list \<Rightarrow> auth option" where
  "deciding_rule env realname rules = find (\<lambda>ap. covers (ap_path ap) realname \<and> stat_file env (ap_path ap) \<noteq> None) rules"

lemma admit_rules_decided:
  "admit_rules env cfg realname encrypt rules conn = (case deciding_rule env realname rules of
       None \<Rightarrow> Inr (conn, False)
     | Some ap \<Rightarrow>
         if \<not> encrypt \<and> ap_encrypt ap then Inr (conn, False)
         else bind_outcome (host_in env cfg (maproot_list ap) conn) (\<lambda>m.
           bind_outcome (host_in env cfg (accesslist ap) conn) (\<lambda>a.
             Inr (if m then conn\<lparr>maproot := Some True\<rparr> else conn, a))))"
  by (induction rules) (auto simp: deciding_rule_def)

lemma host_in_maproot [simp]: "host_in env cfg hosts (conn\<lparr>maproot := m\<rparr>) = host_in env cfg hosts conn"
  by (simp add: host_in_def)

lemma deny_rules_True:
  "deny_rules env cfg realname rules conn access = Inr True \<longleftrightarrow>
     access \<and> (\<forall>ap\<in>set rules. strncmp_eq (ap_path ap) realname (length (ap_path ap)) \<longrightarrow>
                  host_in env cfg (accesslist ap) conn = Inr False)"
proof (induction rules)
  case (Cons ap rules)
  then show ?case
    by (cases "host_in env cfg (accesslist ap) conn") (auto split: if_splits)
qed simp

lemma deny_rules_maproot [simp]:
  "deny_rules env cfg realname rules (conn\<lparr>maproot := m\<rparr>) access = deny_rules env cfg realname rules conn access"
proof (induction rules)
  case (Cons ap rules)
  then show ?case by (cases "host_in env cfg (accesslist ap) conn") simp_all
qed simp

definition may_read :: "server_env \<Rightarrow> server_config \<Rightarrow> string \<Rightarrow> cfd_connection \<Rightarrow> bool \<Rightarrow> auth \<Rightarrow> bool" where
  "may_read env cfg realname conn encrypt ap =
     (deciding_rule env realname (VADMIT cfg) = Some ap
      \<and> (encrypt \<or> \<not> ap_encrypt ap)
      \<and> host_in env cfg (accesslist ap) conn = Inr True
      \<and> (\<forall>d\<in>set (VDENY cfg). strncmp_eq (ap_path d) realname (length (ap_path d)) \<longrightarrow>
            host_in env cfg (accesslist d) conn = Inr False))"

text \<open>
  C3. A request is granted only for an existing file that an admit rule covers, to a host in the
  list of the first such rule, encrypted where the rule asks for it, and no deny rule whose path is
  a prefix of the name lists the host. Root is mapped only with a key and if the rule says so.
\<close>

theorem AccessControl_granted:
  assumes "AccessControl env cfg filename conn encrypt = Inr (conn', True)"
  shows "\<exists>realname ap. real_name env filename = Inr (Some realname) \<and> lstat env realname \<noteq> None
    \<and> may_read env cfg realname conn encrypt ap
    \<and> (maproot conn' = Some True \<longrightarrow> rsa_auth conn \<and> host_in env cfg (maproot_list ap) conn = Inr True)"
proof -
  obtain realname where name: "real_name env filename = Inr (Some realname)" "lstat env realname \<noteq> None"
    using assms by (auto simp: AccessControl_def elim!: bind_outcome_InrE split: option.splits if_splits)
  let ?conn = "conn\<lparr>maproot := Some False\<rparr>"
  obtain c access where admit: "admit_rules env cfg realname encrypt (VADMIT cfg) ?conn = Inr (c, access)"
    and deny: "deny_rules env cfg realname (VDENY cfg) c access = Inr True"
    and result: "conn' = (if \<not> rsa_auth c then c\<lparr>maproot := Some False\<rparr> else c)"
    using assms name by (auto simp: AccessControl_def elim!: bind_outcome_InrE split: if_splits)
  from deny have access by (simp add: deny_rules_True)
  with admit obtain ap m where ap: "deciding_rule env realname (VADMIT cfg) = Some ap"
    "encrypt \<or> \<not> ap_encrypt ap" "host_in env cfg (accesslist ap) conn = Inr True"
    and m: "host_in env cfg (maproot_list ap) conn = Inr m" "c = (if m then ?conn\<lparr>maproot := Some True\<rparr> else ?conn)"
    by (auto simp: admit_rules_decided elim!: bind_outcome_InrE split: option.splits if_splits)
  from deny m(2) have "\<forall>d\<in>set (VDENY cfg). strncmp_eq (ap_path d) realname (length (ap_path d)) \<longrightarrow>
      host_in env cfg (accesslist d) conn = Inr False"
    by (cases m) (simp_all add: deny_rules_True)
  with ap have "may_read env cfg realname conn encrypt ap" by (simp add: may_read_def)
  moreover have "maproot conn' = Some True \<longrightarrow> rsa_auth conn \<and> host_in env cfg (maproot_list ap) conn = Inr True"
    using m result by (auto split: if_splits)
  ultimately show ?thesis using name by blast
qed

theorem AccessControl_granted_witness:
  "\<exists>conn'. AccessControl
     \<lparr>inet_addr = \<lambda>_. 0, inet_pton6 = \<lambda>_. None, realpath = Some, lstat = \<lambda>_. Some \<lparr>st_mode = 0, st_nlink = 1, st_uid = 0, st_gid = 0, st_size = 0, st_blocks = 0, st_atime = 0,
      st_mtime = 0, st_ctime = 0, st_ino = 0, st_dev = 0\<rparr>,
      stat_file = \<lambda>_. Some \<lparr>st_mode = 0, st_nlink = 1, st_uid = 0, st_gid = 0, st_size = 0, st_blocks = 0, st_atime = 0,
      st_mtime = 0, st_ctime = 0, st_ino = 0, st_dev = 0\<rparr>, readlink = \<lambda>_. None\<rparr>
     \<lparr>VADMIT = [\<lparr>ap_path = ''/data'', ap_classes = None, accesslist = [mk_item ''*.cf.org'' None],
                 maproot_list = [], ap_encrypt = True\<rparr>],
      VDENY = [], ALLOWUSERLIST = [],
      classes_of = \<lparr>VHEAP = [], VNEGHEAP = [], VADDCLASSES = [], VALLADDCLASSES = [], ABORTHEAP = [],
        CONTEXTID = [], INSTALLALL = False, CONTROL_ACTION = False, PARSING = False, VIFELAPSED = 0,
        VEXPIREAFTER = 0\<rparr>\<rparr>
     ''/data/x'' (NewConn\<lparr>hostname := ''a.cf.org'', ipaddr := ''10.0.0.1''\<rparr>) True = Inr (conn', True)
   \<and> conn' = NewConn\<lparr>hostname := ''a.cf.org'', ipaddr := ''10.0.0.1'', maproot := Some False\<rparr>"
  (is "\<exists>conn'. AccessControl ?env ?cfg _ ?conn _ = _ \<and> _")
proof -
  have granted: "AccessControl ?env ?cfg ''/data/x'' ?conn True = Inr (?conn\<lparr>maproot := Some False\<rparr>, True)"
    by code_simp
  from AccessControl_granted [OF granted] granted show ?thesis by auto
qed

text \<open>
  The host name of a connection is compared as a pattern too, and it is the name the client gives.
  A client that calls itself \<open>*\<close> is in every list with an item.
\<close>

lemma WildMatch_star [simp]: "WildMatch ''*'' s = Inr (s \<noteq> [])"
  by (simp add: WildMatch_def wild_loop.simps)

lemma host_in_star:
  assumes "hostname conn = ''*''" and "IsExcluded (classes_of cfg) (it_classes it) = Inr False" and "it_name it \<noteq> []"
  shows "host_in env cfg (it # hosts) conn = Inr True"
  using assms by (simp add: host_in_def or_outcome_def)

end
