(* ===== verification/ServerKeys.thy ===== *)
theory ServerKeys
  imports ServerAccess
begin

text \<open>
  cfservd.c and crypto.c: the public keys of the clients and the authentication dialogue. The
  primitives of OpenSSL and the texts on the wire are parameters (\<open>crypto_env\<close>). The key files are a
  map from their names, the database of dynamic addresses a map from the bytes of the key structure,
  which the code uses as the database key; files and database are taken to be accessible.
\<close>

definition CF_NONCELEN :: nat where "CF_NONCELEN = CF_BUFSIZE div 16"
definition CF_RSA_PROTO_OFFSET :: nat where "CF_RSA_PROTO_OFFSET = 24"
definition CF_BLOWFISHSIZE :: nat where "CF_BLOWFISHSIZE = 16"
definition CF_MD5_LEN :: nat where "CF_MD5_LEN = 16"

record rsa =
  rsa_n :: int
  rsa_e :: int
  rsa_bytes :: string \<comment> \<open>the bytes of the structure, pointers included\<close>

record crypto_env =
  private_decrypt :: "string \<Rightarrow> string option"
  public_encrypt :: "rsa \<Rightarrow> string \<Rightarrow> string option"
  md5 :: "string \<Rightarrow> string"
  mpi2bn :: "string \<Rightarrow> int option"
  rsa_struct :: "nat \<Rightarrow> int \<Rightarrow> int \<Rightarrow> string"
  rsa_size :: "rsa \<Rightarrow> nat"
  bn_rand :: "nat \<Rightarrow> string"
  own_modulus :: string
  own_exponent :: string
  heap_bytes :: string

record key_config =
  DHCPLIST :: "item list"
  TRUSTKEYLIST :: "item list"
  HostnameKeys :: bool
  have_keypair :: bool

record key_state =
  SKIPVERIFY :: "item list"
  ppkeys :: "string \<Rightarrow> rsa option"
  dynamic_db :: "string \<Rightarrow> string option"
  keys_made :: nat

subsection \<open>Key files\<close>

definition HavePublicKey :: "key_state \<Rightarrow> string \<Rightarrow> rsa option outcome" where
  "HavePublicKey st name = (case ppkeys st name of
       None \<Rightarrow> Inr None
     | Some k \<Rightarrow> if rsa_e k < 2 \<or> even (rsa_e k) then Inl (FatalErr ''RSA Exponent too small or not odd'')
                 else Inr (Some k))"

definition SavePublicKey :: "key_state \<Rightarrow> string \<Rightarrow> rsa \<Rightarrow> key_state" where
  "SavePublicKey st name key =
     (if ppkeys st name \<noteq> None then st else st\<lparr>ppkeys := (ppkeys st)(name := Some key)\<rparr>)"

definition DeletePublicKey :: "key_state \<Rightarrow> string \<Rightarrow> key_state" where
  "DeletePublicKey st name = st\<lparr>ppkeys := (ppkeys st)(name := None)\<rparr>"

subsection \<open>Accepting a key\<close>

definition fuzzy_in :: "server_env \<Rightarrow> item list \<Rightarrow> string \<Rightarrow> bool outcome" where
  "fuzzy_in env hosts addr = IsFuzzyItemIn (inet_addr env) (inet_pton6 env) hosts (Some addr)"

definition listed :: "server_env \<Rightarrow> item list \<Rightarrow> string \<Rightarrow> bool outcome" where
  "listed env hosts addr = (if hosts = [] then Inr False else fuzzy_in env hosts addr)"

text \<open>\<open>snprintf\<close> into \<open>keyname[CF_MAXVARSIZE]\<close>.\<close>

definition key_name :: "string \<Rightarrow> string \<Rightarrow> string" where
  "key_name user place = take (CF_MAXVARSIZE - 1) (user @ ''-'' @ place)"

definition IsWildKnownHost :: "server_env \<Rightarrow> key_config \<Rightarrow> key_state \<Rightarrow> rsa \<Rightarrow> string \<Rightarrow> string
    \<Rightarrow> (key_state \<times> bool) outcome" where
  "IsWildKnownHost env cfg st newkey mipaddr user =
     (let keyname = key_name user mipaddr in
      bind_outcome (listed env (TRUSTKEYLIST cfg) mipaddr) (\<lambda>trusted.
        case dynamic_db st (rsa_bytes newkey) of
          None \<Rightarrow>
            (let st' = (if trusted
                        then DeletePublicKey
                          (st\<lparr>dynamic_db := (dynamic_db st)(rsa_bytes newkey := Some mipaddr)\<rparr>) keyname
                        else st) in
             Inr (SavePublicKey st' keyname newkey, trusted))
        | Some _ \<Rightarrow> Inr (SavePublicKey (DeletePublicKey st keyname) keyname newkey, True)))"

definition AddToKeyDB :: "server_env \<Rightarrow> key_config \<Rightarrow> key_state \<Rightarrow> rsa \<Rightarrow> string \<Rightarrow> key_state outcome" where
  "AddToKeyDB env cfg st newkey mipaddr =
     bind_outcome (listed env (DHCPLIST cfg) mipaddr) (\<lambda>dhcp.
       Inr (if dhcp then st\<lparr>dynamic_db := (dynamic_db st)(rsa_bytes newkey := Some mipaddr)\<rparr> else st))"

text \<open>The reply sent and the answer of \<open>CheckStoreKey\<close> for a key on a dynamic address.\<close>

definition dynamic_key :: "server_env \<Rightarrow> key_config \<Rightarrow> key_state \<Rightarrow> cfd_connection \<Rightarrow> rsa
    \<Rightarrow> (key_state \<times> cfd_connection \<times> string \<times> bool) outcome" where
  "dynamic_key env cfg st conn key =
     bind_outcome (IsWildKnownHost env cfg st key (MapAddress (ipaddr conn)) (username conn)) (\<lambda>(st', result).
       Inr (st', conn, if result then ''OK: key accepted'' else ''BAD: keys did not match'', result))"

definition trust_new_key :: "server_env \<Rightarrow> key_config \<Rightarrow> key_state \<Rightarrow> cfd_connection \<Rightarrow> rsa \<Rightarrow> string
    \<Rightarrow> (key_state \<times> cfd_connection \<times> string \<times> bool) outcome" where
  "trust_new_key env cfg st conn key keyname =
     bind_outcome (listed env (TRUSTKEYLIST cfg) (MapAddress (ipaddr conn))) (\<lambda>trusted.
       if trusted then
         bind_outcome (AddToKeyDB env cfg (SavePublicKey st keyname key) key (MapAddress (ipaddr conn))) (\<lambda>st'.
           Inr (st', conn\<lparr>trust := True\<rparr>, ''OK: unknown key was accepted on trust'', True))
       else Inr (st, conn, ''BAD: key could not be accepted on trust'', False))"

definition CheckStoreKey :: "server_env \<Rightarrow> key_config \<Rightarrow> key_state \<Rightarrow> cfd_connection \<Rightarrow> rsa
    \<Rightarrow> (key_state \<times> cfd_connection \<times> string \<times> bool) outcome" where
  "CheckStoreKey env cfg st conn key =
     (let addr = MapAddress (ipaddr conn);
          keyname = key_name (username conn) (if HostnameKeys cfg then hostname conn else addr) in
      bind_outcome (HavePublicKey st keyname) (\<lambda>saved. case saved of
          Some savedkey \<Rightarrow>
            (let st' = st\<lparr>SKIPVERIFY := prepended (SKIPVERIFY st) addr None\<rparr> in
             if rsa_e savedkey = rsa_e key \<and> rsa_n savedkey = rsa_n key
             then Inr (st', conn, ''OK: key accepted'', True)
             else bind_outcome (listed env (DHCPLIST cfg) addr) (\<lambda>dhcp.
               if dhcp then dynamic_key env cfg st' conn key
               else Inr (st', conn, ''BAD: keys did not match'', False)))
        | None \<Rightarrow>
            bind_outcome (listed env (DHCPLIST cfg) addr) (\<lambda>dhcp.
              if dhcp then dynamic_key env cfg st conn key
              else trust_new_key env cfg st conn key keyname)))"

section \<open>Which keys are accepted\<close>

definition same_key :: "rsa \<Rightarrow> rsa \<Rightarrow> bool" where
  "same_key a b = (rsa_n a = rsa_n b \<and> rsa_e a = rsa_e b)"

definition known_key :: "key_config \<Rightarrow> key_state \<Rightarrow> cfd_connection \<Rightarrow> rsa \<Rightarrow> bool" where
  "known_key cfg st conn key =
     (\<exists>k. ppkeys st (key_name (username conn)
            (if HostnameKeys cfg then hostname conn else MapAddress (ipaddr conn))) = Some k \<and> same_key k key)"

lemma IsWildKnownHost_True:
  "IsWildKnownHost env cfg st key addr user = Inr (st', True) \<Longrightarrow>
     dynamic_db st (rsa_bytes key) \<noteq> None \<or> listed env (TRUSTKEYLIST cfg) addr = Inr True"
  by (auto simp: IsWildKnownHost_def elim!: bind_outcome_InrE split: option.splits)

lemma HavePublicKey_Some: "HavePublicKey st name = Inr (Some k) \<Longrightarrow> ppkeys st name = Some k"
  by (auto simp: HavePublicKey_def split: option.splits if_splits)

text \<open>
  C5. A key is accepted only if it is the one on file for the client, or the address is dynamic and
  the key has been seen before, or policy trusts keys from the address.
\<close>

theorem CheckStoreKey_accepts:
  assumes "CheckStoreKey env cfg st conn key = Inr (st', conn', reply, True)"
  shows "known_key cfg st conn key
    \<or> listed env (DHCPLIST cfg) (MapAddress (ipaddr conn)) = Inr True \<and> dynamic_db st (rsa_bytes key) \<noteq> None
    \<or> listed env (TRUSTKEYLIST cfg) (MapAddress (ipaddr conn)) = Inr True"
proof -
  obtain saved where saved: "HavePublicKey st (key_name (username conn)
      (if HostnameKeys cfg then hostname conn else MapAddress (ipaddr conn))) = Inr saved"
    using assms by (auto simp: CheckStoreKey_def elim!: bind_outcome_InrE)
  show ?thesis
  proof (cases saved)
    case None
    with saved assms show ?thesis
      by (auto simp: CheckStoreKey_def dynamic_key_def trust_new_key_def
          elim!: bind_outcome_InrE dest!: IsWildKnownHost_True split: if_splits)
  next
    case (Some k)
    with saved assms HavePublicKey_Some [of st] show ?thesis
      by (fastforce simp: CheckStoreKey_def dynamic_key_def known_key_def same_key_def
          elim!: bind_outcome_InrE dest!: IsWildKnownHost_True split: if_splits)
  qed
qed

theorem CheckStoreKey_accepts_witness:
  "known_key \<lparr>DHCPLIST = [], TRUSTKEYLIST = [], HostnameKeys = False, have_keypair = True\<rparr>
     \<lparr>SKIPVERIFY = [], ppkeys = [''root-10.0.0.1'' \<mapsto> \<lparr>rsa_n = 15, rsa_e = 3, rsa_bytes = ''f''\<rparr>],
       dynamic_db = Map.empty, keys_made = 0\<rparr>
     (NewConn\<lparr>ipaddr := ''10.0.0.1'', username := ''root''\<rparr>) \<lparr>rsa_n = 15, rsa_e = 3, rsa_bytes = ''k''\<rparr>"
  (is "known_key ?cfg ?st ?conn ?key")
proof -
  let ?env = "\<lparr>inet_addr = \<lambda>_. 0, inet_pton6 = \<lambda>_. None, realpath = Some, lstat = \<lambda>_. None,
    stat_file = \<lambda>_. None, readlink = \<lambda>_. None\<rparr>"
  have "key_name ''root'' ''10.0.0.1'' = ''root-10.0.0.1''" "MapAddress ''10.0.0.1'' = ''10.0.0.1''"
    by code_simp+
  then have "CheckStoreKey ?env ?cfg ?st ?conn ?key
      = Inr (?st\<lparr>SKIPVERIFY := [mk_item ''10.0.0.1'' None]\<rparr>, ?conn, ''OK: key accepted'', True)"
    by (simp add: CheckStoreKey_def HavePublicKey_def prepended_def)
  from CheckStoreKey_accepts [OF this] show ?thesis by (simp add: listed_def)
qed

text \<open>
  A key from a dynamic address that policy does not trust and that was never seen is refused,
  and written to file all the same; the second attempt with the same key is then accepted.
\<close>

lemma CheckStoreKey_second_attempt:
  assumes "HostnameKeys cfg = False"
    and "ppkeys st (key_name (username conn) (MapAddress (ipaddr conn))) = None"
    and "listed env (DHCPLIST cfg) (MapAddress (ipaddr conn)) = Inr True"
    and "listed env (TRUSTKEYLIST cfg) (MapAddress (ipaddr conn)) = Inr False"
    and "dynamic_db st (rsa_bytes key) = None" and "2 \<le> rsa_e key" and "odd (rsa_e key)"
  shows "\<exists>st1 st2 r1 r2. CheckStoreKey env cfg st conn key = Inr (st1, conn, r1, False)
    \<and> CheckStoreKey env cfg st1 conn key = Inr (st2, conn, r2, True)"
  using assms
  by (auto simp: CheckStoreKey_def HavePublicKey_def dynamic_key_def IsWildKnownHost_def SavePublicKey_def)

lemma CheckStoreKey_second_attempt_witness:
  "\<exists>st1 st2 r1 r2 conn key cfg env.
     CheckStoreKey env cfg \<lparr>SKIPVERIFY = [], ppkeys = Map.empty, dynamic_db = Map.empty, keys_made = 0\<rparr> conn key
       = Inr (st1, conn, r1, False)
     \<and> CheckStoreKey env cfg st1 conn key = Inr (st2, conn, r2, True)"
proof -
  let ?env = "\<lparr>inet_addr = \<lambda>_. 0, inet_pton6 = \<lambda>_. None, realpath = Some, lstat = \<lambda>_. None,
    stat_file = \<lambda>_. None, readlink = \<lambda>_. None\<rparr>"
  let ?cfg = "\<lparr>DHCPLIST = [mk_item ''10.0.'' None], TRUSTKEYLIST = [], HostnameKeys = False, have_keypair = True\<rparr>"
  let ?conn = "NewConn\<lparr>ipaddr := ''10.0.0.1'', username := ''root''\<rparr>"
  have "listed ?env (DHCPLIST ?cfg) (MapAddress (ipaddr ?conn)) = Inr True" by code_simp
  then show ?thesis
    using CheckStoreKey_second_attempt [of ?cfg
      "\<lparr>SKIPVERIFY = [], ppkeys = Map.empty, dynamic_db = Map.empty, keys_made = 0\<rparr>" ?conn ?env
      "\<lparr>rsa_n = 15, rsa_e = 3, rsa_bytes = ''k''\<rparr>"]
    by (fastforce simp: listed_def)
qed

end
