(* ===== verification/Net.thy ===== *)
theory Net
  imports Filenames
begin

text \<open>
  net.c: transactions over a stream socket. What the peer sends is a list of segments in the order
  in which \<open>recv\<close> gets them; a segment longer than what is asked for is split. A call of \<open>recv\<close>
  that fails is the segment \<open>NetErr\<close>, with the flag for \<open>errno = EINTR\<close>; the end of the list is a
  closed connection.
\<close>

definition CF_INBAND_OFFSET :: nat where "CF_INBAND_OFFSET = 8"

datatype segment = Data string | NetErr bool

datatype reception = Received string | RecvFailed bool

subsection \<open>Sending\<close>

text \<open>
  The header is written by \<open>snprintf\<close> into the first eight bytes of an array that is not cleared:
  \<open>stale\<close> are the bytes it held. \<open>buffer\<close> is the memory at the pointer, \<open>len\<close> may be 0 for a string.
\<close>

definition header_text :: "char \<Rightarrow> nat \<Rightarrow> string" where
  "header_text status wlen = take (CF_INBAND_OFFSET - 1) ([status, CHR '' ''] @ show_nat wlen)"

definition SendTransaction :: "string \<Rightarrow> string \<Rightarrow> nat \<Rightarrow> char \<Rightarrow> string outcome" where
  "SendTransaction stale buffer len status =
     (let wlen = (if len = 0 then length (until_nul buffer) else len);
          text' = header_text status wlen in
      if wlen > CF_BUFSIZE - CF_INBAND_OFFSET then Inl (FatalErr ''SendTransaction software failure'')
      else if wlen > length buffer then Inl (Undefined ''SendTransaction: past the buffer'')
      else Inr (text' @ [char_of (0 :: nat)] @ drop (length text' + 1) (take CF_INBAND_OFFSET stale)
                @ take wlen buffer))"

subsection \<open>Receiving\<close>

text \<open>\<open>RecvSocketStream\<close>: the bytes that have come in; fewer than asked for if the peer has closed.\<close>

fun recv_loop :: "nat \<Rightarrow> segment list \<Rightarrow> string \<Rightarrow> reception \<times> segment list" where
  "recv_loop toget [] already = (Received already, [])"
| "recv_loop toget (NetErr eintr # segs) already =
     (if length already = toget then (Received already, NetErr eintr # segs)
      else (RecvFailed eintr, segs))"
| "recv_loop toget (Data d # segs) already =
     (let need = toget - length already in
      if need = 0 then (Received already, Data d # segs)
      else if length d \<le> need then recv_loop toget segs (already @ d)
      else (Received (already @ take need d), Data (drop need d) # segs))"

definition RecvSocketStream :: "nat \<Rightarrow> segment list \<Rightarrow> reception \<times> segment list" where
  "RecvSocketStream toget segs =
     (if toget > CF_BUFSIZE - 1 then (RecvFailed False, segs) else recv_loop toget segs [])"

text \<open>The length in a header: \<open>%u\<close> into 32 bits, 0 if there is none.\<close>

definition header_length :: "string \<Rightarrow> nat" where
  "header_length proto = (case until_nul proto of
       [] \<Rightarrow> 0
     | _ # r \<Rightarrow> nat (scan_int_or 0 r mod 2 ^ 32))"

definition ReceiveTransaction :: "segment list \<Rightarrow> reception \<times> segment list" where
  "ReceiveTransaction segs = (case RecvSocketStream CF_INBAND_OFFSET segs of
       (RecvFailed e, segs') \<Rightarrow> (RecvFailed e, segs')
     | (Received proto, segs') \<Rightarrow>
         if header_length proto > CF_BUFSIZE - CF_INBAND_OFFSET then (RecvFailed False, segs')
         else if strncmp_eq (until_nul proto) ''CAUTH'' 5 then (RecvFailed False, segs')
         else RecvSocketStream (header_length proto) segs')"

section \<open>The segments do not matter\<close>

fun bytes_of :: "segment list \<Rightarrow> string" where
  "bytes_of [] = []"
| "bytes_of (Data d # segs) = d @ bytes_of segs"
| "bytes_of (NetErr e # segs) = bytes_of segs"

fun no_error :: "segment list \<Rightarrow> bool" where
  "no_error [] = True"
| "no_error (Data d # segs) = no_error segs"
| "no_error (NetErr e # segs) = False"

lemma recv_loop_bytes:
  assumes "no_error segs" and "length already \<le> toget" and "toget \<le> length already + length (bytes_of segs)"
  obtains segs' where "recv_loop toget segs already = (Received (take toget (already @ bytes_of segs)), segs')"
    and "bytes_of segs' = drop toget (already @ bytes_of segs)" and "no_error segs'"
  using assms
proof (induction toget segs already arbitrary: thesis rule: recv_loop.induct)
  case (3 toget d segs already)
  show ?case
  proof (cases "toget = length already")
    case True
    with 3(3) show ?thesis by (intro 3(2) [of "Data d # segs"]) auto
  next
    case more: False
    show ?thesis
    proof (cases "length d \<le> toget - length already")
      case True
      with more 3(4,5) have "length (already @ d) \<le> toget" by auto
      with True more 3(1)[OF refl _ True] 3(3,5) obtain segs' where
        "recv_loop toget segs (already @ d) = (Received (take toget ((already @ d) @ bytes_of segs)), segs')"
        "bytes_of segs' = drop toget ((already @ d) @ bytes_of segs)" "no_error segs'"
        using 3(4) by auto
      with True more 3(4) show ?thesis by (intro 3(2) [of segs']) auto
    next
      case False
      with more 3(3,4) show ?thesis
        by (intro 3(2) [of "Data (drop (toget - length already) d) # segs"]) auto
    qed
  qed
qed auto

lemma RecvSocketStream_bytes:
  assumes "no_error segs" and "toget \<le> length (bytes_of segs)" and "toget < CF_BUFSIZE"
  obtains segs' where "RecvSocketStream toget segs = (Received (take toget (bytes_of segs)), segs')"
    and "bytes_of segs' = drop toget (bytes_of segs)" and "no_error segs'"
proof -
  obtain segs' where "recv_loop toget segs [] = (Received (take toget ([] @ bytes_of segs)), segs')"
    "bytes_of segs' = drop toget ([] @ bytes_of segs)" "no_error segs'"
    by (rule recv_loop_bytes [of segs "[]" toget]) (use assms in auto)
  with assms(3) show ?thesis by (intro that [of segs']) (simp_all add: RecvSocketStream_def)
qed

lemma header_text_length:
  assumes "n \<le> CF_BUFSIZE - CF_INBAND_OFFSET"
  shows "header_text status n = [status, CHR '' ''] @ show_nat n" "length (header_text status n) < CF_INBAND_OFFSET"
proof -
  have "length (show_nat n) \<le> 4"
    by (rule length_show_nat [of n 3, simplified])
      (use assms in \<open>simp add: CF_BUFSIZE_def CF_INBAND_OFFSET_def\<close>)
  then show "header_text status n = [status, CHR '' ''] @ show_nat n" "length (header_text status n) < CF_INBAND_OFFSET"
    by (simp_all add: header_text_def CF_INBAND_OFFSET_def)
qed

lemma until_nul_header:
  assumes "status \<noteq> char_of (0 :: nat)"
  shows "until_nul ([status, CHR '' ''] @ show_nat n @ [char_of (0 :: nat)] @ junk) = [status, CHR '' ''] @ show_nat n"
proof -
  have "byte c \<noteq> (0 :: nat)" if "c \<in> set (show_nat n)" for c
    using show_nat_digits [of n] that by (auto simp: list_all_iff isdigit_def)
  moreover have "byte status \<noteq> (0 :: nat)" using assms by (metis char_of_char)
  ultimately show ?thesis unfolding until_nul_def by (simp add: takeWhile_append2)
qed

lemma header_length_shown:
  assumes "status \<noteq> char_of (0 :: nat)" and "n < 2 ^ 32"
  shows "header_length ([status, CHR '' ''] @ show_nat n @ [char_of (0 :: nat)] @ junk) = n"
proof -
  have "scan_int (CHR '' '' # show_nat n) = scan_int (show_nat n)"
    by (simp add: scan_int_def isspace_def)
  then have "scan_int_or 0 (CHR '' '' # show_nat n) = int n"
    using scan_int_show [of "[]" n] by (simp add: scan_int_or_def)
  then show ?thesis
    unfolding header_length_def until_nul_header [OF assms(1)] using assms(2) by simp
qed

lemma transaction_received:
  assumes "length buffer \<le> CF_BUFSIZE - CF_INBAND_OFFSET" and "buffer \<noteq> []"
    and "status \<noteq> CHR ''C''" and "status \<noteq> char_of (0 :: nat)" and "CF_INBAND_OFFSET \<le> length stale"
    and "no_error segs"
    and "SendTransaction stale buffer (length buffer) status = Inr sent" and "bytes_of segs = sent @ rest"
  shows "\<exists>segs'. ReceiveTransaction segs = (Received buffer, segs') \<and> bytes_of segs' = rest \<and> no_error segs'"
proof -
  let ?n = "length buffer"
  let ?hdr = "[status, CHR '' ''] @ show_nat ?n"
  let ?junk = "drop (length ?hdr + 1) (take CF_INBAND_OFFSET stale)"
  let ?proto = "?hdr @ [char_of (0 :: nat)] @ ?junk"
  note hdr = header_text_length [OF assms(1), of status]
  have sent: "sent = ?proto @ buffer" using assms(1,2,7) hdr(1) by (simp add: SendTransaction_def)
  have proto: "length ?proto = CF_INBAND_OFFSET" using hdr assms(5) by (simp add: Suc_le_eq)
  have split: "take CF_INBAND_OFFSET (bytes_of segs) = ?proto" "drop CF_INBAND_OFFSET (bytes_of segs) = buffer @ rest"
  proof -
    obtain h where h: "h = ?proto" by blast
    have bytes: "bytes_of segs = h @ buffer @ rest" using assms(8) unfolding sent h by (simp only: append.assoc)
    have len: "length h = CF_INBAND_OFFSET" using proto unfolding h .
    have "take (length h) (bytes_of segs) = h" "drop (length h) (bytes_of segs) = buffer @ rest"
      unfolding bytes by simp_all
    then have "take CF_INBAND_OFFSET (bytes_of segs) = h" "drop CF_INBAND_OFFSET (bytes_of segs) = buffer @ rest"
      unfolding len .
    then show "take CF_INBAND_OFFSET (bytes_of segs) = ?proto"
      "drop CF_INBAND_OFFSET (bytes_of segs) = buffer @ rest" unfolding h .
  qed
  have offset: "CF_INBAND_OFFSET < CF_BUFSIZE" by (simp add: CF_BUFSIZE_def CF_INBAND_OFFSET_def)
  have "CF_INBAND_OFFSET \<le> length (bytes_of segs)" using assms(8) sent proto by simp
  then obtain segs1 where first: "RecvSocketStream CF_INBAND_OFFSET segs
      = (Received (take CF_INBAND_OFFSET (bytes_of segs)), segs1)"
      "bytes_of segs1 = drop CF_INBAND_OFFSET (bytes_of segs)" "no_error segs1"
    by (rule RecvSocketStream_bytes [OF assms(6) _ offset])
  note s1 = first [unfolded split]
  have small: "?n < CF_BUFSIZE" "?n < 2 ^ 32" using assms(1) by (simp_all add: CF_BUFSIZE_def CF_INBAND_OFFSET_def)
  obtain segs2 where s2: "RecvSocketStream ?n segs1 = (Received buffer, segs2)" "bytes_of segs2 = rest" "no_error segs2"
    by (rule RecvSocketStream_bytes [OF s1(3), of ?n])
      (use s1(2) small(1) in simp_all)
  have len: "header_length ?proto = ?n"
    using header_length_shown [OF assms(4) small(2), of ?junk] by simp
  have "\<not> strncmp_eq (until_nul ?proto) ''CAUTH'' 5"
    using until_nul_header [OF assms(4), of ?n ?junk] assms(3) by (simp add: strncmp_eq_def)
  then have "ReceiveTransaction segs = RecvSocketStream ?n segs1"
    using s1(1) len assms(1) by (simp add: ReceiveTransaction_def)
  with s2 show ?thesis by (intro exI [of _ segs2]) simp
qed

text \<open>
  C7. A transaction that has been sent is received as it was, however the network cuts it into
  segments and whatever follows it, and what follows stays for the next one.
\<close>

theorem ReceiveTransaction_SendTransaction:
  assumes "length buffer \<le> CF_BUFSIZE - CF_INBAND_OFFSET" and "buffer \<noteq> []"
    and "status \<noteq> CHR ''C''" and "status \<noteq> char_of (0 :: nat)" and "CF_INBAND_OFFSET \<le> length stale"
    and "no_error segs"
    and "SendTransaction stale buffer (length buffer) status = Inr sent" and "bytes_of segs = sent @ rest"
  shows "\<exists>segs'. ReceiveTransaction segs = (Received buffer, segs') \<and> bytes_of segs' = rest \<and> no_error segs'"
  using assms by (rule transaction_received)

theorem ReceiveTransaction_SendTransaction_witness:
  "\<exists>segs'. ReceiveTransaction [Data ''t 5'', Data (char_of (0 :: nat) # ''zzzzhe''), Data ''llo!''] = (Received ''hello'', segs')
     \<and> bytes_of segs' = ''!'' \<and> no_error segs'"
proof -
  let ?sent = "''t 5'' @ [char_of (0 :: nat)] @ ''zzzz'' @ ''hello''"
  have "SendTransaction ''zzzzzzzz'' ''hello'' (length ''hello'') CHR ''t'' = Inr ?sent" by code_simp
  moreover have "CHR ''t'' \<noteq> char_of (0 :: nat)" by code_simp
  ultimately show ?thesis
    using ReceiveTransaction_SendTransaction [of "''hello''" "CHR ''t''" "''zzzzzzzz''"
        "[Data ''t 5'', Data (char_of (0 :: nat) # ''zzzzhe''), Data ''llo!'']" ?sent "''!''"]
    by (simp add: CF_BUFSIZE_def CF_INBAND_OFFSET_def)
qed

section \<open>Receiving uses up the segments\<close>

fun inbox_size :: "segment list \<Rightarrow> nat" where
  "inbox_size [] = 0"
| "inbox_size (Data d # segs) = Suc (length d + inbox_size segs)"
| "inbox_size (NetErr e # segs) = Suc (inbox_size segs)"

lemma recv_loop_size:
  "recv_loop toget segs already = (r, segs') \<Longrightarrow> inbox_size segs' \<le> inbox_size segs"
  "recv_loop toget segs already = (Received m, segs') \<Longrightarrow>
     inbox_size segs' + length m \<le> inbox_size segs + length already"
  by (induction toget segs already rule: recv_loop.induct) (auto split: if_splits)

lemma RecvSocketStream_size:
  "RecvSocketStream toget segs = (r, segs') \<Longrightarrow> inbox_size segs' \<le> inbox_size segs"
  "RecvSocketStream toget segs = (Received m, segs') \<Longrightarrow> inbox_size segs' + length m \<le> inbox_size segs"
  using recv_loop_size(1) recv_loop_size(2) [of toget segs "[]"] by (auto simp: RecvSocketStream_def split: if_splits)

lemma ReceiveTransaction_size:
  "ReceiveTransaction segs = (r, segs') \<Longrightarrow> inbox_size segs' \<le> inbox_size segs"
  "ReceiveTransaction segs = (Received m, segs') \<Longrightarrow> inbox_size segs' + length m \<le> inbox_size segs"
proof -
  obtain r1 segs1 where first: "RecvSocketStream CF_INBAND_OFFSET segs = (r1, segs1)"
    by (cases "RecvSocketStream CF_INBAND_OFFSET segs")
  note size1 = RecvSocketStream_size(1) [OF first]
  show "inbox_size segs' \<le> inbox_size segs" if "ReceiveTransaction segs = (r, segs')"
    using that first size1 RecvSocketStream_size(1) [of _ segs1]
    by (auto simp: ReceiveTransaction_def split: reception.splits if_splits intro: order_trans)
  show "inbox_size segs' + length m \<le> inbox_size segs" if "ReceiveTransaction segs = (Received m, segs')"
    using that first size1 RecvSocketStream_size(2) [of _ segs1 m]
    by (auto simp: ReceiveTransaction_def split: reception.splits if_splits intro: order_trans)
qed

lemma ReceiveTransaction_snd_size [simp]: "inbox_size (snd (ReceiveTransaction segs)) \<le> inbox_size segs"
  using ReceiveTransaction_size(1) [of segs] by (metis prod.collapse)

lemma recv_loop_failed:
  "recv_loop toget segs already = (RecvFailed e, segs') \<Longrightarrow> inbox_size segs' < inbox_size segs"
  by (induction toget segs already rule: recv_loop.induct) (auto split: if_splits)

lemma RecvSocketStream_interrupted:
  "RecvSocketStream toget segs = (RecvFailed True, segs') \<Longrightarrow> inbox_size segs' < inbox_size segs"
  by (auto simp: RecvSocketStream_def dest!: recv_loop_failed split: if_splits)

lemma RecvSocketStream_smaller:
  "RecvSocketStream toget segs = (Received m, segs') \<Longrightarrow> m \<noteq> [] \<Longrightarrow> inbox_size segs' < inbox_size segs"
  using RecvSocketStream_size(2) [of toget segs m segs'] by (cases m) auto

lemma ReceiveTransaction_interrupted:
  "ReceiveTransaction segs = (RecvFailed True, segs') \<Longrightarrow> inbox_size segs' < inbox_size segs"
  using RecvSocketStream_size(1) [of CF_INBAND_OFFSET segs]
  by (auto simp: ReceiveTransaction_def RecvSocketStream_def dest!: recv_loop_failed
      split: prod.splits reception.splits if_splits intro: less_le_trans)

end
