(* ===== verification/ServerAuth.thy ===== *)
theory ServerAuth
  imports ServerKeys Net
begin

text \<open>
  cfservd.c: how a client says who it is (\<open>VerifyConnection\<close>) and proves it
  (\<open>AuthenticationDialogue\<close>). A session is a connection with the key store, the segments the client
  will send and what the server has done so far. Failures of \<open>malloc\<close> and of the mutexes are left
  out.
\<close>

subsection \<open>Sessions\<close>

datatype event =
    Sent string                     \<comment> \<open>a transaction\<close>
  | Refused                         \<comment> \<open>\<open>RefuseAccess\<close>\<close>
  | SentFile string bool string     \<comment> \<open>name, encrypted, bytes read\<close>
  | Listed string bool              \<comment> \<open>names of a directory, encrypted\<close>
  | Statted string
  | Compared string string          \<comment> \<open>file name and checksum\<close>
  | Executed string

record session =
  s_conn :: cfd_connection
  s_keys :: key_state
  s_inbox :: "segment list"
  s_done :: "event list"

definition emit :: "event \<Rightarrow> session \<Rightarrow> session" where
  "emit e s = s\<lparr>s_done := s_done s @ [e]\<rparr>"

text \<open>\<open>SendTransaction\<close> of so many bytes; too many end the program.\<close>

definition send :: "string \<Rightarrow> session \<Rightarrow> session outcome" where
  "send bytes s =
     (if length bytes > CF_BUFSIZE - CF_INBAND_OFFSET
      then Inl (FatalErr ''SendTransaction software failure'')
      else Inr (emit (Sent bytes) s))"

definition receive :: "session \<Rightarrow> reception \<times> session" where
  "receive s = (case ReceiveTransaction (s_inbox s) of (r, segs) \<Rightarrow> (r, s\<lparr>s_inbox := segs\<rparr>))"

text \<open>Bytes of a cleared buffer that begins with a message, and an array written over.\<close>

definition mem_at :: "string \<Rightarrow> nat \<Rightarrow> nat \<Rightarrow> string" where
  "mem_at buf off n = take n (drop off (buf @ replicate (off + n) (char_of (0 :: nat))))"

definition overlay :: "string \<Rightarrow> string \<Rightarrow> string" where
  "overlay new old = new @ drop (length new) old"

subsection \<open>Words of a request\<close>

definition scan_word :: "nat \<Rightarrow> string \<Rightarrow> string \<times> string" where
  "scan_word n s =
     (let t = dropWhile isspace s; w = take n (takeWhile (\<lambda>c. \<not> isspace c) t) in (w, drop (length w) t))"

definition unsigned_int :: "int \<Rightarrow> nat" where
  "unsigned_int v = nat (long_clip v mod 2 ^ 32)"

text \<open>\<open>sscanf (recvbuffer, "%s %c %d %d", sauth, &iscrypt, &crypt_len, &nonce_len)\<close>\<close>

definition auth_header :: "string \<Rightarrow> (string \<times> char \<times> nat \<times> nat) outcome" where
  "auth_header s = (case scan_word (length s) s of (sauth, r) \<Rightarrow>
     if 10 \<le> length sauth then Inl (Undefined ''AuthenticationDialogue: sauth'')
     else (case dropWhile isspace r of
         [] \<Rightarrow> Inr (sauth, CHR ''n'', 0, 0)
       | c # r1 \<Rightarrow> (case scan_int r1 of
           None \<Rightarrow> Inr (sauth, c, 0, 0)
         | Some (a, r2) \<Rightarrow> (case scan_int r2 of
             None \<Rightarrow> Inr (sauth, c, unsigned_int a, 0)
           | Some (b, _) \<Rightarrow> Inr (sauth, c, unsigned_int a, unsigned_int b)))))"

subsection \<open>The dialogue\<close>

text \<open>The challenge of the client (proposition C1), decrypted: \<open>None\<close> if it is refused.\<close>

definition auth_nonce :: "crypto_env \<Rightarrow> string \<Rightarrow> nat \<Rightarrow> (char \<times> string) option outcome" where
  "auth_nonce cr recvbuffer recvlen =
     bind_outcome (auth_header (until_nul recvbuffer)) (\<lambda>(sauth, iscrypt, crypt_len, nonce_len).
       if crypt_len = 0 \<or> nonce_len = 0 \<or> length sauth = 0 then Inr None
       else if nonce_len > CF_NONCELEN * 2 then Inr None
       else if crypt_len > 2 * CF_NONCELEN then Inr None
       else if CF_RSA_PROTO_OFFSET + nonce_len > recvlen then Inr None
       else if sauth \<noteq> ''SAUTH'' then Inr None
       else if iscrypt = CHR ''y'' then
         (case private_decrypt cr (mem_at recvbuffer CF_RSA_PROTO_OFFSET crypt_len) of
            None \<Rightarrow> Inr None
          | Some p \<Rightarrow> if p = [] then Inr None
                      else if length p < nonce_len then Inl (Undefined ''AuthenticationDialogue: nonce'')
                      else Inr (Some (iscrypt, take nonce_len p)))
       else if nonce_len > crypt_len then Inr None
       else Inr (Some (iscrypt, mem_at recvbuffer CF_RSA_PROTO_OFFSET nonce_len)))"

text \<open>A number of the public key of the client (C2 and C3).\<close>

definition auth_number :: "crypto_env \<Rightarrow> session \<Rightarrow> int option \<times> session" where
  "auth_number cr s = (case receive s of
       (RecvFailed _, s') \<Rightarrow> (None, s')
     | (Received m, s') \<Rightarrow> if m = [] then (None, s') else (mpi2bn cr m, s'))"

definition auth_key :: "crypto_env \<Rightarrow> session \<Rightarrow> rsa option \<times> session" where
  "auth_key cr s = (case auth_number cr s of
       (None, s') \<Rightarrow> (None, s')
     | (Some n, s') \<Rightarrow> (case auth_number cr s' of
         (None, s'') \<Rightarrow> (None, s'')
       | (Some e, s'') \<Rightarrow>
           (let keys = s_keys s'' in
            (Some \<lparr>rsa_n = n, rsa_e = e, rsa_bytes = rsa_struct cr (keys_made keys) n e\<rparr>,
             s''\<lparr>s_keys := keys\<lparr>keys_made := keys_made keys + 1\<rparr>\<rparr>))))"

text \<open>The counter challenge and the answer to it (S2 to S5 and C4).\<close>

definition auth_challenge :: "crypto_env \<Rightarrow> char \<Rightarrow> string \<Rightarrow> rsa \<Rightarrow> session \<Rightarrow> (string option \<times> session) outcome" where
  "auth_challenge cr iscrypt nonce key s =
     bind_outcome (send (md5 cr nonce) s) (\<lambda>s1.
       let challenge = bn_rand cr (keys_made (s_keys s1)) in
       case public_encrypt cr key challenge of
         None \<Rightarrow> Inr (None, s1)
       | Some encrypted \<Rightarrow>
           if encrypted = [] then Inr (None, s1)
           else bind_outcome (send encrypted s1) (\<lambda>s2.
             bind_outcome
               (if iscrypt \<noteq> CHR ''y''
                then bind_outcome (send (own_modulus cr) s2) (send (own_exponent cr)) else Inr s2)
               (\<lambda>s3. case receive s3 of
                  (RecvFailed _, s4) \<Rightarrow> Inr (None, s4)
                | (Received answer, s4) \<Rightarrow>
                    if mem_at answer 0 CF_MD5_LEN = take CF_MD5_LEN (md5 cr challenge)
                    then Inr (Some encrypted, s4) else Inr (None, s4))))"

text \<open>
  The session key (C5). The buffer for its plain text has the size of the client's key; the key is
  allocated before it is known whether it can be decrypted.
\<close>

definition auth_session_key :: "crypto_env \<Rightarrow> rsa \<Rightarrow> string \<Rightarrow> session \<Rightarrow> (session \<times> bool) outcome" where
  "auth_session_key cr key encrypted s = (case receive s of
       (RecvFailed _, s1) \<Rightarrow> Inr (s1, False)
     | (Received m, s1) \<Rightarrow>
         if length m > CF_BUFSIZE div 2 then Inr (s1, False)
         else if length m = CF_BLOWFISHSIZE then
           Inr (s1\<lparr>s_conn := (s_conn s1)\<lparr>session_key := Some m, rsa_auth := True\<rparr>\<rparr>, True)
         else (case private_decrypt cr m of
             None \<Rightarrow> Inr (s1\<lparr>s_conn := (s_conn s1)\<lparr>session_key := Some (heap_bytes cr)\<rparr>\<rparr>, False)
           | Some p \<Rightarrow>
               if p = [] then Inr (s1\<lparr>s_conn := (s_conn s1)\<lparr>session_key := Some (heap_bytes cr)\<rparr>\<rparr>, False)
               else if length p > rsa_size cr key + 1 then Inl (Undefined ''AuthenticationDialogue: out'')
               else if length (overlay p encrypted) < CF_BLOWFISHSIZE
               then Inl (Undefined ''AuthenticationDialogue: session key'')
               else Inr (s1\<lparr>s_conn := (s_conn s1)
                 \<lparr>session_key := Some (take CF_BLOWFISHSIZE (overlay p encrypted)), rsa_auth := True\<rparr>\<rparr>, True)))"

definition AuthenticationDialogue :: "server_env \<Rightarrow> crypto_env \<Rightarrow> key_config \<Rightarrow> string \<Rightarrow> nat \<Rightarrow> session
    \<Rightarrow> (session \<times> bool) outcome" where
  "AuthenticationDialogue env cr cfg recvbuffer recvlen s =
     (if \<not> have_keypair cfg then Inr (s, False)
      else bind_outcome (auth_nonce cr recvbuffer recvlen) (\<lambda>nonce. case nonce of
          None \<Rightarrow> Inr (s, False)
        | Some (iscrypt, nonce) \<Rightarrow> (case auth_key cr s of
            (None, s1) \<Rightarrow> Inr (s1, False)
          | (Some newkey, s1) \<Rightarrow>
              bind_outcome (CheckStoreKey env cfg (s_keys s1) (s_conn s1) newkey) (\<lambda>(keys, conn, reply, known).
                bind_outcome (send reply (s1\<lparr>s_keys := keys, s_conn := conn\<rparr>)) (\<lambda>s2.
                  if \<not> known \<and> \<not> trust conn then Inr (s2, False)
                  else bind_outcome (auth_challenge cr iscrypt nonce newkey s2) (\<lambda>(answer, s3).
                    case answer of
                      None \<Rightarrow> Inr (s3, False)
                    | Some encrypted \<Rightarrow> auth_session_key cr newkey encrypted s3))))))"

subsection \<open>The name of the client\<close>

record dns_env =
  getpwnam :: "string \<Rightarrow> int option"
  getaddrinfo :: "string \<Rightarrow> string list"

definition VerifyConnection :: "server_env \<Rightarrow> dns_env \<Rightarrow> string \<Rightarrow> session \<Rightarrow> (session \<times> bool) outcome" where
  "VerifyConnection env dns buf s =
     (case scan_word 255 buf of (ipstring, r1) \<Rightarrow> case scan_word 255 r1 of (fqname, r2) \<Rightarrow>
      case scan_word 255 r2 of (user, _) \<Rightarrow>
      let conn = s_conn s; addr = MapAddress (ipaddr conn) in
      bind_outcome (ToLowerStr fqname) (\<lambda>dns_assert.
        bind_outcome (if \<not> trust conn then Inr True else fuzzy_in env (SKIPVERIFY (s_keys s)) addr) (\<lambda>skip.
          if skip then
            Inr (s\<lparr>s_conn := conn\<lparr>hostname := dns_assert, username := user,
                conn_uid := Some (case getpwnam dns user of None \<Rightarrow> 2 ^ 32 - 2 | Some u \<Rightarrow> u)\<rparr>\<rparr>, True)
          else if ipstring \<noteq> addr then Inr (s, False)
          else if dns_assert = [] then Inr (s, False)
          else if dns_assert = ''skipident'' then Inr (s, False)
          else if addr \<notin> set (getaddrinfo dns dns_assert) then Inr (s, False)
          else Inr (s\<lparr>s_conn := conn\<lparr>hostname := dns_assert, username := user\<rparr>\<rparr>, True))))"

section \<open>What the dialogue shows\<close>

lemma send_InrD:
  "send b s = Inr s' \<Longrightarrow> s' = emit (Sent b) s"
  by (auto simp: send_def split: if_splits)

lemma emit_simps [simp]:
  "s_conn (emit e s) = s_conn s" "s_keys (emit e s) = s_keys s" "s_inbox (emit e s) = s_inbox s"
  "s_done (emit e s) = s_done s @ [e]"
  by (simp_all add: emit_def)

lemma receive_simps:
  "receive s = (r, s') \<longleftrightarrow>
     r = fst (ReceiveTransaction (s_inbox s)) \<and> s' = s\<lparr>s_inbox := snd (ReceiveTransaction (s_inbox s))\<rparr>"
  by (auto simp: receive_def split: prod.splits)

text \<open>The messages of the client in their order.\<close>

fun message :: "nat \<Rightarrow> segment list \<Rightarrow> reception" where
  "message 0 segs = fst (ReceiveTransaction segs)"
| "message (Suc k) segs = message k (snd (ReceiveTransaction segs))"

lemma auth_number_Some:
  assumes "auth_number cr s = (Some n, s')"
  obtains m where "message 0 (s_inbox s) = Received m" and "mpi2bn cr m = Some n"
    and "s' = s\<lparr>s_inbox := snd (ReceiveTransaction (s_inbox s))\<rparr>"
  using assms by (auto simp: auth_number_def receive_simps split: prod.splits reception.splits if_splits)

definition client_key :: "crypto_env \<Rightarrow> session \<Rightarrow> rsa \<Rightarrow> bool" where
  "client_key cr s key =
     (\<exists>m1 m2. message 0 (s_inbox s) = Received m1 \<and> mpi2bn cr m1 = Some (rsa_n key)
            \<and> message 1 (s_inbox s) = Received m2 \<and> mpi2bn cr m2 = Some (rsa_e key))"

definition after_key :: "session \<Rightarrow> session" where
  "after_key s = s\<lparr>s_inbox := snd (ReceiveTransaction (snd (ReceiveTransaction (s_inbox s)))),
     s_keys := (s_keys s)\<lparr>keys_made := keys_made (s_keys s) + 1\<rparr>\<rparr>"

lemma auth_key_Some:
  assumes "auth_key cr s = (Some key, s')"
  shows "client_key cr s key" and "s' = after_key s"
proof -
  obtain n s1 e s2 where num: "auth_number cr s = (Some n, s1)" "auth_number cr s1 = (Some e, s2)"
    and key: "rsa_n key = n" "rsa_e key = e" "s' = s2\<lparr>s_keys := (s_keys s2)\<lparr>keys_made := keys_made (s_keys s2) + 1\<rparr>\<rparr>"
    using assms by (auto simp: auth_key_def split: prod.splits option.splits)
  from num(1) obtain m1 where m1: "message 0 (s_inbox s) = Received m1" "mpi2bn cr m1 = Some n"
    "s1 = s\<lparr>s_inbox := snd (ReceiveTransaction (s_inbox s))\<rparr>" by (rule auth_number_Some)
  from num(2) obtain m2 where m2: "message 0 (s_inbox s1) = Received m2" "mpi2bn cr m2 = Some e"
    "s2 = s1\<lparr>s_inbox := snd (ReceiveTransaction (s_inbox s1))\<rparr>" by (rule auth_number_Some)
  from m1 m2 key show "client_key cr s key" "s' = after_key s"
    by (auto simp: client_key_def after_key_def)
qed

lemma auth_challenge_Some:
  assumes "auth_challenge cr iscrypt nonce key s = Inr (Some encrypted, s')"
  shows "public_encrypt cr key (bn_rand cr (keys_made (s_keys s))) = Some encrypted"
    and "\<exists>answer. message 0 (s_inbox s) = Received answer
      \<and> mem_at answer 0 CF_MD5_LEN = take CF_MD5_LEN (md5 cr (bn_rand cr (keys_made (s_keys s))))"
    and "s_conn s' = s_conn s" and "s_keys s' = s_keys s"
  using assms
  by (auto simp: auth_challenge_def receive_simps dest!: send_InrD elim!: bind_outcome_InrE
      split: prod.splits reception.splits option.splits if_splits)

lemma auth_session_key_True:
  "auth_session_key cr key encrypted s = Inr (s', True) \<Longrightarrow> rsa_auth (s_conn s') \<and> session_key (s_conn s') \<noteq> None"
  by (auto simp: auth_session_key_def split: prod.splits reception.splits option.splits if_splits)

lemma CheckStoreKey_keys_made:
  "CheckStoreKey env cfg st conn key = Inr (st', conn', r, b) \<Longrightarrow> keys_made st' = keys_made st"
  by (auto simp: CheckStoreKey_def dynamic_key_def trust_new_key_def IsWildKnownHost_def AddToKeyDB_def
      SavePublicKey_def DeletePublicKey_def elim!: bind_outcome_InrE split: option.splits if_splits)



end
