(* ===== verification/ServerFiles.thy ===== *)
theory ServerFiles
  imports ServerAuth Variables
begin

text \<open>
  cfservd.c: what the server does once a request has been let through: file attributes
  (\<open>StatFile\<close>), file contents (\<open>CfGetFile\<close>), directories (\<open>CfOpenDirectory\<close>), checksums and the
  commands of cfrun (\<open>DoExec\<close>). The file system is a parameter; a file does not change while it is
  sent. \<open>EncryptString\<close> and \<open>DecryptString\<close> are parameters too: they call OpenSSL and nothing else.
\<close>

record sys_env =
  clock :: "int option"
  file_data :: "string \<Rightarrow> string option"
  dir_entries :: "string \<Rightarrow> string list option"
  encrypt_string :: "string option \<Rightarrow> string \<Rightarrow> string"
  decrypt_string :: "string option \<Rightarrow> string \<Rightarrow> string"
  checksum_changed :: "string \<Rightarrow> string \<Rightarrow> bool"
  run_command :: "string \<Rightarrow> string list option"
  macro_value :: "string \<Rightarrow> string option \<comment> \<open>\<open>GetMacroValue (CONTEXTID, _)\<close>\<close>"
  expansion :: expand_env

definition CFD_TERMINATOR :: string where "CFD_TERMINATOR = ''---cfXen/gine/cfXen/gine---''"
definition CF_FAILEDSTR :: string where
  "CF_FAILEDSTR = ''BAD: Unspecified server refusal (see verbose server output)''"

definition show_int :: "int \<Rightarrow> string" where
  "show_int v = (if v < 0 then CHR ''-'' # show_nat (nat (- v)) else show_nat (nat v))"

text \<open>What \<open>%d\<close> shows of a number: its low 32 bits.\<close>

definition as_int :: "int \<Rightarrow> int" where
  "as_int v = (v + 2 ^ 31) mod 2 ^ 32 - 2 ^ 31"

text \<open>\<open>snprintf\<close> into a buffer of \<open>CF_BUFSIZE\<close> bytes.\<close>

definition clip :: "string \<Rightarrow> string" where
  "clip s = take (CF_BUFSIZE - 1) s"

subsection \<open>Attributes\<close>

datatype cf_filetype = cf_reg | cf_link | cf_dir | cf_fifo | cf_block | cf_char | cf_sock

definition type_number :: "cf_filetype \<Rightarrow> int" where
  "type_number t = (case t of cf_reg \<Rightarrow> 0 | cf_link \<Rightarrow> 1 | cf_dir \<Rightarrow> 2 | cf_fifo \<Rightarrow> 3
     | cf_block \<Rightarrow> 4 | cf_char \<Rightarrow> 5 | cf_sock \<Rightarrow> 6)"

definition S_IFMT :: nat where "S_IFMT = 0xF000"
definition mode_format :: "nat \<Rightarrow> nat" where "mode_format m = and m S_IFMT"
definition S_ISLNK :: "nat \<Rightarrow> bool" where "S_ISLNK m = (mode_format m = 0xA000)"

text \<open>The tests after the two calls of \<open>stat\<close>; a type none of them knows leaves what was there.\<close>

definition file_type :: "cf_filetype \<Rightarrow> nat \<Rightarrow> cf_filetype" where
  "file_type old m = (let f = mode_format m in
     if f = 0x4000 then cf_dir
     else if f = 0x8000 then cf_reg
     else if f = 0xC000 then cf_sock
     else if f = 0x2000 then cf_char
     else if f = 0x6000 then cf_block
     else if f = 0x1000 then cf_fifo
     else old)"

definition join_ints :: "int list \<Rightarrow> string" where
  "join_ints ns = join_names CHR '' '' (map show_int ns)"

definition stat_line :: "cf_filetype \<Rightarrow> nat \<Rightarrow> int \<Rightarrow> stat_info \<Rightarrow> string" where
  "stat_line t lmode nlink st =
     ''OK: '' @ join_ints
       [type_number t, int (and (st_mode st) 0xFFF), int lmode, as_int (st_uid st), as_int (st_gid st),
        st_size st, as_int (st_atime st), as_int (st_mtime st), as_int (st_ctime st),
        (if st_size st > st_blocks st * 512 then 1 else 0), as_int (st_ino st), as_int nlink,
        as_int (st_dev st)]"

definition link_attributes :: "stat_info \<Rightarrow> stat_info \<Rightarrow> stat_info" where
  "link_attributes st target = st\<lparr>st_size := st_size target, st_mode := st_mode target,
     st_uid := st_uid target, st_gid := st_gid target, st_mtime := st_mtime target,
     st_ctime := st_ctime target\<rparr>"

definition send_stat :: "cf_filetype \<Rightarrow> nat \<Rightarrow> int \<Rightarrow> stat_info \<Rightarrow> string \<Rightarrow> string \<Rightarrow> session \<Rightarrow> session outcome" where
  "send_stat t lmode nlink st linkbuf filename s =
     bind_outcome (send (clip (stat_line t lmode nlink st)) (emit (Statted filename) s))
       (send (''OK:'' @ linkbuf))"

definition StatFile :: "server_env \<Rightarrow> string \<Rightarrow> session \<Rightarrow> session outcome" where
  "StatFile env filename s =
     (if length (ReadLastNode filename) > CF_MAXLINKSIZE
      then (let reply = ''BAD: Filename suspiciously long ['' @ filename @ '']'' @ [CHR 0x0A] in
            if CF_BUFSIZE \<le> length reply then Inl (Undefined ''StatFile: sendbuffer'') else send reply s)
      else (case lstat env filename of
          None \<Rightarrow> send (clip (''BAD: unable to stat file '' @ filename)) s
        | Some st \<Rightarrow>
            if S_ISLNK (st_mode st) then
              (case readlink env filename of
                 None \<Rightarrow> send (''BAD: unable to read link'' @ [CHR 0x0A]) s
               | Some l \<Rightarrow>
                   (let lmode = and (st_mode st) 0xFFF;
                        st' = (case stat_file env filename of
                            None \<Rightarrow> st | Some target \<Rightarrow> link_attributes st target) in
                    send_stat (file_type cf_link (st_mode st')) lmode (st_nlink st) st' (clip l) filename s))
            else (case stat_file env filename of
                None \<Rightarrow> send (clip (''BAD: unable to stat file '' @ filename @ [CHR 0x0A])) s
              | Some st' \<Rightarrow> send_stat (file_type cf_reg (st_mode st')) 0 (st_nlink st') st' [] filename s)))"

subsection \<open>Contents\<close>

text \<open>
  The transfer of a file that is not encrypted: \<open>gone\<close> bytes of \<open>fsize\<close> have been sent. The number
  of bytes for a block is taken from the size, not from what was read.
\<close>

function transfer :: "nat \<Rightarrow> nat \<Rightarrow> nat \<Rightarrow> nat \<Rightarrow> string \<Rightarrow> string list" where
  "transfer buf_size fsize gone sendlen data =
     (if buf_size = 0 \<or> data = [] then []
      else (let block = take buf_size data;
                sendlen' = (if (fsize - gone) div buf_size > 0 then buf_size
                            else if fsize \<noteq> 0 then fsize - gone else sendlen) in
            mem_at block 0 sendlen' # transfer buf_size fsize (gone + length block) sendlen' (drop buf_size data)))"
  by pat_completeness auto

termination
  by (relation "measure (\<lambda>(b, z, t, l, d). length d)") auto

declare transfer.simps [simp del]

definition may_open :: "cfd_connection \<Rightarrow> stat_info option \<Rightarrow> bool outcome" where
  "may_open conn st = (case (conn_uid conn, maproot conn) of
       (None, _) \<Rightarrow> Inl (Undefined ''CfGetFile: uid not set'')
     | (_, None) \<Rightarrow> Inl (Undefined ''CfGetFile: maproot not set'')
     | (Some uid, Some root) \<Rightarrow>
         if uid = 0 \<or> root then Inr True
         else (case st of
             None \<Rightarrow> Inl (Undefined ''CfGetFile: stat failed'')
           | Some i \<Rightarrow> Inr (st_uid i = uid \<or> and (st_mode i) 4 \<noteq> 0)))"

text \<open>A refusal is sent as a transaction of the block size of the client.\<close>

definition CfGetFile :: "server_env \<Rightarrow> sys_env \<Rightarrow> string \<Rightarrow> nat \<Rightarrow> bool \<Rightarrow> session \<Rightarrow> session outcome" where
  "CfGetFile env sys filename buf_size encrypt s =
     bind_outcome (may_open (s_conn s) (stat_file env filename)) (\<lambda>ok.
       if \<not> ok then
         (if buf_size > CF_BUFSIZE - CF_INBAND_OFFSET
          then Inl (FatalErr ''SendTransaction software failure'')
          else Inr (emit (Sent CF_FAILEDSTR) (emit Refused s)))
       else (case file_data sys filename of
           None \<Rightarrow> Inr (emit (Sent CF_FAILEDSTR) s)
         | Some d \<Rightarrow>
             if encrypt
             then Inr (emit (SentFile filename True (encrypt_string sys (session_key (s_conn s))
               (if buf_size = 0 then [] else d))) s)
             else Inr (emit (SentFile filename False
               (concat (transfer buf_size (length d) 0 0 d))) s)))"

subsection \<open>Directories\<close>

text \<open>
  The names are packed with a byte 0 behind each; a packet that would come near the end of the
  buffer is sent with one byte more than it has.
\<close>

definition nul :: char where "nul = char_of (0 :: nat)"

fun pack_names :: "string list \<Rightarrow> string \<Rightarrow> string list" where
  "pack_names [] packed = [packed @ CFD_TERMINATOR @ [nul, nul]]"
| "pack_names (d # ds) packed =
     (if length d + 1 + length packed \<ge> CF_BUFSIZE - CF_MAXLINKSIZE
      then (packed @ [nul]) # pack_names ds (take CF_MAXLINKSIZE d @ [nul])
      else pack_names ds (packed @ take CF_MAXLINKSIZE d @ [nul]))"

fun send_all :: "string list \<Rightarrow> session \<Rightarrow> session outcome" where
  "send_all [] s = Inr s"
| "send_all (p # ps) s = bind_outcome (send p s) (send_all ps)"

definition open_directory :: "sys_env \<Rightarrow> (string \<Rightarrow> string) \<Rightarrow> bool \<Rightarrow> string \<Rightarrow> session \<Rightarrow> session outcome" where
  "open_directory sys code encrypted dirname s =
     (if dirname = [] \<or> hd dirname \<noteq> CHR ''/''
      then send (''BAD: request to access a non-absolute filename'' @ [CHR 0x0A]) s
      else (case dir_entries sys dirname of
          None \<Rightarrow> send (clip (''BAD: cfengine, couldn't open dir '' @ dirname @ [CHR 0x0A])) s
        | Some names \<Rightarrow> send_all (map code (pack_names names [])) (emit (Listed dirname encrypted) s)))"

definition CfOpenDirectory :: "sys_env \<Rightarrow> string \<Rightarrow> session \<Rightarrow> session outcome" where
  "CfOpenDirectory sys dirname s = open_directory sys (\<lambda>p. p) False dirname s"

definition CfSecOpenDirectory :: "sys_env \<Rightarrow> string \<Rightarrow> session \<Rightarrow> session outcome" where
  "CfSecOpenDirectory sys dirname s =
     open_directory sys (encrypt_string sys (session_key (s_conn s))) True dirname s"

subsection \<open>Checksums\<close>

text \<open>The rest of a line behind a word: \<open>sscanf (s, "WORD %[^\n]", buf)\<close>.\<close>

definition line_after :: "string \<Rightarrow> string \<Rightarrow> string option" where
  "line_after word s =
     (if \<not> strncmp_eq s word (length word) then None
      else (let l = takeWhile (\<lambda>c. c \<noteq> CHR 0x0A) (dropWhile isspace (drop (length word) s)) in
        if l = [] then None else Some l))"

definition CF_SMALL_OFFSET :: nat where "CF_SMALL_OFFSET = 2"

definition CompareLocalChecksum :: "sys_env \<Rightarrow> string \<Rightarrow> session \<Rightarrow> session outcome" where
  "CompareLocalChecksum sys recvbuffer s =
     (let line = until_nul recvbuffer in
      case line_after ''MD5'' line of
        None \<Rightarrow> Inl (Undefined ''CompareLocalChecksum: filename not set'')
      | Some filename \<Rightarrow>
          (let digest = mem_at recvbuffer (length line + CF_SMALL_OFFSET) CF_MD5_LEN in
           send (if checksum_changed sys filename digest then ''CFD_TRUE'' else ''CFD_FALSE'')
             (emit (Compared filename digest) s)))"

subsection \<open>Commands of cfrun\<close>

text \<open>\<open>WordHere\<close> at index \<open>i\<close> of the arguments.\<close>

definition WordHere :: "string \<Rightarrow> nat \<Rightarrow> string \<Rightarrow> bool" where
  "WordHere args i word =
     (let pos = drop i args; len = length word in
      if \<not> strncmp_eq pos word len then False
      else if i = 0 then True
      else args ! (i - 1) = CHR '' '' \<and> (len = length pos \<or> pos ! len = CHR '' ''))"

text \<open>Blanks from index \<open>i\<close> on; they may overwrite the terminator (the array behind it is cleared).\<close>

definition blank :: "nat \<Rightarrow> nat \<Rightarrow> string \<Rightarrow> string" where
  "blank i n args = take i args @ replicate n CHR '' '' @ drop (i + n) args"

definition scrub_word :: "nat \<Rightarrow> string \<Rightarrow> string" where
  "scrub_word i args =
     (if WordHere args i ''-K'' \<or> WordHere args i ''-f'' then blank i 2 args
      else if WordHere args i ''--no-lock'' then blank i 9 args
      else if WordHere args i ''--file'' then blank i 7 args
      else args)"

lemma WordHere_prefix: "WordHere args i word \<Longrightarrow> \<exists>r. drop i args = word @ r"
  by (auto simp: WordHere_def strncmp_eq_prefix split: if_splits)

lemma count_blank:
  "count_list (blank i n args) CHR ''-'' + count_list (take n (drop i args)) CHR ''-'' = count_list args CHR ''-''"
proof -
  have "count_list args c = count_list (take i args) c + (count_list (take n (drop i args)) c + count_list (drop (i + n) args) c)" for c
    by (metis append_take_drop_id count_list_append drop_drop add.commute)
  then show ?thesis by (simp add: blank_def count_list_append)
qed

lemma length_blank: "i < length args \<Longrightarrow> length (blank i n args) \<le> max (length args) (i + n)"
  by (simp add: blank_def)

lemma scrub_word_measure:
  assumes "i < length args"
  shows "length (scrub_word i args) + count_list (scrub_word i args) CHR ''-''
    \<le> length args + count_list args CHR ''-''"
proof -
  have word: "length (blank i n args) + count_list (blank i n args) CHR ''-''
      \<le> length args + count_list args CHR ''-''"
    if w: "WordHere args i w" "n \<le> length w + count_list w CHR ''-''" "length w \<le> n" for w n
  proof -
    obtain r where r: "drop i args = w @ r" using WordHere_prefix [OF w(1)] by blast
    then have len: "length args = i + length w + length r"
      using assms by (metis append_take_drop_id length_append length_take min.absorb4 add.assoc)
    have "count_list w CHR ''-'' \<le> count_list (take n (drop i args)) CHR ''-''"
      using r w(3) by (simp add: count_list_append)
    with count_blank [of i n args] length_blank [OF assms, of n] len w(2,3) show ?thesis by linarith
  qed
  show ?thesis
    using word [of "''-K''" 2] word [of "''-f''" 2] word [of "''--no-lock''" 9] word [of "''--file''" 7]
    by (simp add: scrub_word_def)
qed

function scrub :: "nat \<Rightarrow> string \<Rightarrow> string" where
  "scrub i args = (if length args \<le> i then args else scrub (Suc i) (scrub_word i args))"
  by pat_completeness auto

termination
proof (relation "measure (\<lambda>(i, args). length args + count_list args CHR ''-'' - i)", goal_cases)
  case (2 i args)
  with scrub_word_measure [of i args] show ?case by simp
qed simp

declare scrub.simps [simp del]

definition DoExec :: "sys_env \<Rightarrow> string \<Rightarrow> session \<Rightarrow> session outcome" where
  "DoExec sys args s = (case macro_value sys ''cfrunCommand'' of
       None \<Rightarrow> send (''Exec request: no cfrunCommand defined'' @ [CHR 0x0A]) s
     | Some _ \<Rightarrow>
         (let args' = scrub 0 args in
          bind_outcome (ExpandVarstring (expansion sys) (Some ''$(cfrunCommand) --no-splay --inform'')) (\<lambda>ebuff.
            if length ebuff + length args' + 6 > CF_BUFSIZE
            then send (clip (''Command line too long with args: '' @ ebuff @ [CHR 0x0A])) s
            else (let command = (if length args' > 0 then ebuff @ '' '' @ args' else ebuff) in
              bind_outcome (if length args' > 0 then send (clip (''cfservd Executing '' @ command @ [CHR 0x0A])) s
                            else Inr s) (\<lambda>s1.
                case run_command sys command of
                  None \<Rightarrow> send (clip (''Unable to run '' @ command @ [CHR 0x0A])) s1
                | Some ls \<Rightarrow> send_all (map (\<lambda>l. clip (l @ [CHR 0x0A])) (filter (list_ex (\<lambda>c. \<not> isspace c)) ls))
                    (emit (Executed command) s1))))))"

section \<open>Properties\<close>

lemma transfer_blocks:
  assumes "0 < buf_size"
  shows "concat (transfer buf_size (gone + length data) gone l data) = data"
proof (induction data arbitrary: gone l rule: length_induct)
  case (1 data)
  show ?case
  proof (cases "data = []")
    case True
    then show ?thesis by (subst transfer.simps) simp
  next
    case False
    show ?thesis
    proof (cases "buf_size \<le> length data")
      case True
      with assms have "length data div buf_size > 0" by (simp add: div_greater_zero_iff)
      moreover have "gone + length data = gone + buf_size + length (drop buf_size data)" using True by simp
      moreover have "concat (transfer buf_size (gone + buf_size + length (drop buf_size data)) (gone + buf_size)
          buf_size (drop buf_size data)) = drop buf_size data"
        using 1 [rule_format, of "drop buf_size data"] assms False by simp
      ultimately show ?thesis using assms False True
        by (subst transfer.simps) (simp add: mem_at_def)
    next
      case short: False
      with assms have "length data div buf_size = 0" "drop buf_size data = []" by simp_all
      with assms False short show ?thesis
        by (subst transfer.simps) (simp add: mem_at_def transfer.simps)
    qed
  qed
qed

text \<open>
  The blocks \<open>CfGetFile\<close> sends for a file are, put together, the bytes of the file, whatever
  (positive) block size the client asks for.
\<close>

lemma transfer_complete:
  assumes "0 < buf_size"
  shows "concat (transfer buf_size (length data) 0 0 data) = data"
  using transfer_blocks [OF assms, of 0 data] by simp

lemma transfer_complete_witness:
  "transfer 4 9 0 0 ''abcdefghi'' = [''abcd'', ''efgh'', ''i''] \<and> concat (transfer 4 9 0 0 ''abcdefghi'') = ''abcdefghi''"
proof -
  have "transfer 4 9 0 0 ''abcdefghi'' = [''abcd'', ''efgh'', ''i'']" by code_simp
  with transfer_complete [of 4 "''abcdefghi''"] show ?thesis by simp
qed

text \<open>An option that the word test does not take for a word stays in the command line.\<close>

lemma scrub_attached_option: "scrub 0 ''-v -f/tmp/evil'' = ''-v -f/tmp/evil''" "scrub 0 ''-v -f x'' = ''-v    x''"
  by code_simp+

end
