(* ===== verification/Server.thy ===== *)
theory Server
  imports ServerFiles
begin

text \<open>
  cfservd.c: the protocol of the server. \<open>BusyWithConnection\<close> handles one request of a session and
  tells whether the connection goes on; \<open>HandleConnection\<close> is the loop over it. What the server has
  done is the list of events of the session.
\<close>

record server =
  sv_env :: server_env
  sv_crypto :: crypto_env
  sv_dns :: dns_env
  sv_sys :: sys_env
  sv_cfg :: server_config
  sv_keys :: key_config
  CFRUNCOMMAND :: string
  CLOCK_DRIFT :: int
  DENYBADCLOCKS :: bool
  VERSION :: string

subsection \<open>Requests\<close>

datatype protos = cfd_exec | cfd_auth | cfd_get | cfd_opendir | cfd_synch | cfd_classes | cfd_md5
  | cfd_smd5 | cfd_cauth | cfd_sauth | cfd_ssynch | cfd_sget | cfd_version | cfd_sopendir

definition PROTOCOL :: "(string \<times> protos) list" where
  "PROTOCOL = [(''EXEC'', cfd_exec), (''AUTH'', cfd_auth), (''GET'', cfd_get), (''OPENDIR'', cfd_opendir),
     (''SYNCH'', cfd_synch), (''CLASSES'', cfd_classes), (''MD5'', cfd_md5), (''SMD5'', cfd_smd5),
     (''CAUTH'', cfd_cauth), (''SAUTH'', cfd_sauth), (''SSYNCH'', cfd_ssynch), (''SGET'', cfd_sget),
     (''VERSION'', cfd_version), (''SOPENDIR'', cfd_sopendir)]"

definition GetCommand :: "string \<Rightarrow> protos option outcome" where
  "GetCommand str = (case scan_word 4095 str of (op, _) \<Rightarrow>
     if op = [] then Inl (Undefined ''GetCommand: op not set'') else Inr (map_of PROTOCOL op))"

text \<open>A number behind a word: \<open>sscanf (s, "WORD %d", &n)\<close> on an \<open>n\<close> of 0, and what follows it.\<close>

definition number_after :: "string \<Rightarrow> string \<Rightarrow> (int \<times> string) option" where
  "number_after word s =
     (if strncmp_eq s word (length word) then scan_long (drop (length word) s) else None)"

definition length_after :: "string \<Rightarrow> string \<Rightarrow> nat" where
  "length_after word s = (case number_after word s of None \<Rightarrow> 0 | Some (v, _) \<Rightarrow> unsigned_int v)"

definition refuse :: "session \<Rightarrow> session" where
  "refuse s = emit Refused s"

definition with_access :: "server \<Rightarrow> string \<Rightarrow> bool \<Rightarrow> session
    \<Rightarrow> (session \<Rightarrow> (session \<times> bool) outcome) \<Rightarrow> (session \<Rightarrow> (session \<times> bool) outcome) \<Rightarrow> (session \<times> bool) outcome" where
  "with_access sv filename encrypt s granted denied =
     bind_outcome (AccessControl (sv_env sv) (sv_cfg sv) filename (s_conn s) encrypt) (\<lambda>(conn, ok).
       if ok then granted (s\<lparr>s_conn := conn\<rparr>) else denied (s\<lparr>s_conn := conn\<rparr>))"

subsection \<open>EXEC\<close>

definition ReplyNothing :: "session \<Rightarrow> session outcome" where
  "ReplyNothing s = send (clip (''Hello '' @ hostname (s_conn s) @ '' ('' @ ipaddr (s_conn s)
     @ ''), nothing relevant to do here...'' @ [CHR 0x0A, CHR 0x0A])) s"

text \<open>The loop over the classes of one message: \<open>None\<close> if it comes to the end.\<close>

fun class_names :: "server \<Rightarrow> item list \<Rightarrow> session \<Rightarrow> (session \<times> bool) option outcome" where
  "class_names sv [] s = Inr None"
| "class_names sv (ip # ips) s =
     bind_outcome (IsDefinedClass (classes_of (sv_cfg sv)) (Some (it_name ip))) (\<lambda>d.
       if d then Inr (Some (s, True))
       else if strncmp_eq (it_name ip) CFD_TERMINATOR (length CFD_TERMINATOR)
       then bind_outcome (ReplyNothing s) (\<lambda>s'. Inr (Some (s', False)))
       else class_names sv ips s)"

text \<open>
  At most ten messages. A failed call of \<open>ReceiveTransaction\<close> that was not interrupted is not
  noticed: the buffer is read as it is.
\<close>

fun match_loop :: "server \<Rightarrow> nat \<Rightarrow> nat \<Rightarrow> string option \<Rightarrow> session \<Rightarrow> (session \<times> bool) outcome" where
  "match_loop sv 0 n buf s = bind_outcome (ReplyNothing s) (\<lambda>s'. Inr (s', False))"
| "match_loop sv (Suc k) n buf s = (case receive s of (r, s1) \<Rightarrow>
     if r = RecvFailed True then match_loop sv k (n + 1) buf s1
     else (case (case r of Received m \<Rightarrow> Some m | RecvFailed _ \<Rightarrow> buf) of
         None \<Rightarrow> Inl (Undefined ''MatchClasses: recvbuffer not set'')
       | Some m \<Rightarrow>
           if strncmp_eq (until_nul m) CFD_TERMINATOR (length CFD_TERMINATOR) then
             (if n = 0 then Inr (s1, True)
              else bind_outcome (ReplyNothing s1) (\<lambda>s'. Inr (s', False)))
           else bind_outcome (class_names sv (SplitStringAsItemList (until_nul m) CHR '' '') s1)
             (\<lambda>res. case res of Some x \<Rightarrow> Inr x | None \<Rightarrow> match_loop sv k (n + 1) (Some m) s1)))"

definition MatchClasses :: "server \<Rightarrow> session \<Rightarrow> (session \<times> bool) outcome" where
  "MatchClasses sv s = match_loop sv 10 0 None s"

definition stop :: "session \<Rightarrow> (session \<times> bool) outcome" where
  "stop s = Inr (refuse s, False)"

definition go_on :: "session \<Rightarrow> (session \<times> bool) outcome" where
  "go_on s = Inr (refuse s, True)"

definition Terminate :: "session \<Rightarrow> session outcome" where
  "Terminate s = send (CFD_TERMINATOR @ [nul]) s"

definition finish :: "bool \<Rightarrow> session outcome \<Rightarrow> (session \<times> bool) outcome" where
  "finish b r = bind_outcome r (\<lambda>s. Inr (s, b))"

definition exec_request :: "server \<Rightarrow> string \<Rightarrow> session \<Rightarrow> (session \<times> bool) outcome" where
  "exec_request sv recvbuffer s =
     (let args = (case line_after ''EXEC'' recvbuffer of None \<Rightarrow> [] | Some a \<Rightarrow> a) in
      if \<not> id_verified (s_conn s) then stop s
      else if \<not> AllowedUser (sv_cfg sv) (username (s_conn s)) then stop s
      else if \<not> rsa_auth (s_conn s) then stop s
      else with_access sv (CFRUNCOMMAND sv) False s
        (\<lambda>s1. bind_outcome (MatchClasses sv s1) (\<lambda>(s2, matched).
           if \<not> matched then finish False (Terminate s2)
           else finish False (bind_outcome (DoExec (sv_sys sv) args s2) Terminate)))
        stop)"

subsection \<open>Files\<close>

definition get_request :: "server \<Rightarrow> string \<Rightarrow> session \<Rightarrow> (session \<times> bool) outcome" where
  "get_request sv recvbuffer s =
     (case (case number_after ''GET'' recvbuffer of None \<Rightarrow> (0, []) | Some (v, r) \<Rightarrow> (as_int v, r)) of
       (buf_size, r) \<Rightarrow>
       (let filename = (case line_after [] r of None \<Rightarrow> [] | Some f \<Rightarrow> f) in
        if buf_size < 0 \<or> int CF_BUFSIZE < buf_size then stop s
        else if \<not> id_verified (s_conn s) then stop s
        else with_access sv filename False s
          (\<lambda>s1. finish True (CfGetFile (sv_env sv) (sv_sys sv) filename
             (if int CF_BUFSIZE \<le> buf_size then 2048 else nat buf_size) False s1))
          go_on))"

text \<open>\<open>cfscanf\<close>: three fields of which the first two have fixed lengths, in a cleared buffer.\<close>

definition cfscanf :: "string \<Rightarrow> nat \<Rightarrow> nat \<Rightarrow> string \<times> string" where
  "cfscanf buf len1 len2 =
     (until_nul (mem_at buf 0 len1), until_nul (drop (len1 + 1 + len2 + 1) buf))"

definition CF_PROTO_OFFSET :: nat where "CF_PROTO_OFFSET = 16"

text \<open>
  The plain text of an encrypted request: the bytes of the message behind the offset. \<open>SGET\<close> writes
  it into another buffer, the other requests over the message itself.
\<close>

definition plain_text :: "server \<Rightarrow> string \<Rightarrow> nat \<Rightarrow> session \<Rightarrow> string" where
  "plain_text sv msg len s =
     decrypt_string (sv_sys sv) (session_key (s_conn s)) (mem_at msg CF_PROTO_OFFSET len)"

definition sget_request :: "server \<Rightarrow> string \<Rightarrow> session \<Rightarrow> (session \<times> bool) outcome" where
  "sget_request sv msg s =
     (let text' = until_nul msg; len = length_after ''SGET'' text';
          buf_size = (case number_after ''SGET'' text' of
              None \<Rightarrow> 0
            | Some (_, r) \<Rightarrow> (case scan_long r of None \<Rightarrow> 0 | Some (b, _) \<Rightarrow> as_int b)) in
      if CF_BUFSIZE \<le> len \<or> length msg \<noteq> len + CF_PROTO_OFFSET then stop s
      else (case cfscanf (plain_text sv msg len s) 3 8 of (check, filename) \<Rightarrow>
        if check \<noteq> ''GET'' then go_on s
        else if buf_size < 0 \<or> 8192 < buf_size then stop s
        else if \<not> id_verified (s_conn s) then stop s
        else with_access sv filename True s
          (\<lambda>s1. finish True (CfGetFile (sv_env sv) (sv_sys sv) filename
             (if int CF_BUFSIZE \<le> buf_size then 2048 else nat buf_size) True s1))
          stop))"

definition opendir_request :: "server \<Rightarrow> bool \<Rightarrow> string \<Rightarrow> session \<Rightarrow> (session \<times> bool) outcome" where
  "opendir_request sv secure recvbuffer s =
     (let filename = (case line_after ''OPENDIR'' recvbuffer of None \<Rightarrow> [] | Some f \<Rightarrow> f) in
      if \<not> id_verified (s_conn s) then stop s
      else with_access sv filename True s
        (\<lambda>s1. finish True (if secure then CfSecOpenDirectory (sv_sys sv) filename s1
                           else CfOpenDirectory (sv_sys sv) filename s1))
        stop)"

definition sopendir_request :: "server \<Rightarrow> string \<Rightarrow> session \<Rightarrow> (session \<times> bool) outcome" where
  "sopendir_request sv msg s =
     (let len = length_after ''SOPENDIR'' (until_nul msg) in
      if CF_BUFSIZE \<le> len \<or> length msg \<noteq> len + CF_PROTO_OFFSET then stop s
      else if session_key (s_conn s) = None then stop s
      else (let recvbuffer = until_nul (overlay (plain_text sv msg len s) msg) in
        if \<not> strncmp_eq recvbuffer ''OPENDIR'' 7 then go_on s
        else opendir_request sv True recvbuffer s))"

text \<open>A product of two 32-bit numbers that leaves the range is undefined.\<close>

definition clocks_differ :: "int \<Rightarrow> int \<Rightarrow> bool outcome" where
  "clocks_differ drift limit =
     (if 2 ^ 31 \<le> drift * drift \<or> 2 ^ 31 \<le> limit * limit then Inl (Undefined ''signed overflow'')
      else Inr (drift * drift > limit * limit))"

definition synch_fields :: "string \<Rightarrow> int \<times> string" where
  "synch_fields recvbuffer = (case number_after ''SYNCH'' recvbuffer of
       None \<Rightarrow> (0, [])
     | Some (t, r) \<Rightarrow> (t, case line_after ''STAT'' (dropWhile isspace r) of None \<Rightarrow> [] | Some f \<Rightarrow> f))"

definition deny_request :: "session \<Rightarrow> (session \<times> bool) outcome" where
  "deny_request s = finish False (send (''BAD: Request denied'' @ [CHR 0x0A]) s)"

definition synch_request :: "server \<Rightarrow> string \<Rightarrow> session \<Rightarrow> (session \<times> bool) outcome" where
  "synch_request sv recvbuffer s =
     (if \<not> id_verified (s_conn s) then stop s
      else (case synch_fields recvbuffer of (time_no_see, filename) \<Rightarrow>
        if time_no_see = 0 \<or> filename = [] then deny_request s
        else (case clock (sv_sys sv) of
            None \<Rightarrow> finish True (send ''BAD: clocks out of synch'' s)
          | Some tloc \<Rightarrow>
              with_access sv filename True s
                (\<lambda>s1. bind_outcome (if DENYBADCLOCKS sv then clocks_differ (as_int (tloc - time_no_see)) (CLOCK_DRIFT sv)
                                    else Inr False) (\<lambda>bad.
                   if bad then finish True (send (''BAD: Clocks are too far unsynchronized ''
                     @ show_int tloc @ ''/'' @ show_int time_no_see @ [CHR 0x0A]) s1)
                   else finish True (StatFile (sv_env sv) filename s1)))
                go_on)))"

definition ssynch_request :: "server \<Rightarrow> string \<Rightarrow> session \<Rightarrow> (session \<times> bool) outcome" where
  "ssynch_request sv msg s =
     (let len = length_after ''SSYNCH'' (until_nul msg) in
      if CF_BUFSIZE \<le> len \<or> length msg \<noteq> len + CF_PROTO_OFFSET then stop s
      else if session_key (s_conn s) = None then stop s
      else (let recvbuffer = until_nul (overlay (plain_text sv msg len s) msg) in
        if \<not> strncmp_eq recvbuffer ''SYNCH'' 5 then go_on s
        else synch_request sv recvbuffer s))"

definition md5_request :: "server \<Rightarrow> string \<Rightarrow> session \<Rightarrow> (session \<times> bool) outcome" where
  "md5_request sv recvbuffer s =
     (if \<not> id_verified (s_conn s) then go_on s
      else finish True (CompareLocalChecksum (sv_sys sv) recvbuffer s))"

definition smd5_request :: "server \<Rightarrow> string \<Rightarrow> session \<Rightarrow> (session \<times> bool) outcome" where
  "smd5_request sv msg s =
     (let len = length_after ''SMD5'' (until_nul msg) in
      if CF_BUFSIZE \<le> len \<or> length msg \<noteq> len + CF_PROTO_OFFSET then go_on s
      else (let recvbuffer = overlay (plain_text sv msg len s) msg in
        if \<not> strncmp_eq (until_nul recvbuffer) ''MD5'' 3 then stop s
        else md5_request sv recvbuffer s))"

subsection \<open>Identity\<close>

definition version_request :: "server \<Rightarrow> session \<Rightarrow> (session \<times> bool) outcome" where
  "version_request sv s =
     (let s1 = (if id_verified (s_conn s) then s else refuse s) in
      finish (id_verified (s_conn s)) (send (clip (''OK: '' @ VERSION sv)) s1))"

definition cauth_request :: "server \<Rightarrow> string \<Rightarrow> session \<Rightarrow> (session \<times> bool) outcome" where
  "cauth_request sv msg s =
     bind_outcome (VerifyConnection (sv_env sv) (sv_dns sv) (until_nul (drop (length ''CAUTH '') msg)) s) (\<lambda>(s1, ok).
       let s2 = s1\<lparr>s_conn := (s_conn s1)\<lparr>id_verified := ok\<rparr>\<rparr> in
       Inr (if ok then s2 else refuse s2, ok))"

definition sauth_request :: "server \<Rightarrow> string \<Rightarrow> session \<Rightarrow> (session \<times> bool) outcome" where
  "sauth_request sv msg s =
     (if \<not> id_verified (s_conn s) then stop s
      else bind_outcome (AuthenticationDialogue (sv_env sv) (sv_crypto sv) (sv_keys sv) msg (length msg) s)
        (\<lambda>(s1, ok). if ok then Inr (s1, True) else stop s1))"

definition handle_request :: "server \<Rightarrow> string \<Rightarrow> protos option \<Rightarrow> session \<Rightarrow> (session \<times> bool) outcome" where
  "handle_request sv msg command s = (case command of
       Some cfd_exec \<Rightarrow> exec_request sv (until_nul msg) s
     | Some cfd_version \<Rightarrow> version_request sv s
     | Some cfd_cauth \<Rightarrow> cauth_request sv msg s
     | Some cfd_sauth \<Rightarrow> sauth_request sv msg s
     | Some cfd_get \<Rightarrow> get_request sv (until_nul msg) s
     | Some cfd_sget \<Rightarrow> sget_request sv msg s
     | Some cfd_sopendir \<Rightarrow> sopendir_request sv msg s
     | Some cfd_opendir \<Rightarrow> opendir_request sv False (until_nul msg) s
     | Some cfd_ssynch \<Rightarrow> ssynch_request sv msg s
     | Some cfd_synch \<Rightarrow> synch_request sv (until_nul msg) s
     | Some cfd_smd5 \<Rightarrow> smd5_request sv msg s
     | Some cfd_md5 \<Rightarrow> md5_request sv msg s
     | _ \<Rightarrow> deny_request s)"

definition BusyWithConnection :: "server \<Rightarrow> session \<Rightarrow> (session \<times> bool) outcome" where
  "BusyWithConnection sv s = (case receive s of
       (RecvFailed _, s1) \<Rightarrow> Inr (s1, False)
     | (Received msg, s1) \<Rightarrow>
         if until_nul msg = [] then Inr (s1, False)
         else bind_outcome (GetCommand (until_nul msg)) (\<lambda>command. handle_request sv msg command s1))"

section \<open>What the server does for whom\<close>

text \<open>What a connection must have for an event.\<close>

definition granted :: "server \<Rightarrow> cfd_connection \<Rightarrow> string \<Rightarrow> bool \<Rightarrow> bool" where
  "granted sv conn filename encrypt =
     (\<exists>conn'. AccessControl (sv_env sv) (sv_cfg sv) filename conn encrypt = Inr (conn', True))"

fun permitted :: "server \<Rightarrow> cfd_connection \<Rightarrow> event \<Rightarrow> bool" where
  "permitted sv conn (Sent m) = True"
| "permitted sv conn Refused = True"
| "permitted sv conn (SentFile f encrypted d) = (id_verified conn \<and> granted sv conn f encrypted)"
| "permitted sv conn (Listed f encrypted) = (id_verified conn \<and> granted sv conn f True)"
| "permitted sv conn (Statted f) = (id_verified conn \<and> granted sv conn f True)"
| "permitted sv conn (Compared f d) = id_verified conn"
| "permitted sv conn (Executed c) =
     (id_verified conn \<and> rsa_auth conn \<and> AllowedUser (sv_cfg sv) (username conn)
      \<and> granted sv conn (CFRUNCOMMAND sv) False)"

definition adds :: "server \<Rightarrow> cfd_connection \<Rightarrow> session \<Rightarrow> session \<Rightarrow> bool" where
  "adds sv conn s s' =
     ((\<exists>evs. s_done s' = s_done s @ evs \<and> list_all (permitted sv conn) evs)
      \<and> inbox_size (s_inbox s') \<le> inbox_size (s_inbox s))"

lemma adds_refl [simp]: "adds sv conn s s"
  by (simp add: adds_def)

lemma adds_same:
  "s_done s' = s_done s \<Longrightarrow> inbox_size (s_inbox s') \<le> inbox_size (s_inbox s) \<Longrightarrow> adds sv conn s s'"
  by (simp add: adds_def)

lemma adds_trans: "adds sv conn s s1 \<Longrightarrow> adds sv conn s1 s2 \<Longrightarrow> adds sv conn s s2"
  by (auto simp: adds_def)

lemma adds_emit: "permitted sv conn e \<Longrightarrow> adds sv conn s (emit e s)"
  by (simp add: adds_def)

lemma adds_cong: "s_done s1 = s_done s \<Longrightarrow> s_inbox s1 = s_inbox s \<Longrightarrow> adds sv conn s1 s2 \<longleftrightarrow> adds sv conn s s2"
  by (simp add: adds_def)

lemma adds_send: "send b s = Inr s' \<Longrightarrow> adds sv conn s s'"
  by (auto dest: send_InrD intro!: adds_emit)

lemma adds_receive: "receive s = (r, s') \<Longrightarrow> adds sv conn s s'"
  by (auto simp: receive_simps intro!: adds_same)

lemma adds_send_all: "send_all ps s = Inr s' \<Longrightarrow> adds sv conn s s'"
  by (induction ps arbitrary: s) (auto elim!: bind_outcome_InrE intro: adds_trans adds_send)

lemma adds_emit_send_all:
  "permitted sv conn e \<Longrightarrow> send_all ps (emit e s) = Inr s' \<Longrightarrow> adds sv conn s s'"
  using adds_trans [OF adds_emit adds_send_all] by blast

lemma adds_class_names: "class_names sv ips s = Inr (Some (s', b)) \<Longrightarrow> adds sv conn s s'"
  by (induction ips) (auto elim!: bind_outcome_InrE split: if_splits simp: ReplyNothing_def dest: adds_send)

lemma adds_match_loop: "match_loop sv k n buf s = Inr (s', b) \<Longrightarrow> adds sv conn s s'"
proof (induction k arbitrary: n buf s)
  case 0
  then show ?case by (auto simp: ReplyNothing_def elim!: bind_outcome_InrE intro: adds_send)
next
  case (Suc k)
  obtain r s1 where rs: "receive s = (r, s1)" by (cases "receive s")
  note first = adds_receive [OF rs, of sv conn]
  from Suc.prems rs have "adds sv conn s1 s'"
    by (auto simp: ReplyNothing_def elim!: bind_outcome_InrE dest!: Suc.IH adds_class_names
        intro: adds_send split: if_splits reception.splits option.splits)
  with first show ?case by (rule adds_trans)
qed

lemma adds_auth_number: "auth_number cr s = (v, s') \<Longrightarrow> adds sv conn s s'"
  by (auto simp: auth_number_def dest: adds_receive split: prod.splits reception.splits if_splits)

lemma adds_auth_key: "auth_key cr s = (k, s') \<Longrightarrow> adds sv conn s s'"
  by (auto simp: auth_key_def adds_def split: prod.splits option.splits dest!: adds_auth_number [of cr _ _ _ sv conn])

lemma adds_auth_challenge: "auth_challenge cr c n k s = Inr (x, s') \<Longrightarrow> adds sv conn s s'"
  unfolding auth_challenge_def
  by (auto elim!: bind_outcome_InrE split: option.splits prod.splits reception.splits if_splits
      dest!: send_InrD simp: receive_simps adds_def)

lemma adds_auth_session_key: "auth_session_key cr k x s = Inr (s', b) \<Longrightarrow> adds sv conn s s'"
  by (auto simp: auth_session_key_def receive_simps adds_def
      split: prod.splits reception.splits option.splits if_splits)

lemma adds_AuthenticationDialogue:
  assumes "AuthenticationDialogue env cr cfg msg n s = Inr (s', b)"
  shows "adds sv conn s s'"
proof (cases "s' = s")
  case False
  then obtain iscrypt nonce where nonce: "auth_nonce cr msg n = Inr (Some (iscrypt, nonce))"
    using assms by (auto simp: AuthenticationDialogue_def elim!: bind_outcome_InrE
        split: option.splits prod.splits if_splits)
  obtain k s1 where key: "auth_key cr s = (k, s1)" by (cases "auth_key cr s")
  note first = adds_auth_key [OF key, of sv conn]
  have "adds sv conn s1 s'"
  proof (cases k)
    case None
    with assms nonce key False show ?thesis by (auto simp: AuthenticationDialogue_def split: if_splits)
  next
    case (Some newkey)
    with assms nonce key False obtain keys c reply known s2 where
      check: "CheckStoreKey env cfg (s_keys s1) (s_conn s1) newkey = Inr (keys, c, reply, known)"
      and s2: "send reply (s1\<lparr>s_keys := keys, s_conn := c\<rparr>) = Inr s2"
      by (auto simp: AuthenticationDialogue_def elim!: bind_outcome_InrE split: if_splits)
    with assms nonce key Some False have rest: "s' = s2 \<or> (\<exists>x s3. auth_challenge cr iscrypt nonce newkey s2 = Inr (x, s3)
        \<and> (s' = s3 \<or> (\<exists>e. auth_session_key cr newkey e s3 = Inr (s', b))))"
      by (auto simp: AuthenticationDialogue_def elim!: bind_outcome_InrE split: if_splits option.splits)
    have "adds sv conn s1 s2" using adds_send [OF s2, of sv conn] by (simp add: adds_def)
    moreover have "adds sv conn s2 s'"
      using rest by (auto intro: adds_auth_challenge adds_trans [OF adds_auth_challenge adds_auth_session_key])
    ultimately show ?thesis by (rule adds_trans)
  qed
  with first show ?thesis by (rule adds_trans)
qed simp

lemma adds_VerifyConnection: "VerifyConnection env dns buf s = Inr (s', b) \<Longrightarrow> adds sv conn s s'"
  by (auto simp: VerifyConnection_def adds_def elim!: bind_outcome_InrE split: prod.splits if_splits)

lemma adds_StatFile:
  "StatFile env f s = Inr s' \<Longrightarrow> permitted sv conn (Statted f) \<Longrightarrow> adds sv conn s s'"
  by (auto simp: StatFile_def send_stat_def adds_def elim!: bind_outcome_InrE dest!: send_InrD
      split: if_splits option.splits)

lemma adds_CfGetFile:
  "CfGetFile env sys f n encrypt s = Inr s' \<Longrightarrow> (\<And>d. permitted sv conn (SentFile f encrypt d)) \<Longrightarrow> adds sv conn s s'"
  by (auto simp: CfGetFile_def adds_def emit_def elim!: bind_outcome_InrE split: if_splits option.splits)

lemma adds_open_directory:
  "open_directory sys code e f s = Inr s' \<Longrightarrow> permitted sv conn (Listed f e) \<Longrightarrow> adds sv conn s s'"
  by (auto simp: open_directory_def intro: adds_send adds_emit_send_all [of sv conn "Listed f e"]
      split: if_splits option.splits)

lemma adds_CompareLocalChecksum:
  "CompareLocalChecksum sys m s = Inr s' \<Longrightarrow> (\<And>f d. permitted sv conn (Compared f d)) \<Longrightarrow> adds sv conn s s'"
  by (auto simp: CompareLocalChecksum_def adds_def dest!: send_InrD split: option.splits if_splits)

lemma adds_DoExec:
  assumes "DoExec sys args s = Inr s'" and "\<And>c. permitted sv conn (Executed c)"
  shows "adds sv conn s s'"
proof (cases "macro_value sys ''cfrunCommand''")
  case None
  with assms(1) show ?thesis by (auto simp: DoExec_def intro: adds_send)
next
  case (Some v)
  have step: "adds sv conn s s'" if "adds sv conn s s1" "send_all ps (emit (Executed c) s1) = Inr s'" for s1 ps c
    using that assms(2) adds_trans adds_emit_send_all by blast
  have unable: "adds sv conn s s'" if "adds sv conn s s1" "send m s1 = Inr s'" for s1 m
    using that adds_trans adds_send by blast
  obtain ebuff where ebuff: "ExpandVarstring (expansion sys) (Some ''$(cfrunCommand) --no-splay --inform'') = Inr ebuff"
    using assms(1) Some by (auto simp: DoExec_def elim!: bind_outcome_InrE)
  show ?thesis
  proof (cases "length ebuff + length (scrub 0 args) + 6 > CF_BUFSIZE")
    case True
    with assms(1) Some ebuff show ?thesis by (auto simp: DoExec_def intro: adds_send)
  next
    case False
    with assms(1) Some ebuff obtain s1 m where s1: "s1 = s \<or> send m s = Inr s1"
      and rest: "(\<exists>m'. send m' s1 = Inr s') \<or> (\<exists>ps c. send_all ps (emit (Executed c) s1) = Inr s')"
      by (auto simp: DoExec_def elim!: bind_outcome_InrE split: if_splits option.splits) blast+
    from s1 have "adds sv conn s s1" by (auto intro: adds_send)
    with rest step unable show ?thesis by blast
  qed
qed

text \<open>A request that needs access runs on a connection that differs only in \<open>maproot\<close>.\<close>

lemma with_access_adds:
  assumes "with_access sv f encrypt s yes no = Inr (s', b)"
    and "\<And>s1. granted sv (s_conn s) f encrypt \<Longrightarrow> s_done s1 = s_done s \<Longrightarrow> yes s1 = Inr (s', b) \<Longrightarrow> adds sv conn s1 s'"
    and "\<And>s1. s_done s1 = s_done s \<Longrightarrow> no s1 = Inr (s', b) \<Longrightarrow> adds sv conn s1 s'"
  shows "adds sv conn s s'"
proof -
  obtain c ok where ok: "AccessControl (sv_env sv) (sv_cfg sv) f (s_conn s) encrypt = Inr (c, ok)"
    and rest: "(if ok then yes (s\<lparr>s_conn := c\<rparr>) else no (s\<lparr>s_conn := c\<rparr>)) = Inr (s', b)"
    using assms(1) by (auto simp: with_access_def elim!: bind_outcome_InrE)
  have "adds sv conn (s\<lparr>s_conn := c\<rparr>) s'"
  proof (cases ok)
    case True
    with ok have "granted sv (s_conn s) f encrypt" by (auto simp: granted_def)
    with True rest show ?thesis by (intro assms(2)) simp_all
  next
    case False
    with rest show ?thesis by (intro assms(3)) simp_all
  qed
  then show ?thesis by (simp add: adds_def)
qed

lemma adds_stop: "stop s = Inr (s', b) \<Longrightarrow> adds sv conn s s'"
  by (auto simp: stop_def refuse_def adds_def)

lemma adds_go_on: "go_on s = Inr (s', b) \<Longrightarrow> adds sv conn s s'"
  by (auto simp: go_on_def refuse_def adds_def)

lemma finish_Inr: "finish c r = Inr (s', b) \<longleftrightarrow> r = Inr s' \<and> b = c"
  by (auto simp: finish_def elim!: bind_outcome_InrE)

lemma adds_deny: "deny_request s = Inr (s', b) \<Longrightarrow> adds sv conn s s'"
  by (auto simp: deny_request_def finish_Inr intro: adds_send)

lemmas adds_ends = adds_stop adds_go_on adds_deny

lemma adds_exec_request:
  assumes "exec_request sv m s = Inr (s', b)"
  shows "adds sv (s_conn s) s s'"
proof (cases "id_verified (s_conn s) \<and> AllowedUser (sv_cfg sv) (username (s_conn s)) \<and> rsa_auth (s_conn s)")
  case False
  with assms show ?thesis by (auto simp: exec_request_def intro: adds_ends split: if_splits)
next
  case True
  let ?args = "case line_after ''EXEC'' m of None \<Rightarrow> [] | Some a \<Rightarrow> a"
  from assms True have "with_access sv (CFRUNCOMMAND sv) False s
      (\<lambda>s1. bind_outcome (MatchClasses sv s1) (\<lambda>(s2, matched).
           if \<not> matched then finish False (Terminate s2)
           else finish False (bind_outcome (DoExec (sv_sys sv) ?args s2) Terminate))) stop = Inr (s', b)"
    by (simp add: exec_request_def)
  then show ?thesis
  proof (rule with_access_adds)
    fix s1
    assume g: "granted sv (s_conn s) (CFRUNCOMMAND sv) False"
      and run: "bind_outcome (MatchClasses sv s1) (\<lambda>(s2, matched).
           if \<not> matched then finish False (Terminate s2)
           else finish False (bind_outcome (DoExec (sv_sys sv) ?args s2) Terminate)) = Inr (s', b)"
    from run obtain s2 matched where match: "MatchClasses sv s1 = Inr (s2, matched)"
      and rest: "(if \<not> matched then finish False (Terminate s2)
           else finish False (bind_outcome (DoExec (sv_sys sv) ?args s2) Terminate)) = Inr (s', b)"
      by (auto elim!: bind_outcome_InrE)
    from match have "adds sv (s_conn s) s1 s2" by (auto simp: MatchClasses_def intro: adds_match_loop)
    moreover have "adds sv (s_conn s) s2 s'"
      using rest g True
      by (auto simp: finish_Inr Terminate_def elim!: bind_outcome_InrE split: if_splits
          intro: adds_send adds_trans [OF adds_DoExec adds_send])
    ultimately show "adds sv (s_conn s) s1 s'" by (rule adds_trans)
  qed (auto intro: adds_ends)
qed

lemma adds_get_request: "get_request sv m s = Inr (s', b) \<Longrightarrow> adds sv (s_conn s) s s'"
  by (auto simp: get_request_def finish_Inr Let_def split: if_splits prod.splits
      intro: adds_ends adds_CfGetFile elim!: with_access_adds)

lemma adds_sget_request: "sget_request sv m s = Inr (s', b) \<Longrightarrow> adds sv (s_conn s) s s'"
  by (auto simp: sget_request_def finish_Inr Let_def split: if_splits prod.splits
      intro: adds_ends adds_CfGetFile elim!: with_access_adds)

lemma adds_opendir_request:
  assumes "opendir_request sv e m s = Inr (s', b)"
  shows "adds sv (s_conn s) s s'"
proof (cases "id_verified (s_conn s)")
  case False
  with assms show ?thesis by (auto simp: opendir_request_def intro: adds_ends)
next
  case True
  let ?f = "case line_after ''OPENDIR'' m of None \<Rightarrow> [] | Some f \<Rightarrow> f"
  from assms True have "with_access sv ?f True s
      (\<lambda>s1. finish True (if e then CfSecOpenDirectory (sv_sys sv) ?f s1 else CfOpenDirectory (sv_sys sv) ?f s1))
      stop = Inr (s', b)"
    by (simp add: opendir_request_def)
  then show ?thesis
  proof (rule with_access_adds)
    fix s1
    assume g: "granted sv (s_conn s) ?f True"
      and run: "finish True (if e then CfSecOpenDirectory (sv_sys sv) ?f s1 else CfOpenDirectory (sv_sys sv) ?f s1)
        = Inr (s', b)"
    from run obtain code where "open_directory (sv_sys sv) code e ?f s1 = Inr s'"
      by (cases e) (auto simp: finish_Inr CfSecOpenDirectory_def CfOpenDirectory_def)
    then show "adds sv (s_conn s) s1 s'" by (rule adds_open_directory) (use g True in simp)
  qed (rule adds_stop)
qed

lemma adds_synch_request:
  assumes "synch_request sv m s = Inr (s', b)"
  shows "adds sv (s_conn s) s s'"
proof -
  obtain t f where fields: "synch_fields m = (t, f)" by (cases "synch_fields m")
  consider (out) "\<not> id_verified (s_conn s)" | (deny) "id_verified (s_conn s)" "t = 0 \<or> f = []"
    | (no_clock) "id_verified (s_conn s)" "\<not> (t = 0 \<or> f = [])" "clock (sv_sys sv) = None"
    | (go) tloc where "id_verified (s_conn s)" "\<not> (t = 0 \<or> f = [])" "clock (sv_sys sv) = Some tloc"
    by (cases "clock (sv_sys sv)") auto
  then show ?thesis
  proof cases
    case out
    with assms show ?thesis by (auto simp: synch_request_def intro: adds_ends)
  next
    case deny
    with assms fields show ?thesis by (auto simp: synch_request_def intro: adds_ends)
  next
    case no_clock
    with assms fields show ?thesis by (auto simp: synch_request_def finish_Inr intro: adds_send)
  next
    case go
    let ?bad = "if DENYBADCLOCKS sv then clocks_differ (as_int (tloc - t)) (CLOCK_DRIFT sv) else Inr False"
    let ?late = "''BAD: Clocks are too far unsynchronized '' @ show_int tloc @ ''/'' @ show_int t @ [CHR 0x0A]"
    from go assms fields have "with_access sv f True s
        (\<lambda>s1. bind_outcome ?bad (\<lambda>bad. if bad then finish True (send ?late s1)
           else finish True (StatFile (sv_env sv) f s1))) go_on = Inr (s', b)"
      by (simp add: synch_request_def)
    then show ?thesis
    proof (rule with_access_adds)
      fix s1
      assume g: "granted sv (s_conn s) f True"
        and run: "bind_outcome ?bad (\<lambda>bad. if bad then finish True (send ?late s1)
           else finish True (StatFile (sv_env sv) f s1)) = Inr (s', b)"
      then consider "send ?late s1 = Inr s'" | "StatFile (sv_env sv) f s1 = Inr s'"
        by (auto simp only: finish_Inr elim!: bind_outcome_InrE split: if_splits)
      then show "adds sv (s_conn s) s1 s'"
        by cases (rule adds_send, assumption, rule adds_StatFile, assumption, use g go in simp)
    qed (rule adds_go_on)
  qed
qed

lemma adds_md5_request: "md5_request sv m s = Inr (s', b) \<Longrightarrow> adds sv (s_conn s) s s'"
  by (auto simp: md5_request_def finish_Inr split: if_splits intro: adds_ends adds_CompareLocalChecksum)

lemma adds_version_request: "version_request sv s = Inr (s', b) \<Longrightarrow> adds sv conn s s'"
  by (auto simp: version_request_def finish_Inr refuse_def adds_def dest!: send_InrD split: if_splits)

lemma adds_cauth_request: "cauth_request sv m s = Inr (s', b) \<Longrightarrow> adds sv conn s s'"
  using adds_VerifyConnection
  by (fastforce simp: cauth_request_def refuse_def adds_def Let_def elim!: bind_outcome_InrE split: if_splits)

lemma adds_sauth_request: "sauth_request sv m s = Inr (s', b) \<Longrightarrow> adds sv conn s s'"
  by (auto simp: sauth_request_def elim!: bind_outcome_InrE split: if_splits
      intro: adds_ends adds_AuthenticationDialogue adds_trans [OF adds_AuthenticationDialogue adds_stop])

lemmas adds_requests = adds_exec_request adds_get_request adds_sget_request adds_opendir_request
  adds_synch_request adds_md5_request adds_version_request adds_cauth_request adds_sauth_request

lemma adds_handle_request: "handle_request sv m c s = Inr (s', b) \<Longrightarrow> adds sv (s_conn s) s s'"
  unfolding handle_request_def
  by (auto simp: sopendir_request_def ssynch_request_def smd5_request_def Let_def
      intro: adds_requests adds_ends split: option.splits protos.splits if_splits)



section \<open>What is not checked\<close>

text \<open>
  A checksum request is answered for any file name: access control is not asked. (The server tells
  whether the file has the checksum the client sends.)
\<close>

lemma md5_request_any_file:
  assumes "id_verified (s_conn s)" and "line_after ''MD5'' (until_nul m) = Some f"
  shows "\<exists>d s'. md5_request sv m s = Inr (s', True) \<and> Compared f d \<in> set (s_done s')"
  using assms by (auto simp: md5_request_def CompareLocalChecksum_def finish_def send_def
      CF_BUFSIZE_def CF_INBAND_OFFSET_def)

text \<open>Before a key has been accepted on trust the names a client gives are taken as they are.\<close>

lemma cauth_star_root:
  assumes "trust (s_conn s) = False" and "getpwnam (sv_dns sv) ''root'' = Some 0"
  shows "cauth_request sv ''CAUTH x * root'' s = Inr (s\<lparr>s_conn := (s_conn s)
    \<lparr>hostname := ''*'', username := ''root'', conn_uid := Some 0, id_verified := True\<rparr>\<rparr>, True)"
proof -
  have "until_nul (drop (length ''CAUTH '') ''CAUTH x * root'') = ''x * root''"
    and "scan_word 255 ''x * root'' = (''x'', '' * root'')"
    and "scan_word 255 '' * root'' = (''*'', '' root'')"
    and "scan_word 255 '' root'' = (''root'', [])"
    and "ToLowerStr ''*'' = Inr ''*''" by code_simp+
  with assms show ?thesis by (simp add: cauth_request_def VerifyConnection_def)
qed

lemma host_in_Nil: "\<exists>b. host_in env cfg [] conn = Inr b"
  by (simp add: host_in_def or_outcome_def IsFuzzyItemIn_def ex_bool_eq)

lemma get_fields:
  assumes "f \<noteq> []" and "\<not> isspace (hd f)" and "CHR 0x0A \<notin> set f"
  shows "number_after ''GET'' (''GET 9 '' @ f) = Some (9, CHR '' '' # f)"
    and "line_after [] (CHR '' '' # f) = Some f"
proof -
  have "scan_int ('' 9 '' @ f) = Some (9, CHR '' '' # f)"
    by (simp add: scan_int_def scan_unsigned_def isspace_def isdigit_def digits_value_def)
  then show "number_after ''GET'' (''GET 9 '' @ f) = Some (9, CHR '' '' # f)"
    by (simp add: number_after_def strncmp_eq_def scan_long_def long_clip_def)
  have "dropWhile isspace (CHR '' '' # f) = f" using assms(1,2) by (cases f) (auto simp: isspace_def)
  then show "line_after [] (CHR '' '' # f) = Some f"
    using assms(1,3) by (cases f) (auto simp: line_after_def strncmp_eq_def takeWhile_eq_all_conv [THEN iffD2])
qed





section \<open>The loop over the requests\<close>

text \<open>
  The loop of \<open>HandleConnection\<close> with a bound on its rounds: \<open>None\<close> if the bound is used up. (The
  count of threads around it is the subject of \<open>Threads\<close>.)
\<close>

fun busy_loop :: "nat \<Rightarrow> server \<Rightarrow> session \<Rightarrow> session outcome option" where
  "busy_loop 0 sv s = None"
| "busy_loop (Suc n) sv s = (case BusyWithConnection sv s of
       Inl e \<Rightarrow> Some (Inl e)
     | Inr (s', True) \<Rightarrow> busy_loop n sv s'
     | Inr (s', False) \<Rightarrow> Some (Inr s'))"

lemma BusyWithConnection_uses_input:
  assumes "BusyWithConnection sv s = Inr (s', True)"
  shows "inbox_size (s_inbox s') < inbox_size (s_inbox s)"
proof -
  obtain msg s1 command where r: "receive s = (Received msg, s1)" and msg: "until_nul msg \<noteq> []"
    and run: "handle_request sv msg command s1 = Inr (s', True)"
    using assms by (auto simp: BusyWithConnection_def elim!: bind_outcome_InrE
        split: prod.splits reception.splits if_splits)
  from msg have "0 < length msg" by (auto simp: until_nul_def)
  moreover have "inbox_size (s_inbox s1) + length msg \<le> inbox_size (s_inbox s)"
    using r ReceiveTransaction_size(2) [of "s_inbox s" msg] by (auto simp: receive_simps intro: prod_eqI)
  moreover have "inbox_size (s_inbox s') \<le> inbox_size (s_inbox s1)"
    using adds_handle_request [OF run] by (simp add: adds_def)
  ultimately show ?thesis by linarith
qed

text \<open>
  C6. A connection ends: the loop over its requests makes at most one round more than the client
  sends bytes and segments.
\<close>

theorem busy_loop_ends: "busy_loop (inbox_size (s_inbox s) + 1) sv s \<noteq> None"
proof (induction "inbox_size (s_inbox s)" arbitrary: s rule: less_induct)
  case less
  show ?case
  proof (cases "BusyWithConnection sv s")
    case (Inr r)
    obtain s' b where r: "r = (s', b)" by (cases r)
    have mono: "busy_loop n sv s' \<noteq> None \<Longrightarrow> n \<le> m \<Longrightarrow> busy_loop m sv s' \<noteq> None" for n m s'
    proof (induction n arbitrary: m s')
      case (Suc n)
      then obtain k where "m = Suc k" "n \<le> k" by (cases m) auto
      with Suc show ?case by (auto split: sum.splits prod.splits bool.splits)
    qed simp
    show ?thesis
    proof (cases b)
      case True
      with Inr r have "BusyWithConnection sv s = Inr (s', True)" by simp
      note size = BusyWithConnection_uses_input [OF this]
      from less [OF size] have "busy_loop (inbox_size (s_inbox s) ) sv s' \<noteq> None"
        by (rule mono) (use size in simp)
      with Inr r True show ?thesis by simp
    qed (use Inr r in simp)
  qed simp
qed

end
