(* ===== verification/Threads.thy ===== *)
theory Threads
  imports Server
begin

text \<open>
  cfservd.c: which connections the server takes (\<open>StartServer\<close>, \<open>PurgeOldConnections\<close>) and how many
  of them it serves at a time (\<open>HandleConnection\<close>). The threads are a step relation: each step is
  what one thread does between two points where another can come in.
\<close>

subsection \<open>The list of connections\<close>

record listener =
  NONATTACKERLIST :: "item list"
  ATTACKERLIST :: "item list"
  MULTICONNLIST :: "item list"

text \<open>
  \<open>DeleteItem\<close> frees the node, and the loop goes on with its name and its successor: from the first
  connection that is too old on the behaviour is undefined. \<open>then\<close> keeps its value where the field
  has no number.
\<close>

fun purge_loop :: "item list \<Rightarrow> int \<Rightarrow> int \<Rightarrow> item list outcome" where
  "purge_loop [] now since = Inr []"
| "purge_loop (ip # ips) now since = (case it_classes ip of
       None \<Rightarrow> Inl (Undefined ''PurgeOldConnections: no time'')
     | Some t \<Rightarrow>
         (let since' = (case scan_long t of None \<Rightarrow> since | Some (v, _) \<Rightarrow> as_int v) in
          if now > since' + 7200 then Inl (Undefined ''PurgeOldConnections: use after free'')
          else bind_outcome (purge_loop ips now since') (\<lambda>r. Inr (ip # r))))"

definition PurgeOldConnections :: "item list \<Rightarrow> int \<Rightarrow> item list outcome" where
  "PurgeOldConnections connections now = purge_loop connections now 0"

text \<open>One accepted socket: the new list of connections, and whether a thread is made for it.\<close>

definition accept_connection :: "server_env \<Rightarrow> listener \<Rightarrow> int \<Rightarrow> string \<Rightarrow> item list \<Rightarrow> (item list \<times> bool) outcome" where
  "accept_connection env l now addr connections =
     (let a = MapAddress addr in
      bind_outcome (if NONATTACKERLIST l = [] then Inr True else fuzzy_in env (NONATTACKERLIST l) a) (\<lambda>good.
        if \<not> good then Inr (connections, False)
        else bind_outcome (fuzzy_in env (ATTACKERLIST l) a) (\<lambda>bad.
          if bad then Inr (connections, False)
          else bind_outcome (PurgeOldConnections connections now) (\<lambda>live.
            bind_outcome (fuzzy_in env (MULTICONNLIST l) a) (\<lambda>multi.
              if \<not> multi \<and> IsItemIn live (Some a) then Inr (live, False)
              else Inr (prepended live a (Some (take 62 (show_int (as_int now)))), True))))))"

definition SpawnConnection :: "string \<Rightarrow> cfd_connection" where
  "SpawnConnection addr = NewConn\<lparr>ipaddr := take (CF_MAX_IP_LEN - 1) addr\<rparr>"

text \<open>
  A connection is taken only from an allowed address that is not denied and has no connection yet,
  unless it may have many; it is then in the list, and the others stay there.
\<close>

lemma accept_connection_takes:
  assumes "accept_connection env l now addr connections = Inr (connections', True)"
  shows "(NONATTACKERLIST l = [] \<or> fuzzy_in env (NONATTACKERLIST l) (MapAddress addr) = Inr True)
    \<and> fuzzy_in env (ATTACKERLIST l) (MapAddress addr) = Inr False
    \<and> (IsItemIn connections (Some (MapAddress addr)) \<longrightarrow> fuzzy_in env (MULTICONNLIST l) (MapAddress addr) = Inr True)
    \<and> (\<exists>it. connections' = it # connections \<and> it_name it = MapAddress addr)"
proof -
  have purge: "purge_loop cs now t = Inr cs' \<Longrightarrow> cs' = cs" for cs t cs'
    by (induction cs arbitrary: t cs') (auto elim!: bind_outcome_InrE split: option.splits if_splits)
  then have purge': "PurgeOldConnections cs now = Inr cs' \<Longrightarrow> cs' = cs" for cs cs'
    by (simp add: PurgeOldConnections_def)
  from assms show ?thesis
    by (auto simp: accept_connection_def prepended_def elim!: bind_outcome_InrE
        dest!: purge' split: if_splits)
qed

lemma accept_connection_takes_witness:
  "\<exists>(l :: listener) env. IsItemIn [mk_item ''10.0.0.8'' (Some ''1000'')] (Some ''10.0.0.9'') = False
    \<and> fuzzy_in env (ATTACKERLIST l) (MapAddress ''10.0.0.9'') = Inr False"
proof -
  let ?env = "\<lparr>inet_addr = \<lambda>_. 0, inet_pton6 = \<lambda>_. None, realpath = Some, lstat = \<lambda>_. None,
      stat_file = \<lambda>_. None, readlink = \<lambda>_. None\<rparr>"
  let ?l = "\<lparr>NONATTACKERLIST = [mk_item ''10.'' None], ATTACKERLIST = [mk_item ''10.1.'' None],
      MULTICONNLIST = [mk_item ''10.0.1.'' None]\<rparr>"
  have "accept_connection ?env ?l 2000 ''10.0.0.9'' [mk_item ''10.0.0.8'' (Some ''1000'')]
      = Inr ([mk_item ''10.0.0.9'' (Some ''2000''), mk_item ''10.0.0.8'' (Some ''1000'')], True)" by code_simp
  from accept_connection_takes [OF this]
  have "fuzzy_in ?env (ATTACKERLIST ?l) (MapAddress ''10.0.0.9'') = Inr False" by (elim conjE)
  then show ?thesis by (intro exI [of _ ?l] exI [of _ ?env]) (simp add: IsItemIn_def)
qed

lemma PurgeOldConnections_use_after_free:
  "PurgeOldConnections [mk_item ''10.0.0.8'' (Some ''1000'')] 9000 = Inl (Undefined ''PurgeOldConnections: use after free'')"
  by code_simp

subsection \<open>The threads\<close>

text \<open>
  Where a thread of \<open>HandleConnection\<close> is: before the lock that counts it, counted, sent away
  because there are too many, serving its connection, finished.
\<close>

datatype thread_pc = Spawned | Counted | Too_many | Serving | Done

record thread_state =
  ACTIVE_THREADS :: int
  TRIES :: int
  threads :: "thread_pc list"
  exited :: bool

definition start_threads :: thread_state where
  "start_threads = \<lparr>ACTIVE_THREADS = 0, TRIES = 0, threads = [], exited = False\<rparr>"

inductive thread_step :: "int \<Rightarrow> int \<Rightarrow> thread_state \<Rightarrow> thread_state \<Rightarrow> bool" for maxp maxtries where
  spawn: "\<not> exited s \<Longrightarrow> thread_step maxp maxtries s (s\<lparr>threads := threads s @ [Spawned]\<rparr>)"
| count: "\<not> exited s \<Longrightarrow> i < length (threads s) \<Longrightarrow> threads s ! i = Spawned \<Longrightarrow>
    thread_step maxp maxtries s
      (s\<lparr>ACTIVE_THREADS := ACTIVE_THREADS s + 1, threads := (threads s)[i := Counted]\<rparr>)"
| too_many: "\<not> exited s \<Longrightarrow> i < length (threads s) \<Longrightarrow> threads s ! i = Counted \<Longrightarrow> ACTIVE_THREADS s \<ge> maxp \<Longrightarrow>
    thread_step maxp maxtries s (s\<lparr>threads := (threads s)[i := Too_many]\<rparr>)"
| send_away: "\<not> exited s \<Longrightarrow> i < length (threads s) \<Longrightarrow> threads s ! i = Too_many \<Longrightarrow>
    thread_step maxp maxtries s
      (s\<lparr>ACTIVE_THREADS := ACTIVE_THREADS s - 1, TRIES := TRIES s + 1, exited := TRIES s > maxtries,
         threads := (threads s)[i := Done]\<rparr>)"
| serve: "\<not> exited s \<Longrightarrow> i < length (threads s) \<Longrightarrow> threads s ! i = Counted \<Longrightarrow> ACTIVE_THREADS s < maxp \<Longrightarrow>
    thread_step maxp maxtries s (s\<lparr>TRIES := 0, threads := (threads s)[i := Serving]\<rparr>)"
| leave: "\<not> exited s \<Longrightarrow> i < length (threads s) \<Longrightarrow> threads s ! i = Serving \<Longrightarrow>
    thread_step maxp maxtries s
      (s\<lparr>ACTIVE_THREADS := ACTIVE_THREADS s - 1, threads := (threads s)[i := Done]\<rparr>)"

inductive threads_reachable :: "int \<Rightarrow> int \<Rightarrow> thread_state \<Rightarrow> bool" for maxp maxtries where
  start: "threads_reachable maxp maxtries start_threads"
| step: "threads_reachable maxp maxtries s \<Longrightarrow> thread_step maxp maxtries s s' \<Longrightarrow>
    threads_reachable maxp maxtries s'"

definition counted :: "thread_pc \<Rightarrow> bool" where
  "counted pc = (pc \<in> {Counted, Too_many, Serving})"

definition how_many :: "(thread_pc \<Rightarrow> bool) \<Rightarrow> thread_pc list \<Rightarrow> int" where
  "how_many P ts = int (length (filter P ts))"

lemma how_many_simps [simp]:
  "how_many P [] = 0"
  "how_many P (t # ts) = (if P t then 1 else 0) + how_many P ts"
  by (simp_all add: how_many_def)

lemma how_many_nonneg: "0 \<le> how_many P ts"
  by (simp add: how_many_def)

lemma how_many_update:
  "i < length ts \<Longrightarrow> how_many P (ts[i := pc]) = how_many P ts
     - (if P (ts ! i) then 1 else 0) + (if P pc then 1 else 0)"
proof (induction ts arbitrary: i)
  case (Cons t ts)
  then show ?case by (cases i) auto
qed simp

lemma how_many_append [simp]: "how_many P (ts @ [t]) = how_many P ts + (if P t then 1 else 0)"
  by (simp add: how_many_def)

lemma how_many_mono: "(\<And>t. P t \<Longrightarrow> Q t) \<Longrightarrow> how_many P ts \<le> how_many Q ts"
  by (induction ts) auto

lemma how_many_pos: "i < length ts \<Longrightarrow> P (ts ! i) \<Longrightarrow> 0 < how_many P ts"
  unfolding how_many_def by (metis filter_empty_conv length_greater_0_conv nth_mem of_nat_0_less_iff)

definition thread_inv :: "int \<Rightarrow> thread_state \<Rightarrow> bool" where
  "thread_inv maxp s =
     (ACTIVE_THREADS s = how_many counted (threads s)
      \<and> (how_many (\<lambda>t. t = Serving) (threads s) = 0 \<or> how_many (\<lambda>t. t = Serving) (threads s) < maxp))"

lemma thread_inv_step: "thread_step maxp maxtries s s' \<Longrightarrow> thread_inv maxp s \<Longrightarrow> thread_inv maxp s'"
proof (induction rule: thread_step.induct)
  case (serve s i)
  let ?ts = "(threads s)[i := Serving]"
  have "how_many (\<lambda>t. t = Serving) ?ts \<le> how_many counted ?ts"
    by (rule how_many_mono) (simp add: counted_def)
  also have "\<dots> = ACTIVE_THREADS s"
    using serve by (simp add: thread_inv_def how_many_update counted_def)
  finally show ?case using serve by (simp add: thread_inv_def how_many_update counted_def)
next
  case (leave s i)
  then have "0 < how_many (\<lambda>t. t = Serving) (threads s)" by (intro how_many_pos)
  with leave show ?case by (auto simp: thread_inv_def how_many_update counted_def)
qed (auto simp: thread_inv_def how_many_update counted_def)

lemma threads_reachable_inv: "threads_reachable maxp maxtries s \<Longrightarrow> thread_inv maxp s"
proof (induction rule: threads_reachable.induct)
  case start
  show ?case by (simp add: thread_inv_def start_threads_def)
next
  case (step s s')
  then show ?case by (blast intro: thread_inv_step)
qed

text \<open>
  C4. However the threads interleave, the counter is the number of threads that have been counted and
  not yet left, and fewer connections than \<open>CFD_MAXPROCESSES\<close> are served at a time.
\<close>

theorem threads_bounded:
  assumes "threads_reachable maxp maxtries s" and "0 < maxp"
  shows "ACTIVE_THREADS s = how_many counted (threads s)
    \<and> how_many (\<lambda>t. t = Serving) (threads s) < maxp"
  using threads_reachable_inv [OF assms(1)] assms(2) by (auto simp: thread_inv_def)

theorem threads_bounded_witness:
  "\<exists>s. threads_reachable 2 0 s \<and> threads s = [Serving, Counted]
     \<and> how_many (\<lambda>t. t = Serving) (threads s) < 2"
proof -
  let ?s = "\<lambda>a t. \<lparr>ACTIVE_THREADS = a, TRIES = 0, threads = t, exited = False\<rparr>"
  have "threads_reachable 2 0 (?s 0 [])"
    using threads_reachable.start [of 2 0] by (simp add: start_threads_def)
  then have "threads_reachable 2 0 (?s 0 [Spawned])"
    by (rule threads_reachable.step) (use thread_step.spawn [of "?s 0 []"] in simp)
  then have "threads_reachable 2 0 (?s 1 [Counted])"
    by (rule threads_reachable.step) (use thread_step.count [of "?s 0 [Spawned]" 0] in simp)
  then have "threads_reachable 2 0 (?s 1 [Serving])"
    by (rule threads_reachable.step) (use thread_step.serve [of "?s 1 [Counted]" 0] in simp)
  then have "threads_reachable 2 0 (?s 1 [Serving, Spawned])"
    by (rule threads_reachable.step) (use thread_step.spawn [of "?s 1 [Serving]"] in simp)
  then have r: "threads_reachable 2 0 (?s 2 [Serving, Counted])"
    by (rule threads_reachable.step) (use thread_step.count [of "?s 1 [Serving, Spawned]" 1] in simp)
  with threads_bounded [OF r] show ?thesis by (intro exI [of _ "?s 2 [Serving, Counted]"]) simp
qed

text \<open>With \<open>MaxConnections = 1\<close>, which the server accepts, no connection is ever served.\<close>

lemma one_connection_serves_none:
  assumes "threads_reachable 1 maxtries s"
  shows "Serving \<notin> set (threads s)"
proof
  assume "Serving \<in> set (threads s)"
  then obtain i where "i < length (threads s)" "threads s ! i = Serving" by (auto simp: in_set_conv_nth)
  then have "0 < how_many (\<lambda>t. t = Serving) (threads s)" by (intro how_many_pos)
  with threads_reachable_inv [OF assms] show False by (simp add: thread_inv_def)
qed

end
