(* ===== verification/Copy.thy ===== *)
theory Copy
  imports ServerFiles
begin

text \<open>
  copy.c and checksums.c: writing the copy of a file, with holes for blocks of zeros, and the
  comparisons that decide whether a copy is needed. A new file is its bytes and the position of
  its descriptor; what \<open>read\<close> returns is a list of blocks; a write fails if the file would become
  longer than the disk allows. The memory of the block buffer is a list of bytes that keeps what
  was in it.
\<close>

subsection \<open>The file that is written\<close>

record out_file =
  contents :: string
  pos :: nat

definition new_file :: out_file where "new_file = \<lparr>contents = [], pos = 0\<rparr>"

text \<open>Bytes between the end of the file and the position of a write read as zero.\<close>

definition pad :: "nat \<Rightarrow> string \<Rightarrow> string" where
  "pad n s = s @ replicate (n - length s) nul"

definition cf_full_write :: "nat \<Rightarrow> string \<Rightarrow> out_file \<Rightarrow> out_file option" where
  "cf_full_write space d f =
     (if space < pos f + length d then None
      else Some (f\<lparr>contents := take (pos f) (pad (pos f) (contents f)) @ d @ drop (pos f + length d) (contents f),
                   pos := pos f + length d\<rparr>))"

definition lseek_forward :: "nat \<Rightarrow> out_file \<Rightarrow> out_file" where
  "lseek_forward n f = f\<lparr>pos := pos f + n\<rparr>"

definition ftruncate :: "nat \<Rightarrow> out_file \<Rightarrow> out_file" where
  "ftruncate n f = f\<lparr>contents := take n (pad n (contents f))\<rparr>"

subsection \<open>Blocks of zeros\<close>

text \<open>
  The two loops that look for the first byte that is not zero, word by word and then byte by byte.
  They rely on the sentinel; beyond the buffer they are undefined. \<open>int\<close> has four bytes.
\<close>

function first_word :: "string \<Rightarrow> nat \<Rightarrow> nat outcome" where
  "first_word m i =
     (if length m < i + 4 then Inl (Undefined ''EmbeddedWrite: past the buffer'')
      else if take 4 (drop i m) = replicate 4 nul then first_word m (i + 4) else Inr i)"
  by pat_completeness auto

termination
  by (relation "measure (\<lambda>(m, i). length m - i)") auto

function first_byte :: "string \<Rightarrow> nat \<Rightarrow> nat outcome" where
  "first_byte m i =
     (if length m \<le> i then Inl (Undefined ''EmbeddedWrite: past the buffer'')
      else if m ! i = nul then first_byte m (i + 1) else Inr i)"
  by pat_completeness auto

termination
  by (relation "measure (\<lambda>(m, i). length m - i)") auto

declare first_word.simps [simp del] first_byte.simps [simp del]

definition sentinel :: "nat \<Rightarrow> string \<Rightarrow> string" where
  "sentinel n buf = buf[n := char_of (1 :: nat)]"

definition zero_block :: "string \<Rightarrow> nat \<Rightarrow> bool outcome" where
  "zero_block buf n_read =
     (if length buf \<le> n_read then Inl (Undefined ''EmbeddedWrite: sentinel'')
      else bind_outcome (first_word (sentinel n_read buf) 0) (\<lambda>i.
        bind_outcome (first_byte (sentinel n_read buf) i) (\<lambda>j. Inr (j + 1 > n_read))))"

text \<open>The buffer afterwards, and the file with the flag for a hole at its end unless the write fails.\<close>

definition EmbeddedWrite :: "nat \<Rightarrow> bool \<Rightarrow> string \<Rightarrow> nat \<Rightarrow> nat \<Rightarrow> out_file \<Rightarrow> bool
    \<Rightarrow> (string \<times> (out_file \<times> bool) option) outcome" where
  "EmbeddedWrite space makeholes buf towrite n_read f last_hole =
     (let buf' = (if makeholes then sentinel n_read buf else buf) in
      bind_outcome (if makeholes then zero_block buf n_read else Inr False) (\<lambda>hole.
        if hole then Inr (buf', Some (lseek_forward n_read f, True))
        else if length buf' < towrite then Inl (Undefined ''EmbeddedWrite: past the buffer'')
        else (case cf_full_write space (take towrite buf') f of
            None \<Rightarrow> Inr (buf', None)
          | Some f' \<Rightarrow> Inr (buf', Some (f', False)))))"

text \<open>A hole at the end is closed by writing a byte and cutting it off.\<close>

definition close_hole :: "nat \<Rightarrow> nat \<Rightarrow> out_file \<Rightarrow> bool \<Rightarrow> out_file option" where
  "close_hole space n_read_total f last_hole =
     (if last_hole then map_option (ftruncate n_read_total) (cf_full_write space [nul] f) else Some f)"

subsection \<open>Copying on the disk\<close>

datatype file_read = Block string | ReadErr bool

text \<open>The new file, \<open>None\<close> where it is removed, and the answer.\<close>

fun disk_loop :: "nat \<Rightarrow> bool \<Rightarrow> file_read list \<Rightarrow> string \<Rightarrow> out_file \<Rightarrow> bool \<Rightarrow> nat
    \<Rightarrow> (out_file option \<times> bool) outcome" where
  "disk_loop space makeholes [] buf f hole n_read_total =
     (case close_hole space n_read_total f hole of None \<Rightarrow> Inr (None, False) | Some f' \<Rightarrow> Inr (Some f', True))"
| "disk_loop space makeholes (ReadErr eintr # reads) buf f hole n_read_total =
     (if eintr then disk_loop space makeholes reads buf f hole n_read_total else Inr (Some f, False))"
| "disk_loop space makeholes (Block d # reads) buf f hole n_read_total =
     (if d = [] then disk_loop space makeholes [] buf f hole n_read_total
      else bind_outcome (EmbeddedWrite space makeholes (overlay d buf) (length d) (length d) f hole) (\<lambda>(buf', w).
        case w of None \<Rightarrow> Inr (None, False)
        | Some (f', hole') \<Rightarrow> disk_loop space makeholes reads buf' f' hole' (n_read_total + length d)))"

definition CopyRegDisk :: "nat \<Rightarrow> bool \<Rightarrow> file_read list option \<Rightarrow> bool \<Rightarrow> string
    \<Rightarrow> (out_file option \<times> bool) outcome" where
  "CopyRegDisk space makeholes source can_create heap =
     (case source of
        None \<Rightarrow> Inr (None, False)
      | Some reads \<Rightarrow>
          if \<not> can_create then Inr (None, False)
          else disk_loop space makeholes reads heap new_file False 0)"

text \<open>The test for holes: whatever it finds, its last statement clears the flag.\<close>

definition CheckForHoles :: "stat_info \<Rightarrow> bool \<Rightarrow> bool" where
  "CheckForHoles st makeholes =
     (let makeholes' = (if st_size st > st_blocks st * 512 then True else makeholes); makeholes'' = False in
      makeholes'')"

lemma CheckForHoles_never: "\<not> CheckForHoles st makeholes"
  by (simp add: CheckForHoles_def)

section \<open>Copies are exact\<close>

lemma first_word_finds:
  assumes "\<forall>k < i. m ! k = nul" and "i \<le> n" and "n + 4 \<le> length m" and "m ! n \<noteq> nul"
  shows "\<exists>j. first_word m i = Inr j \<and> j \<le> n \<and> (\<forall>k < j. m ! k = nul)"
  using assms
proof (induction m i rule: first_word.induct)
  case (1 m i)
  show ?case
  proof (cases "take 4 (drop i m) = replicate 4 nul")
    case True
    have word: "m ! (i + k) = nul" if "k < 4" for k
    proof -
      have "m ! (i + k) = take 4 (drop i m) ! k" using 1(3,4) that by simp
      with True that show ?thesis by simp
    qed
    have zeros: "\<forall>k < i + 4. m ! k = nul"
    proof (intro allI impI)
      fix k assume "k < i + 4"
      then show "m ! k = nul" using 1(2) word [of "k - i"] by (cases "k < i") auto
    qed
    have "i + 4 \<le> n" using zeros 1(5) by (metis not_less)
    with 1(1) zeros 1(3-5) True show ?thesis by (subst first_word.simps) auto
  next
    case False
    with 1 show ?thesis by (subst first_word.simps) auto
  qed
qed

lemma first_byte_finds:
  assumes "i \<le> n" and "\<forall>k < n. i \<le> k \<longrightarrow> m ! k = nul" and "n < length m" and "m ! n \<noteq> nul"
  shows "first_byte m i = Inr n"
  using assms
proof (induction m i rule: first_byte.induct)
  case (1 m i)
  show ?case
  proof (cases "i = n")
    case True
    with 1 show ?thesis by (subst first_byte.simps) auto
  next
    case False
    with 1 show ?thesis by (subst first_byte.simps) auto
  qed
qed

lemma least_nonzero:
  assumes "m ! n \<noteq> nul"
  shows "\<exists>p \<le> n. m ! p \<noteq> nul \<and> (\<forall>k < p. m ! k = nul)"
proof -
  let ?p = "LEAST k. m ! k \<noteq> nul"
  have "m ! ?p \<noteq> nul" "?p \<le> n" using assms by (rule LeastI, rule Least_le)
  moreover have "\<forall>k < ?p. m ! k = nul" using not_less_Least by blast
  ultimately show ?thesis by blast
qed

lemma zero_block_iff:
  assumes "n + 4 \<le> length buf"
  shows "zero_block buf n = Inr (\<forall>k < n. buf ! k = nul)"
proof -
  let ?m = "sentinel n buf"
  have n: "?m ! n \<noteq> nul" "length ?m = length buf" using assms by (auto simp: sentinel_def nul_def)
  obtain p where p: "p \<le> n" "?m ! p \<noteq> nul" "\<forall>k < p. ?m ! k = nul" using least_nonzero [OF n(1)] by blast
  obtain i where i: "first_word ?m 0 = Inr i" "i \<le> n" "\<forall>k < i. ?m ! k = nul"
    using first_word_finds [of 0 ?m n] n assms by auto
  have "i \<le> p" using i(3) p(2) by (meson not_less)
  then have "first_byte ?m i = Inr p" using first_byte_finds [of i p ?m] p n assms by auto
  moreover have "p + 1 > n \<longleftrightarrow> (\<forall>k < n. buf ! k = nul)"
  proof
    assume "p + 1 > n"
    then have "p = n" using p(1) by simp
    then show "\<forall>k < n. buf ! k = nul" using p(3) by (auto simp: sentinel_def)
  next
    assume all: "\<forall>k < n. buf ! k = nul"
    show "p + 1 > n"
    proof (rule ccontr)
      assume "\<not> p + 1 > n"
      then have "p < n" by simp
      with all p(2) show False by (auto simp: sentinel_def)
    qed
  qed
  ultimately show ?thesis using i(1) assms by (simp add: zero_block_def)
qed

text \<open>What the file holds after so many bytes: the bytes, but a hole at the end may still be missing.\<close>

definition holds :: "string \<Rightarrow> out_file \<Rightarrow> bool \<Rightarrow> bool" where
  "holds d f hole = (pos f = length d \<and> length (contents f) \<le> length d \<and> pad (length d) (contents f) = d
     \<and> (\<not> hole \<longrightarrow> contents f = d))"

lemma holds_new: "holds [] new_file False"
  by (simp add: holds_def new_file_def pad_def)

lemma holds_write:
  assumes "holds d f hole" and "length d + length e \<le> space"
  shows "\<exists>f'. cf_full_write space e f = Some f' \<and> holds (d @ e) f' False"
  using assms by (auto simp: holds_def cf_full_write_def pad_def)

lemma holds_seek: "holds d f hole \<Longrightarrow> holds (d @ replicate n nul) (lseek_forward n f) True"
proof -
  assume h: "holds d f hole"
  then have "replicate (length d + n - length (contents f)) nul
      = replicate (length d - length (contents f)) nul @ replicate n nul"
    by (simp add: holds_def flip: replicate_add)
  with h show ?thesis unfolding holds_def pad_def lseek_forward_def
    by simp
qed

lemma holds_close:
  assumes "holds d f hole" and "length d < space"
  shows "\<exists>f'. close_hole space (length d) f hole = Some f' \<and> contents f' = d"
proof (cases hole)
  case True
  obtain f' where "cf_full_write space [nul] f = Some f'" "holds (d @ [nul]) f' False"
    using holds_write [OF assms(1), of "[nul]" space] assms(2) by auto
  with True show ?thesis by (auto simp: close_hole_def ftruncate_def holds_def pad_def)
qed (use assms in \<open>auto simp: close_hole_def holds_def\<close>)

lemma EmbeddedWrite_holds:
  assumes "holds d f hole" and "length d + length e \<le> space" and "length e + 4 \<le> length buf"
    and "take (length e) buf = e"
  shows "\<exists>buf' f' hole'. EmbeddedWrite space makeholes buf (length e) (length e) f hole = Inr (buf', Some (f', hole'))
    \<and> holds (d @ e) f' hole' \<and> buf' = (if makeholes then sentinel (length e) buf else buf)"
proof -
  let ?buf = "if makeholes then sentinel (length e) buf else buf"
  have buf: "length ?buf = length buf" "take (length e) ?buf = e" using assms(4) by (auto simp: sentinel_def)
  obtain f' where w: "cf_full_write space e f = Some f'" "holds (d @ e) f' False"
    using holds_write [OF assms(1,2)] by blast
  show ?thesis
  proof (cases "makeholes \<and> (\<forall>k < length e. buf ! k = nul)")
    case True
    then have "e = replicate (length e) nul" using assms(4) by (metis nth_equalityI length_replicate nth_replicate nth_take)
    with True holds_seek [OF assms(1), of "length e"] buf(1) show ?thesis
      by (intro exI [of _ "sentinel (length e) buf"] exI [of _ "lseek_forward (length e) f"] exI [of _ True])
        (simp add: EmbeddedWrite_def zero_block_iff [OF assms(3)])
  next
    case False
    then have "(if makeholes then zero_block buf (length e) else Inr False) = Inr False"
      by (auto simp: zero_block_iff [OF assms(3)])
    with w buf assms(3) show ?thesis
      by (intro exI [of _ ?buf] exI [of _ f'] exI [of _ False]) (simp add: EmbeddedWrite_def split del: if_split)
  qed
qed

text \<open>The blocks a regular file gives, none of them empty and none longer than the buffer.\<close>

fun blocks_of :: "file_read list \<Rightarrow> string" where
  "blocks_of [] = []"
| "blocks_of (Block d # reads) = d @ blocks_of reads"
| "blocks_of (ReadErr eintr # reads) = blocks_of reads"

definition good_reads :: "nat \<Rightarrow> file_read list \<Rightarrow> bool" where
  "good_reads buf_size reads = list_all (\<lambda>r. case r of
     Block d \<Rightarrow> d \<noteq> [] \<and> length d \<le> buf_size | ReadErr eintr \<Rightarrow> eintr) reads"

lemma disk_loop_copies:
  assumes "holds d f hole" and "good_reads buf_size reads" and "length buf = buf_size + 4"
    and "length d + length (blocks_of reads) < space"
  shows "\<exists>f'. disk_loop space makeholes reads buf f hole (length d) = Inr (Some f', True)
    \<and> contents f' = d @ blocks_of reads"
  using assms
proof (induction reads arbitrary: d f hole buf rule: blocks_of.induct)
  case 1
  with holds_close [OF 1(1), of space] show ?case by auto
next
  case (2 e reads)
  then have e: "e \<noteq> []" "length e \<le> buf_size" "good_reads buf_size reads" by (auto simp: good_reads_def)
  obtain buf' f' hole' where w:
    "EmbeddedWrite space makeholes (overlay e buf) (length e) (length e) f hole = Inr (buf', Some (f', hole'))"
    "holds (d @ e) f' hole'" "buf' = (if makeholes then sentinel (length e) (overlay e buf) else overlay e buf)"
    using EmbeddedWrite_holds [OF 2(2), of e space "overlay e buf" makeholes] e 2(4,5) by (auto simp: overlay_def)
  then have "length buf' = buf_size + 4" using e 2(4) by (simp add: overlay_def sentinel_def)
  from 2(1) [OF w(2) e(3) this] 2(5) w(1) e(1) show ?case by simp
next
  case (3 eintr reads)
  then show ?case by (simp add: good_reads_def)
qed

text \<open>
  C13. A file copied on the disk has the bytes of the source, with and without the making of holes,
  however \<open>read\<close> cuts it into blocks and whatever is in the memory of the buffer.
\<close>

theorem CopyRegDisk_copies:
  assumes "good_reads buf_size reads" and "length heap = buf_size + 4" and "length (blocks_of reads) < space"
  shows "\<exists>f. CopyRegDisk space makeholes (Some reads) True heap = Inr (Some f, True) \<and> contents f = blocks_of reads"
  using disk_loop_copies [OF holds_new assms(1,2), of space makeholes] assms(3) by (simp add: CopyRegDisk_def)

theorem CopyRegDisk_copies_witness:
  "\<exists>f. CopyRegDisk 20 True (Some [Block ''ab'', ReadErr True, Block [nul, nul, nul, nul, nul]]) True ''zzzzzzzzz'' = Inr (Some f, True)
     \<and> contents f = ''ab'' @ [nul, nul, nul, nul, nul]"
  using CopyRegDisk_copies [of 5 "[Block ''ab'', ReadErr True, Block [nul, nul, nul, nul, nul]]" "''zzzzzzzzz''" 20 True]
  by (simp add: good_reads_def)

section \<open>Comparisons\<close>

text \<open>The files byte by byte: both are read in blocks of \<open>BUFSIZ\<close> bytes. True means different.\<close>

function compare_loop :: "nat \<Rightarrow> string \<Rightarrow> string \<Rightarrow> bool" where
  "compare_loop bufsiz d1 d2 =
     (if bufsiz = 0 then False
      else (let buff1 = take bufsiz d1; buff2 = take bufsiz d2 in
        if length buff1 \<noteq> length buff2 \<or> buff1 \<noteq> buff2 then True
        else if buff1 = [] then False
        else compare_loop bufsiz (drop bufsiz d1) (drop bufsiz d2)))"
  by pat_completeness auto

termination
  by (relation "measure (\<lambda>(b, d1, d2). length d1 + length d2)")
    (auto simp: neq_Nil_conv)

declare compare_loop.simps [simp del]

text \<open>
  A file that cannot be opened reads with -1; if neither can, \<open>memcmp\<close> gets the length -1. The
  comparison with a server is the parameter \<open>net\<close>.
\<close>

definition CompareBinarySums :: "nat \<Rightarrow> bool \<Rightarrow> int \<Rightarrow> int \<Rightarrow> string option \<Rightarrow> string option \<Rightarrow> bool \<Rightarrow> bool outcome" where
  "CompareBinarySums bufsiz localhost size1 size2 file1 file2 net =
     (if size1 \<noteq> size2 then Inr True
      else if \<not> localhost then Inr net
      else (case (file1, file2) of
          (Some d1, Some d2) \<Rightarrow> Inr (compare_loop bufsiz d1 d2)
        | (None, None) \<Rightarrow> Inl (Undefined ''CompareBinarySums: memcmp of -1 bytes'')
        | _ \<Rightarrow> Inr True))"

lemma compare_loop_iff: "0 < bufsiz \<Longrightarrow> compare_loop bufsiz d1 d2 \<longleftrightarrow> d1 \<noteq> d2"
proof (induction bufsiz d1 d2 rule: compare_loop.induct)
  case (1 bufsiz d1 d2)
  have split: "d1 = d2 \<longleftrightarrow> take bufsiz d1 = take bufsiz d2 \<and> drop bufsiz d1 = drop bufsiz d2"
    by (metis append_take_drop_id)
  show ?case
  proof (cases "take bufsiz d1 = take bufsiz d2")
    case True
    show ?thesis
    proof (cases "take bufsiz d1 = []")
      case empty: True
      with True 1(2) have "d1 = []" "d2 = []" by auto
      with 1(2) show ?thesis by (subst compare_loop.simps) simp
    next
      case False
      with True 1 split show ?thesis by (subst compare_loop.simps) auto
    qed
  next
    case False
    with 1(2) split show ?thesis by (subst compare_loop.simps) auto
  qed
qed

text \<open>
  C14. The comparison byte by byte on the same host says different exactly when the contents differ.
\<close>

theorem CompareBinarySums_iff:
  assumes "0 < bufsiz"
  shows "CompareBinarySums bufsiz True (int (length d1)) (int (length d2)) (Some d1) (Some d2) net = Inr (d1 \<noteq> d2)"
  using compare_loop_iff [OF assms] by (auto simp: CompareBinarySums_def)

theorem CompareBinarySums_iff_witness:
  "CompareBinarySums 2 True 3 3 (Some ''abc'') (Some ''abd'') False = Inr True"
  using CompareBinarySums_iff [of 2 "''abc''" "''abd''" False] by simp

text \<open>
  The checksums of two files on the same host: a file that cannot be opened leaves the digest array
  as it was. The arrays are static; \<open>digest1\<close> and \<open>digest2\<close> are what they hold.
\<close>

definition ChecksumFile :: "(string \<Rightarrow> string) \<Rightarrow> string option \<Rightarrow> string \<Rightarrow> string" where
  "ChecksumFile hash file digest = (case file of None \<Rightarrow> digest | Some d \<Rightarrow> overlay (hash d) digest)"

definition CompareCheckSums :: "(string \<Rightarrow> string) \<Rightarrow> nat \<Rightarrow> bool \<Rightarrow> int \<Rightarrow> int \<Rightarrow> string option \<Rightarrow> string option
    \<Rightarrow> bool \<Rightarrow> string \<Rightarrow> string \<Rightarrow> bool" where
  "CompareCheckSums hash max_size localhost size1 size2 file1 file2 net digest1 digest2 =
     (if size1 \<noteq> size2 then True
      else if \<not> localhost then net
      else take max_size (ChecksumFile hash file1 digest1) \<noteq> take max_size (ChecksumFile hash file2 digest2))"

text \<open>Two files that cannot be opened, or one that cannot and was compared before, count as the same.\<close>

lemma CompareCheckSums_unreadable:
  "\<not> CompareCheckSums hash n True s s None None net digest digest"
  "\<not> CompareCheckSums hash n True s s (Some d) None net digest (overlay (hash d) digest)"
  by (simp_all add: CompareCheckSums_def ChecksumFile_def)

definition CF_DIGEST_TYPES :: "(string \<times> char) list" where
  "CF_DIGEST_TYPES = [(''md5'', CHR ''m''), (''sha224'', CHR ''c''), (''sha256'', CHR ''C''), (''sha384'', CHR ''h''),
     (''sha512'', CHR ''H''), (''sha1'', CHR ''S''), (''sha'', CHR ''s''), (''best'', CHR ''b'')]"

definition ChecksumType :: "bool \<Rightarrow> string \<Rightarrow> char outcome" where
  "ChecksumType parsing typestr = (case map_of CF_DIGEST_TYPES typestr of
       Some t \<Rightarrow> Inr t
     | None \<Rightarrow> if parsing then Inl (FatalErr ''Should be md5,sha,sha1,sha224,sha256,sha348,sha512'') else Inr CHR ''x'')"

definition ChecksumName :: "char \<Rightarrow> string option" where
  "ChecksumName t = map_option fst (find (\<lambda>(n, c). c = t) CF_DIGEST_TYPES)"

lemma ChecksumName_ChecksumType:
  assumes "ChecksumType True n = Inr t"
  shows "ChecksumName t = Some n"
  using assms unfolding ChecksumType_def ChecksumName_def CF_DIGEST_TYPES_def
  by (auto split: option.splits if_splits)

text \<open>\<open>ChecksumsMatch\<close> compares as many bytes as the kind of digest has.\<close>

definition ChecksumsMatch :: "nat \<Rightarrow> string \<Rightarrow> string \<Rightarrow> bool" where
  "ChecksumsMatch n digest1 digest2 = list_all (\<lambda>i. digest1 ! i = digest2 ! i) [0..<n]"

lemma ChecksumsMatch_iff:
  assumes "n \<le> length digest1" and "n \<le> length digest2"
  shows "ChecksumsMatch n digest1 digest2 \<longleftrightarrow> take n digest1 = take n digest2"
  using assms by (auto simp: ChecksumsMatch_def list_all_iff list_eq_iff_nth_eq)

end
