(* ===== verification/Client.thy ===== *)
theory Client
  imports Threads Copy
begin

text \<open>
  client.c and the replies of proto.c: what the agent asks of a server and what it makes of the
  answers: file attributes (\<open>cf_rstat\<close>, with the cache of attributes), directories
  (\<open>cf_ropendir\<close>), checksums (\<open>CompareMD5Net\<close>) and contents (\<open>CopyRegNet\<close>). The requests sent are
  a list of messages, what the server will send is a list of segments. \<open>stale\<close> stands for the bytes
  that arrays which the code does not clear hold.
\<close>

subsection \<open>State\<close>

record cfstat =
  cf_filename :: string
  cf_server :: string
  cf_type :: int
  cf_lmode :: nat
  cf_mode :: nat
  cf_uid :: int
  cf_gid :: int
  cf_size :: int
  cf_atime :: int
  cf_mtime :: int
  cf_ctime :: int
  cf_makeholes :: int
  cf_readlink :: "string option"
  cf_failed :: bool
  cf_nlink :: int
  cf_ino :: int
  cf_dev :: int

record image =
  im_server :: string
  im_encrypt :: bool
  im_compat :: bool
  im_makeholes :: int
  im_cache :: "cfstat list"

record client =
  cl_key :: "string option"
  cl_inbox :: "segment list"
  cl_sent :: "string list"

definition request :: "string \<Rightarrow> client \<Rightarrow> client outcome" where
  "request bytes c =
     (if length bytes > CF_BUFSIZE - CF_INBAND_OFFSET
      then Inl (FatalErr ''SendTransaction software failure'')
      else Inr (c\<lparr>cl_sent := cl_sent c @ [bytes]\<rparr>))"

definition reply :: "client \<Rightarrow> reception \<times> client" where
  "reply c = (case ReceiveTransaction (cl_inbox c) of (r, segs) \<Rightarrow> (r, c\<lparr>cl_inbox := segs\<rparr>))"

subsection \<open>Kinds of reply\<close>

definition BadProtoReply :: "string \<Rightarrow> bool" where
  "BadProtoReply buf = strncmp_eq buf ''BAD:'' 4"

definition OKProtoReply :: "string \<Rightarrow> bool" where
  "OKProtoReply buf = strncmp_eq buf ''OK:'' 3"

definition FailedProtoReply :: "string \<Rightarrow> bool" where
  "FailedProtoReply buf = strncmp_eq buf CF_FAILEDSTR (length CF_FAILEDSTR)"

text \<open>
  An encrypted request: the header is written into an array that is not cleared, the cipher text at
  a fixed offset.
\<close>

definition secure_request :: "sys_env \<Rightarrow> string \<Rightarrow> string option \<Rightarrow> string \<Rightarrow> string \<Rightarrow> string" where
  "secure_request sys stale key word plain =
     (let cipher = encrypt_string sys key plain;
          text' = word @ '' '' @ show_nat (length cipher) @ [nul] in
      take CF_PROTO_OFFSET (overlay text' stale) @ cipher)"

subsection \<open>The cache of attributes\<close>

definition stat_of :: "cfstat \<Rightarrow> string \<Rightarrow> stat_info \<Rightarrow> stat_info" where
  "stat_of sp stattype buf = buf\<lparr>
     st_mode := (if stattype = ''link'' \<and> cf_lmode sp \<noteq> 0 then cf_lmode sp else cf_mode sp),
     st_uid := cf_uid sp, st_gid := cf_gid sp, st_size := cf_size sp, st_atime := cf_atime sp,
     st_mtime := cf_mtime sp, st_ctime := cf_ctime sp, st_ino := cf_ino sp, st_nlink := cf_nlink sp\<rparr>"

fun cached :: "string \<Rightarrow> string \<Rightarrow> cfstat list \<Rightarrow> cfstat option" where
  "cached server file [] = None"
| "cached server file (sp # sps) =
     (if server = cf_server sp \<and> file = cf_filename sp then Some sp else cached server file sps)"

text \<open>The answer is 0 if nothing is cached, -1 for a cached failure and 1 otherwise.\<close>

definition GetCachedStatData :: "string \<Rightarrow> stat_info \<Rightarrow> image \<Rightarrow> string \<Rightarrow> stat_info \<times> int" where
  "GetCachedStatData file buf ip stattype = (case cached (im_server ip) file (im_cache ip) of
       None \<Rightarrow> (buf, 0)
     | Some sp \<Rightarrow> if cf_failed sp then (buf, - 1) else (stat_of sp stattype buf, 1))"

definition CacheData :: "cfstat \<Rightarrow> image \<Rightarrow> image" where
  "CacheData sp ip = ip\<lparr>im_cache := sp # im_cache ip\<rparr>"

definition FlushClientCache :: "image \<Rightarrow> image" where
  "FlushClientCache ip = ip\<lparr>im_cache := []\<rparr>"

subsection \<open>Attributes of a file\<close>

text \<open>\<open>%5ld\<close>: white space is skipped, the sign and the digits are at most five characters.\<close>

definition scan_field :: "nat \<Rightarrow> string \<Rightarrow> (int \<times> string) option" where
  "scan_field w s = (let t = dropWhile isspace s in
     map_option (\<lambda>(v, r). (v, r @ drop w t)) (scan_long (take w t)))"

fun scan_fields :: "nat list \<Rightarrow> string \<Rightarrow> int list" where
  "scan_fields [] s = []"
| "scan_fields (w # ws) s = (case scan_field w s of None \<Rightarrow> [] | Some (v, r) \<Rightarrow> v # scan_fields ws r)"

definition stat_widths :: "nat list" where
  "stat_widths = 1 # 5 # replicate 11 14"

definition type_bits :: "int \<Rightarrow> nat" where
  "type_bits t = (if t = 0 then 0x8000 else if t = 2 then 0x4000 else if t = 5 then 0x2000
     else if t = 3 then 0x1000 else if t = 6 then 0xC000 else if t = 4 then 0x6000
     else if t = 1 then 0xA000 else 0)"

text \<open>The low bits of a number, as a type without sign keeps them, and the same with a sign.\<close>

definition low_bits :: "nat \<Rightarrow> int \<Rightarrow> int" where
  "low_bits w v = v mod 2 ^ w"

text \<open>
  The record made of the two messages: eleven of the thirteen numbers have no initial value.
\<close>

definition read_cfstat :: "string \<Rightarrow> string \<Rightarrow> string \<Rightarrow> string \<Rightarrow> cfstat outcome" where
  "read_cfstat file server line link =
     (let d = scan_fields stat_widths (drop 3 line) in
      if length d < 11 then Inl (Undefined ''cf_rstat: numbers not set'')
      else Inr \<lparr>cf_filename = file, cf_server = server, cf_type = d ! 0,
        cf_lmode = (let m = nat (low_bits 32 (d ! 2)) in if m \<noteq> 0 then or m 0xA000 else 0),
        cf_mode = or (nat (low_bits 32 (d ! 1))) (type_bits (d ! 0)),
        cf_uid = low_bits 32 (d ! 3), cf_gid = low_bits 32 (d ! 4), cf_size = d ! 5,
        cf_atime = d ! 6, cf_mtime = d ! 7, cf_ctime = d ! 8, cf_makeholes = (d ! 9 + 128) mod 256 - 128,
        cf_readlink = (if 3 < length link then Some (drop 3 link) else None), cf_failed = False,
        cf_nlink = (if 11 < length d then as_int (d ! 11) else 0), cf_ino = as_int (d ! 10),
        cf_dev = (if 12 < length d then low_bits 64 (d ! 12) else 0)\<rparr>)"

definition stat_request :: "sys_env \<Rightarrow> string \<Rightarrow> client \<Rightarrow> image \<Rightarrow> int \<Rightarrow> string \<Rightarrow> string option" where
  "stat_request sys stale c ip tloc file =
     (let text' = ''SYNCH '' @ show_int (as_int tloc) @ '' STAT '' @ file in
      if \<not> im_encrypt ip then Some (clip text')
      else if cl_key c = None then None
      else Some (secure_request sys stale (cl_key c) ''SSYNCH'' (take (CF_BUFSIZE - 2) text' @ [nul])))"

definition rstat_reply :: "string \<Rightarrow> string \<Rightarrow> client \<Rightarrow> image \<Rightarrow> string \<Rightarrow> stat_info
    \<Rightarrow> (client \<times> image \<times> stat_info \<times> int) outcome" where
  "rstat_reply file stattype c ip line buf =
     (if strstr line ''unsynchronized'' \<or> BadProtoReply line then Inr (c, ip, buf, - 1)
      else if \<not> OKProtoReply line then Inr (c, ip, buf, - 1)
      else bind_outcome (read_cfstat file (im_server ip) line []) (\<lambda>sp.
        let ip1 = ip\<lparr>im_makeholes := cf_makeholes sp\<rparr> in
        case reply c of
          (RecvFailed _, c1) \<Rightarrow> Inr (c1, ip1, buf, - 1)
        | (Received link, c1) \<Rightarrow>
            bind_outcome (read_cfstat file (im_server ip) line (until_nul link)) (\<lambda>sp'.
              Inr (c1, CacheData sp' ip1, (stat_of sp' stattype buf)\<lparr>st_dev := cf_dev sp'\<rparr>, 0))))"

definition cf_rstat :: "sys_env \<Rightarrow> string \<Rightarrow> string \<Rightarrow> string \<Rightarrow> client \<Rightarrow> image \<Rightarrow> stat_info
    \<Rightarrow> (client \<times> image \<times> stat_info \<times> int) outcome" where
  "cf_rstat sys stale file stattype c ip buf =
     (if length file > CF_BUFSIZE - 30 then Inr (c, ip, buf, - 1)
      else (case GetCachedStatData file buf ip stattype of (buf', ret) \<Rightarrow>
        if ret \<noteq> 0 then Inr (c, ip, buf', ret)
        else (case stat_request sys stale c ip (case clock sys of None \<Rightarrow> - 1 | Some t \<Rightarrow> t) file of
            None \<Rightarrow> Inr (c, ip, buf, - 1)
          | Some bytes \<Rightarrow> bind_outcome (request bytes c) (\<lambda>c1. case reply c1 of
                (RecvFailed _, c2) \<Rightarrow> Inr (c2, ip, buf, - 1)
              | (Received line, c2) \<Rightarrow> rstat_reply file stattype c2 ip (until_nul line) buf))))"

subsection \<open>Directories\<close>

text \<open>The names in the memory of the buffer, and whether the end of the listing was among them.\<close>

function unpack_names :: "string \<Rightarrow> (string list \<times> bool) outcome" where
  "unpack_names m =
     (case m of
        [] \<Rightarrow> Inl (Undefined ''cf_ropendir: past the buffer'')
      | c # _ \<Rightarrow>
          if c = nul then Inr ([], False)
          else if strncmp_eq (until_nul m) CFD_TERMINATOR (length CFD_TERMINATOR) then Inr ([], True)
          else (let name = until_nul m in
            bind_outcome (unpack_names (drop (length name + 1) m)) (\<lambda>(names, finished).
              Inr (name # names, finished))))"
  by pat_completeness auto

termination
  by (relation "measure length") auto

declare unpack_names.simps [simp del]

lemma reply_size:
  "reply c = (r, c1) \<Longrightarrow> inbox_size (cl_inbox c1) \<le> inbox_size (cl_inbox c)"
  "reply c = (Received m, c1) \<Longrightarrow> inbox_size (cl_inbox c1) + length m \<le> inbox_size (cl_inbox c)"
  "reply c = (RecvFailed True, c1) \<Longrightarrow> inbox_size (cl_inbox c1) < inbox_size (cl_inbox c)"
  using ReceiveTransaction_size [of "cl_inbox c"] ReceiveTransaction_interrupted [of "cl_inbox c"]
  by (auto simp: reply_def split: prod.splits)

lemma reply_smaller: "reply c = (Received m, c1) \<Longrightarrow> m \<noteq> [] \<Longrightarrow> inbox_size (cl_inbox c1) < inbox_size (cl_inbox c)"
  using reply_size(2) [of c m c1] by (cases m) auto

text \<open>
  The packets of a listing. \<open>buffer\<close> is the memory a packet is received into; a connection that is
  closed ends the list like the mark at its end.
\<close>

function read_listing :: "sys_env \<Rightarrow> bool \<Rightarrow> string \<Rightarrow> item list \<Rightarrow> client \<Rightarrow> (client \<times> item list option) outcome" where
  "read_listing sys decrypt buffer names c =
     (case reply c of
        (RecvFailed eintr, c1) \<Rightarrow>
          if eintr then read_listing sys decrypt buffer names c1 else Inr (c1, None)
      | (Received m, c1) \<Rightarrow>
          if m = [] then Inr (c1, Some names)
          else (let received = overlay (m @ [nul]) buffer;
                    plain = (if decrypt then overlay (decrypt_string sys (cl_key c1) m) received else received) in
            if FailedProtoReply (until_nul plain) \<or> BadProtoReply (until_nul plain) then Inr (c1, None)
            else bind_outcome (unpack_names plain) (\<lambda>(ns, finished).
              let names' = foldl (\<lambda>l n. appended l n None) names ns in
              if finished then Inr (c1, Some names') else read_listing sys decrypt plain names' c1)))"
  by pat_completeness auto

termination
  by (relation "measure (\<lambda>(sys, d, buffer, names, c). inbox_size (cl_inbox c))")
    (auto dest: reply_smaller [OF sym] reply_size(3) [OF sym])

declare read_listing.simps [simp del]

definition listing_request :: "sys_env \<Rightarrow> string \<Rightarrow> client \<Rightarrow> bool \<Rightarrow> string \<Rightarrow> string option" where
  "listing_request sys stale c secure dirname =
     (let text' = clip (''OPENDIR '' @ dirname) in
      if \<not> secure then Some text'
      else if cl_key c = None then None
      else Some (secure_request sys stale (cl_key c) ''SOPENDIR'' (text' @ [nul])))"

definition cf_ropendir :: "sys_env \<Rightarrow> bool \<Rightarrow> string \<Rightarrow> string \<Rightarrow> client \<Rightarrow> image \<Rightarrow> (client \<times> item list option) outcome" where
  "cf_ropendir sys FULLENCRYPT stale dirname c ip =
     (let secure = im_encrypt ip \<and> FULLENCRYPT in
      if length dirname > CF_BUFSIZE - 20 then Inr (c, None)
      else (case listing_request sys stale c secure dirname of
          None \<Rightarrow> Inr (c, None)
        | Some bytes \<Rightarrow> bind_outcome (request bytes c) (read_listing sys secure stale [])))"

subsection \<open>Checksums\<close>

text \<open>The digest stands two bytes behind the text; the second of them is not set.\<close>

definition md5_message :: "string \<Rightarrow> string \<Rightarrow> string \<Rightarrow> string outcome" where
  "md5_message stale file1 digest =
     (let text' = clip (''MD5 '' @ file1) in
      if CF_BUFSIZE < length text' + CF_SMALL_OFFSET + CF_MD5_LEN then Inl (Undefined ''CompareMD5Net: sendbuffer'')
      else Inr (take (length text' + CF_SMALL_OFFSET) (overlay (text' @ [nul]) stale) @ take CF_MD5_LEN digest))"

definition CompareMD5Net :: "sys_env \<Rightarrow> (string \<Rightarrow> string) \<Rightarrow> string \<Rightarrow> string \<Rightarrow> string \<Rightarrow> string option
    \<Rightarrow> client \<Rightarrow> image \<Rightarrow> (client \<times> bool) outcome" where
  "CompareMD5Net sys hash digest stale file1 file2 c ip =
     bind_outcome (md5_message stale file1 (ChecksumFile hash file2 digest)) (\<lambda>text'.
       let bytes = (if im_encrypt ip then secure_request sys stale (cl_key c) ''SMD5'' text' else text') in
       bind_outcome (request bytes c) (\<lambda>c1. case reply c1 of
           (RecvFailed _, c2) \<Rightarrow> Inr (c2, False)
         | (Received m, c2) \<Rightarrow> Inr (c2, until_nul m = ''CFD_TRUE'')))"

subsection \<open>Contents\<close>

record net_copy =
  nc_space :: nat
  nc_makeholes :: bool
  nc_compat :: bool
  nc_size :: nat
  nc_block :: nat

definition cfchangedstr :: string where
  "cfchangedstr = ''BAD: File changed while copying''"

text \<open>\<open>FlushToEnd\<close> receives so many times one byte and looks at no answer.\<close>

fun FlushToEnd :: "nat \<Rightarrow> segment list \<Rightarrow> segment list" where
  "FlushToEnd 0 segs = segs"
| "FlushToEnd (Suc n) [] = []"
| "FlushToEnd (Suc n) (NetErr e # segs) = FlushToEnd n segs"
| "FlushToEnd (Suc n) (Data [] # segs) = FlushToEnd (Suc n) segs"
| "FlushToEnd (Suc n) (Data [b] # segs) = FlushToEnd n segs"
| "FlushToEnd (Suc n) (Data (b # b' # d) # segs) = FlushToEnd n (Data (b' # d) # segs)"

text \<open>How much to ask for, and how much to write.\<close>

definition block_sizes :: "net_copy \<Rightarrow> nat \<Rightarrow> nat \<times> nat" where
  "block_sizes nc n_read_total =
     (if (nc_size nc - n_read_total) div nc_block nc > 0 then (nc_block nc, nc_block nc)
      else if nc_size nc \<noteq> 0 then
        (if nc_compat nc then nc_block nc else nc_size nc - n_read_total, nc_size nc - n_read_total)
      else (0, 0))"

text \<open>What the tests for messages instead of contents find in the buffer.\<close>

definition refusal :: "string \<Rightarrow> nat \<Rightarrow> bool" where
  "refusal buf n_read_total = (n_read_total = 0 \<and> take (length CF_FAILEDSTR) buf = CF_FAILEDSTR)"

definition file_changed :: "string \<Rightarrow> bool" where
  "file_changed buf = (take (length cfchangedstr) buf = cfchangedstr)"

definition cleartext_refusal :: "string \<Rightarrow> bool" where
  "cleartext_refusal buf =
     ((case until_nul buf of [] \<Rightarrow> False | c # r \<Rightarrow> c = CHR ''t'' \<and> as_int (scan_long_or (- 1) r) > 0)
      \<and> take 5 (drop CF_INBAND_OFFSET buf) = ''BAD: '')"

definition copy_end :: "net_copy \<Rightarrow> nat \<Rightarrow> out_file \<Rightarrow> bool \<Rightarrow> segment list \<Rightarrow> (out_file option \<times> bool \<times> segment list) outcome" where
  "copy_end nc n_read_total f hole segs = (case close_hole (nc_space nc) n_read_total f hole of
       None \<Rightarrow> Inr (None, False, FlushToEnd (nc_size nc - n_read_total) segs)
     | Some f' \<Rightarrow> Inr (Some f', True, segs))"

text \<open>
  The loop for a copy that is not encrypted: the new file (\<open>None\<close> if it was removed), the answer and
  the segments that are left. The bytes written are those of the buffer, whether as many have come
  in or not. A receive that fails leaves the buffer as it was.
\<close>

function plain_loop :: "net_copy \<Rightarrow> string \<Rightarrow> out_file \<Rightarrow> bool \<Rightarrow> nat \<Rightarrow> segment list
    \<Rightarrow> (out_file option \<times> bool \<times> segment list) outcome" where
  "plain_loop nc buf f hole n_read_total segs =
     (case block_sizes nc n_read_total of (toget, towrite) \<Rightarrow>
      case RecvSocketStream toget segs of
        (RecvFailed eintr, segs1) \<Rightarrow>
          if eintr then plain_loop nc buf f hole n_read_total segs1 else Inr (Some f, False, segs1)
      | (Received m, segs1) \<Rightarrow>
          (let buf1 = overlay (m @ [nul]) buf;
               flushed = snd (RecvSocketStream (nc_block nc - length m) segs1) in
           if refusal buf1 n_read_total \<or> file_changed buf1 then Inr (Some f, False, flushed)
           else if cleartext_refusal buf1 then Inr (Some f, False, segs1)
           else if m = [] then copy_end nc n_read_total f hole segs1
           else if length m = nc_size nc \<and> n_read_total = 0 \<and> strncmp_eq (until_nul buf1) CF_FAILEDSTR (nc_size nc)
           then Inr (Some f, False, segs1)
           else bind_outcome (EmbeddedWrite (nc_space nc) (nc_makeholes nc) buf1 towrite (length m) f hole) (\<lambda>(buf2, w).
             case w of
               None \<Rightarrow> Inr (None, False, FlushToEnd (nc_size nc - (n_read_total + towrite)) segs1)
             | Some (f', hole') \<Rightarrow>
                 if n_read_total + towrite \<ge> nc_size nc then copy_end nc (n_read_total + towrite) f' hole' segs1
                 else plain_loop nc buf2 f' hole' (n_read_total + towrite) segs1)))"
  by pat_completeness auto

termination
  by (relation "measure (\<lambda>(nc, buf, f, hole, n, segs). inbox_size segs)")
    (auto dest: RecvSocketStream_smaller [OF sym] RecvSocketStream_interrupted [OF sym])

declare plain_loop.simps [simp del]

text \<open>
  The encrypted copy: \<open>EVP_DecryptUpdate\<close> and \<open>EVP_DecryptFinal\<close> over a state of type \<open>'c\<close> are
  parameters. Whether more is to come is the status in the header of a transaction. The last piece
  is written with the count of the piece before it.
\<close>

record 'c cipher =
  decrypt_update :: "'c \<Rightarrow> string \<Rightarrow> (string \<times> 'c) option"
  decrypt_final :: "'c \<Rightarrow> string option"

definition more_to_come :: "segment list \<Rightarrow> bool" where
  "more_to_come segs = (case RecvSocketStream CF_INBAND_OFFSET segs of
       (Received (status # _), _) \<Rightarrow> status = CHR ''m''
     | _ \<Rightarrow> False)"

definition secure_end :: "net_copy \<Rightarrow> 'c cipher \<Rightarrow> 'c \<Rightarrow> string \<Rightarrow> out_file \<Rightarrow> bool \<Rightarrow> nat \<Rightarrow> nat \<Rightarrow> segment list
    \<Rightarrow> (out_file option \<times> bool \<times> segment list) outcome" where
  "secure_end nc ci ctx buf f hole n_read n_read_total segs = (case decrypt_final ci ctx of
       None \<Rightarrow> Inr (Some f, False, segs)
     | Some p \<Rightarrow>
         bind_outcome (EmbeddedWrite (nc_space nc) (nc_makeholes nc) (overlay p buf) (length p) n_read f hole) (\<lambda>(_, w).
           case w of
             None \<Rightarrow> Inr (None, False, FlushToEnd (nc_size nc - n_read_total) segs)
           | Some (f', hole') \<Rightarrow> copy_end nc n_read_total f' hole' segs))"

lemma more_to_come_size:
  assumes "more_to_come segs" and "ReceiveTransaction segs = (r, segs')"
  shows "inbox_size segs' < inbox_size segs"
proof -
  obtain status m segs1 where first: "RecvSocketStream CF_INBAND_OFFSET segs = (Received (status # m), segs1)"
    using assms(1) by (auto simp: more_to_come_def split: prod.splits reception.splits list.splits)
  note less = RecvSocketStream_smaller [OF this]
  from first assms(2) show ?thesis
    using RecvSocketStream_size(1) [of _ segs1 r segs'] less
    by (auto simp: ReceiveTransaction_def split: if_splits intro: le_less_trans)
qed

function secure_loop :: "net_copy \<Rightarrow> 'c cipher \<Rightarrow> bool \<Rightarrow> 'c \<Rightarrow> string \<Rightarrow> out_file \<Rightarrow> bool \<Rightarrow> nat \<Rightarrow> nat \<Rightarrow> segment list
    \<Rightarrow> (out_file option \<times> bool \<times> segment list) outcome" where
  "secure_loop nc ci pending ctx buf f hole n_read n_read_total segs =
     (if \<not> pending then secure_end nc ci ctx buf f hole n_read n_read_total segs
      else (case ReceiveTransaction segs of
          (RecvFailed _, segs1) \<Rightarrow> Inr (Some f, False, segs1)
        | (Received m, segs1) \<Rightarrow>
            (let buf1 = overlay (m @ [nul]) buf in
             if refusal buf1 n_read_total then Inr (Some f, False, segs1)
             else if file_changed buf1
             then Inr (Some f, False, snd (RecvSocketStream (nc_block nc - n_read) segs1))
             else if cleartext_refusal buf1 then Inr (Some f, False, segs1)
             else (case decrypt_update ci ctx m of
                 None \<Rightarrow> Inr (Some f, False, segs1)
               | Some (p, ctx') \<Rightarrow>
                   bind_outcome (EmbeddedWrite (nc_space nc) (nc_makeholes nc) (overlay p buf1) (length p) (length p) f hole) (\<lambda>(buf2, w).
                     case w of
                       None \<Rightarrow> Inr (None, False, FlushToEnd (nc_size nc - (n_read_total + length p)) segs1)
                     | Some (f', hole') \<Rightarrow>
                         secure_loop nc ci (more_to_come segs) ctx' buf2 f' hole' (length p) (n_read_total + length p) segs1)))))"
  by pat_completeness auto

termination
  by (relation "measures [\<lambda>(nc, ci, pending, ctx, buf, f, hole, n, t, segs). inbox_size segs,
      \<lambda>(nc, ci, pending, ctx, buf, f, hole, n, t, segs). if pending then 1 else 0]")
    (auto dest: more_to_come_size [OF _ sym] ReceiveTransaction_size(1) [OF sym] simp: le_less)

declare secure_loop.simps [simp del]

text \<open>
  \<open>CopyRegNet\<close>: \<open>blksize\<close> is \<open>ST_BLKSIZE\<close>, \<open>heap\<close> what the block buffer holds, \<open>ctx\<close> the state that
  \<open>EVP_DecryptInit\<close> makes of the session key. Two formats that pad the numbers with spaces are
  \<open>width4\<close>.
\<close>

definition width4 :: "nat \<Rightarrow> string" where
  "width4 n = replicate (4 - length (show_nat n)) CHR '' '' @ show_nat n"

definition copy_request :: "sys_env \<Rightarrow> string \<Rightarrow> client \<Rightarrow> image \<Rightarrow> nat \<Rightarrow> string \<Rightarrow> string" where
  "copy_request sys stale c ip buf_size source =
     (if im_encrypt ip then
        (let plain = take (CF_BUFSIZE - CF_PROTO_OFFSET - 1) (''GET dummykey '' @ source) @ [nul];
             cipher = encrypt_string sys (cl_key c) plain;
             text' = ''SGET '' @ width4 (length cipher) @ '' '' @ width4 buf_size @ [nul] in
         take CF_PROTO_OFFSET (overlay text' stale) @ cipher)
      else clip (''GET '' @ show_nat buf_size @ '' '' @ source))"

definition CopyRegNet :: "sys_env \<Rightarrow> 'c cipher \<Rightarrow> (string option \<Rightarrow> 'c) \<Rightarrow> string \<Rightarrow> string \<Rightarrow> nat \<Rightarrow> nat \<Rightarrow> bool
    \<Rightarrow> string \<Rightarrow> string \<Rightarrow> nat \<Rightarrow> client \<Rightarrow> image \<Rightarrow> (client \<times> out_file option \<times> bool) outcome" where
  "CopyRegNet sys ci init stale heap space blksize can_create source new size' c ip =
     (let buf_size = max blksize 2048;
          nc = \<lparr>nc_space = space, nc_makeholes = (im_makeholes ip \<noteq> 0), nc_compat = im_compat ip,
                nc_size = size', nc_block = buf_size\<rparr> in
      if length new > CF_BUFSIZE - 20 \<or> \<not> can_create then Inr (c, None, False)
      else bind_outcome (request (copy_request sys stale c ip buf_size source) c) (\<lambda>c1.
        bind_outcome
          (if im_encrypt ip then secure_loop nc ci True (init (cl_key c)) heap new_file False 0 0 (cl_inbox c1)
           else plain_loop nc heap new_file False 0 (cl_inbox c1))
          (\<lambda>(f, ok, segs). Inr (c1\<lparr>cl_inbox := segs\<rparr>, f, ok))))"

end
