(* ===== verification/Remote.thy ===== *)
theory Remote
  imports Client
begin

text \<open>
  The agent and the server together: what \<open>cf_rstat\<close>, \<open>cf_ropendir\<close>, \<open>CompareMD5Net\<close> and
  \<open>CopyRegNet\<close> make of the answers that the operations of cfservd.c send.
\<close>

section \<open>Attributes\<close>

subsection \<open>Numbers read back\<close>

text \<open>A number that fits a field of so many characters and a \<open>long\<close>.\<close>

definition fits :: "nat \<Rightarrow> int \<Rightarrow> bool" where
  "fits w v = (length (show_int v) \<le> w \<and> - (2 ^ 63) \<le> v \<and> v < 2 ^ 63)"

lemma show_nat_hd: "\<exists>d ds. show_nat n = d # ds \<and> isdigit d"
  using show_nat_digits [of n] show_nat_nonempty [of n] by (cases "show_nat n") auto

lemma scan_long_show_int:
  assumes "- (2 ^ 63) \<le> v" and "v < 2 ^ 63" and "r = [] \<or> \<not> isdigit (hd r)"
  shows "scan_long (show_int v @ r) = Some (v, r)"
proof (cases "v < 0")
  case True
  then have "scan_int (show_int v @ r) = Some (v, r)"
    using scan_unsigned_show [OF assms(3), of "nat (- v)"] by (simp add: show_int_def scan_int_def isspace_def)
  with assms(1,2) show ?thesis by (simp add: scan_long_def long_clip_def)
next
  case False
  then have "scan_int (show_int v @ r) = Some (v, r)"
    using scan_int_show [OF assms(3), of "nat v"] by (simp add: show_int_def)
  with assms(1,2) show ?thesis by (simp add: scan_long_def long_clip_def)
qed

lemma show_int_hd: "\<exists>d ds. show_int v = d # ds \<and> \<not> isspace d"
  using show_nat_hd [of "nat (- v)"] show_nat_hd [of "nat v"]
  by (auto simp: show_int_def isspace_def isdigit_def)

lemma scan_field_show:
  assumes "fits w v" and "r = [] \<or> hd r = CHR '' ''" and "set pre \<subseteq> {CHR '' ''}"
  shows "scan_field w (pre @ show_int v @ r) = Some (v, r)"
proof -
  have "dropWhile isspace (pre @ show_int v @ r) = show_int v @ r"
    using assms(3) show_int_hd [of v] by (induction pre) (auto simp: isspace_def)
  moreover have "take w (show_int v @ r) = show_int v @ take (w - length (show_int v)) r"
    "drop w (show_int v @ r) = drop (w - length (show_int v)) r"
    using assms(1) by (simp_all add: fits_def)
  moreover have "scan_long (show_int v @ take (w - length (show_int v)) r) = Some (v, take (w - length (show_int v)) r)"
    using assms(1,2) by (intro scan_long_show_int) (cases r; auto simp: fits_def isdigit_def take_Cons')+
  ultimately show ?thesis by (simp add: scan_field_def)
qed

lemma scan_fields_join:
  assumes "list_all2 fits ws vs" and "set pre \<subseteq> {CHR '' ''}"
  shows "scan_fields ws (pre @ join_ints vs) = vs"
  using assms
proof (induction ws vs arbitrary: pre rule: list_all2_induct)
  case Nil
  then show ?case by simp
next
  case (Cons w ws v vs)
  show ?case
  proof (cases vs)
    case Nil
    with Cons.hyps scan_field_show [of w v "[]" pre] Cons.prems show ?thesis by (simp add: join_ints_def)
  next
    case (Cons v' vs')
    then have "join_ints (v # vs) = show_int v @ '' '' @ join_ints vs" by (simp add: join_ints_def)
    with Cons.hyps(1) Cons.IH [of "'' ''"] scan_field_show [of w v "'' '' @ join_ints vs" pre] Cons.prems
    show ?thesis by simp
  qed
qed

lemma fits_digits:
  assumes "\<bar>v\<bar> < 10 ^ Suc k" and "k + 2 \<le> w" and "k \<le> 15"
  shows "fits w v"
proof -
  have "(10 :: int) ^ Suc k \<le> 10 ^ 16" using assms(3) by (intro power_increasing) auto
  then have "\<bar>v\<bar> < 10 ^ 16" using assms(1) by linarith
  moreover have "length (show_nat (nat \<bar>v\<bar>)) \<le> Suc k" using assms(1)
    by (intro length_show_nat) (simp add: nat_less_iff)
  ultimately show ?thesis using assms(2) by (auto simp: fits_def show_int_def)
qed

lemma fits_nonneg:
  assumes "0 \<le> v" and "v < 10 ^ Suc k" and "k < w" and "k \<le> 15"
  shows "fits w v"
proof -
  have "(10 :: int) ^ Suc k \<le> 10 ^ 16" using assms(4) by (intro power_increasing) auto
  then have "v < 10 ^ 16" using assms(2) by linarith
  moreover have "length (show_nat (nat v)) \<le> Suc k" using assms(1,2)
    by (intro length_show_nat) (simp add: nat_less_iff)
  ultimately show ?thesis using assms(1,3) by (auto simp: fits_def show_int_def)
qed

lemma as_int_range: "- (2 ^ 31) \<le> as_int v" "as_int v < 2 ^ 31"
  by (auto simp: as_int_def pos_mod_bound)

lemma fits_as_int: "fits 14 (as_int v)"
  using as_int_range [of v] by (intro fits_digits [of _ 9]) auto

lemma as_int_id: "- (2 ^ 31) \<le> v \<Longrightarrow> v < 2 ^ 31 \<Longrightarrow> as_int v = v"
  by (simp add: as_int_def)

lemma low_bits_as_int: "0 \<le> v \<Longrightarrow> v < 2 ^ 32 \<Longrightarrow> low_bits 32 (as_int v) = v"
  by (simp add: low_bits_def as_int_def mod_diff_left_eq)

subsection \<open>The attributes of a file\<close>

text \<open>Numbers the fields of the message have room for.\<close>

definition int_range :: "int \<Rightarrow> bool" where
  "int_range v = (- (2 ^ 31) \<le> v \<and> v < 2 ^ 31)"

definition portable :: "stat_info \<Rightarrow> bool" where
  "portable st = (0 \<le> st_uid st \<and> st_uid st < 2 ^ 32 \<and> 0 \<le> st_gid st \<and> st_gid st < 2 ^ 32
     \<and> 0 \<le> st_size st \<and> st_size st < 10 ^ 14 \<and> int_range (st_atime st) \<and> int_range (st_mtime st)
     \<and> int_range (st_ctime st) \<and> int_range (st_ino st) \<and> int_range (st_nlink st)
     \<and> 0 \<le> st_dev st \<and> st_dev st < 2 ^ 31)"

definition same_attributes :: "stat_info \<Rightarrow> stat_info \<Rightarrow> bool" where
  "same_attributes st st' = (st_mode st' = and (st_mode st) 0xFFFF \<and> st_uid st' = st_uid st \<and> st_gid st' = st_gid st
     \<and> st_size st' = st_size st \<and> st_atime st' = st_atime st \<and> st_mtime st' = st_mtime st
     \<and> st_ctime st' = st_ctime st \<and> st_ino st' = st_ino st \<and> st_nlink st' = st_nlink st)"

lemma perm_bits: "and m 0xFFF < (4096 :: nat)"
proof -
  have "and m (mask 12) < (2 :: nat) ^ 12"
    using take_bit_nat_less_exp [of 12 m] by (simp add: take_bit_eq_mask)
  moreover have "(mask 12 :: nat) = 0xFFF" by (simp add: mask_eq_exp_minus_1)
  ultimately show ?thesis by simp
qed

lemma mode_bits: "or (and m 0xFFF) (and m 0xF000) = and m (0xFFFF :: nat)"
proof -
  have "(0xFFFF :: nat) = or 0xFFF 0xF000" by simp
  then have "bit (0xFFFF :: nat) n \<longleftrightarrow> bit (0xFFF :: nat) n \<or> bit (0xF000 :: nat) n" for n by (simp only: bit_or_iff)
  then show ?thesis by (auto intro!: bit_eqI simp: bit_and_iff bit_or_iff)
qed

text \<open>The types of file the server tells apart.\<close>

definition known_type :: "stat_info \<Rightarrow> bool" where
  "known_type st = (mode_format (st_mode st) \<in> {0x4000, 0x8000, 0xC000, 0x2000, 0x6000, 0x1000})"

lemma type_restored:
  "known_type st \<Longrightarrow> type_bits (type_number (file_type old (st_mode st))) = and (st_mode st) 0xF000"
  by (auto simp: known_type_def file_type_def type_bits_def type_number_def mode_format_def S_IFMT_def)

lemma type_number_range: "0 \<le> type_number t" "type_number t < 10"
  by (cases t; simp add: type_number_def)+

lemma stat_widths_list: "stat_widths = [1, 5, 14, 14, 14, 14, 14, 14, 14, 14, 14, 14, 14]"
  by code_simp

lemma stat_line_read:
  assumes "portable st" and "lmode \<le> 0xFFF" and "int_range nlink"
  shows "scan_fields stat_widths (drop 3 (stat_line t lmode nlink st)) =
    [type_number t, int (and (st_mode st) 0xFFF), int lmode, as_int (st_uid st), as_int (st_gid st),
     st_size st, as_int (st_atime st), as_int (st_mtime st), as_int (st_ctime st),
     (if st_size st > st_blocks st * 512 then 1 else 0), as_int (st_ino st), as_int nlink, as_int (st_dev st)]"
    (is "_ = ?vs")
proof -
  have "fits 1 (type_number t)" using type_number_range [of t] by (intro fits_nonneg [of _ 0]) auto
  moreover have "fits 5 (int (and (st_mode st) 0xFFF))"
    using perm_bits [of "st_mode st"] by (intro fits_nonneg [of _ 3]) auto
  moreover have "fits 14 (int lmode)" using assms(2) by (intro fits_nonneg [of _ 3]) auto
  moreover have "fits 14 (st_size st)" using assms(1) by (intro fits_nonneg [of _ 13]) (auto simp: portable_def)
  moreover have "fits 14 (if st_size st > st_blocks st * 512 then 1 else 0)" by (intro fits_nonneg [of _ 0]) auto
  ultimately have "list_all2 fits stat_widths ?vs"
    by (simp add: stat_widths_list fits_as_int)
  from scan_fields_join [OF this, of "'' ''"] show ?thesis by (simp add: stat_line_def)
qed

text \<open>The characters of the message: no letter but the two of the mark, and no byte 0.\<close>

lemma show_int_chars: "c \<in> set (show_int v) \<Longrightarrow> isdigit c \<or> c = CHR ''-''"
  using show_nat_digits [of "nat (- v)"] show_nat_digits [of "nat v"]
  by (auto simp: show_int_def list_all_iff split: if_splits)

lemma join_ints_chars: "c \<in> set (join_ints vs) \<Longrightarrow> isdigit c \<or> c = CHR ''-'' \<or> c = CHR '' ''"
proof -
  have "c \<in> set (join_names CHR '' '' ts) \<Longrightarrow> c = CHR '' '' \<or> (\<exists>t \<in> set ts. c \<in> set t)" for ts
    by (induction "CHR '' ''" ts rule: join_names.induct) auto
  then show "c \<in> set (join_ints vs) \<Longrightarrow> ?thesis" by (fastforce simp: join_ints_def dest: show_int_chars)
qed

lemma length_join_ints: "\<forall>v \<in> set vs. fits w v \<Longrightarrow> length (join_ints vs) \<le> length vs * Suc w"
proof -
  have "\<forall>t \<in> set ts. length t \<le> w \<Longrightarrow> length (join_names CHR '' '' ts) \<le> length ts * Suc w" for ts
    by (induction "CHR '' ''" ts rule: join_names.induct) auto
  from this [of "map show_int vs"] show "\<forall>v \<in> set vs. fits w v \<Longrightarrow> ?thesis" by (simp add: join_ints_def fits_def)
qed

lemma stat_line_plain:
  assumes "portable st" and "lmode \<le> 0xFFF"
  shows "length (stat_line t lmode nlink st) \<le> 4000"
    and "clip (stat_line t lmode nlink st) = stat_line t lmode nlink st"
    and "until_nul (stat_line t lmode nlink st) = stat_line t lmode nlink st"
    and "\<not> strstr (stat_line t lmode nlink st) ''unsynchronized''"
proof -
  let ?line = "stat_line t lmode nlink st"
  have size: "st_size st < 10 ^ 14" "0 \<le> st_size st" using assms(1) by (simp_all add: portable_def)
  have "length ?line \<le> 4 + 13 * 16"
  proof -
    have "fits 15 v" if "fits 14 v" for v using that by (simp add: fits_def)
    moreover have "fits 15 (type_number t)" using type_number_range [of t] by (intro fits_nonneg [of _ 0]) auto
    moreover have "fits 15 (int (and (st_mode st) 0xFFF))"
      using perm_bits [of "st_mode st"] by (intro fits_nonneg [of _ 3]) auto
    moreover have "fits 15 (int lmode)" using assms(2) by (intro fits_nonneg [of _ 3]) auto
    moreover have "fits 15 (st_size st)" using size by (intro fits_nonneg [of _ 13]) auto
    moreover have "fits 15 0" "fits 15 1" by (intro fits_nonneg [of _ 0]; simp)+
    ultimately show ?thesis unfolding stat_line_def
      by (auto intro!: length_join_ints [THEN order_trans] simp: fits_as_int)
  qed
  then show "length ?line \<le> 4000" and "clip ?line = ?line" by (simp_all add: clip_def CF_BUFSIZE_def)
  have chars: "c \<in> set ?line \<Longrightarrow> isdigit c \<or> c \<in> {CHR ''-'', CHR '' '', CHR ''O'', CHR ''K'', CHR '':''}" for c
    using join_ints_chars by (fastforce simp: stat_line_def)
  then have "\<forall>c \<in> set ?line. byte c \<noteq> (0 :: nat)" by (force simp: isdigit_def)
  then show "until_nul ?line = ?line" by (simp add: until_nul_def takeWhile_eq_all_conv)
  show "\<not> strstr ?line ''unsynchronized''"
  proof
    assume "strstr ?line ''unsynchronized''"
    then have "CHR ''u'' \<in> set ?line" by (auto simp: strstr_iff)
    from chars [OF this] show False by (simp add: isdigit_def)
  qed
qed

text \<open>The messages the client will receive, one after the other.\<close>

fun delivers :: "segment list \<Rightarrow> string list \<Rightarrow> bool" where
  "delivers segs [] = True"
| "delivers segs (m # ms) =
     (fst (ReceiveTransaction segs) = Received m \<and> delivers (snd (ReceiveTransaction segs)) ms)"

lemma delivers_reply:
  "delivers (cl_inbox c) (m # ms) \<Longrightarrow> \<exists>c'. reply c = (Received m, c') \<and> delivers (cl_inbox c') ms"
  by (auto simp: reply_def split: prod.splits)

text \<open>A message as \<open>SendTransaction\<close> puts it on the wire, and messages that come in one piece.\<close>

definition wire :: "string \<Rightarrow> string" where
  "wire m = (case SendTransaction (replicate CF_INBAND_OFFSET nul) m (length m) CHR ''t'' of Inr b \<Rightarrow> b | Inl _ \<Rightarrow> [])"

definition sendable :: "string \<Rightarrow> bool" where
  "sendable m = (m \<noteq> [] \<and> length m \<le> CF_BUFSIZE - CF_INBAND_OFFSET)"

lemma wire_sent: "sendable m \<Longrightarrow> SendTransaction (replicate CF_INBAND_OFFSET nul) m (length m) CHR ''t'' = Inr (wire m)"
  by (auto simp: wire_def sendable_def SendTransaction_def)

lemma status_set: "CHR ''t'' \<noteq> char_of (0 :: nat)"
  by code_simp

lemma delivers_bytes:
  assumes "no_error segs" and "bytes_of segs = concat (map wire ms) @ rest" and "list_all sendable ms"
  shows "delivers segs ms"
  using assms
proof (induction ms arbitrary: segs)
  case (Cons m ms)
  then have "\<exists>segs'. ReceiveTransaction segs = (Received m, segs') \<and> bytes_of segs' = concat (map wire ms) @ rest \<and> no_error segs'"
    using wire_sent [of m] status_set
    by (intro transaction_received [of m "CHR ''t''" "replicate CF_INBAND_OFFSET nul"]) (auto simp: sendable_def)
  with Cons.IH Cons.prems(3) show ?case by auto
qed simp

lemma delivers_wire: "list_all sendable ms \<Longrightarrow> delivers [Data (concat (map wire ms))] ms"
  by (rule delivers_bytes [of _ _ "[]"]) simp_all

lemma send_events: "send b s = Inr s' \<Longrightarrow> s_done s' = s_done s @ [Sent b]"
  by (auto dest: send_InrD)

lemma StatFile_messages:
  assumes "StatFile env file s = Inr s'" and "s_done s' = s_done s @ [Statted file, Sent m1, Sent m2]"
    and "lstat env file = Some st0" and "\<not> S_ISLNK (st_mode st0)" and "stat_file env file = Some st"
  shows "m1 = clip (stat_line (file_type cf_reg (st_mode st)) 0 (st_nlink st) st) \<and> m2 = ''OK:''"
  using assms
  by (auto simp: StatFile_def send_stat_def dest!: send_events elim!: bind_outcome_InrE split: if_splits)

lemma StatFile_sends:
  assumes "length (ReadLastNode file) \<le> CF_MAXLINKSIZE" and "lstat env file = Some st0"
    and "\<not> S_ISLNK (st_mode st0)" and "stat_file env file = Some st"
    and "length (stat_line (file_type cf_reg (st_mode st)) 0 (st_nlink st) st) \<le> 4000"
  shows "\<exists>s'. StatFile env file s = Inr s' \<and> s_done s' = s_done s
    @ [Statted file, Sent (clip (stat_line (file_type cf_reg (st_mode st)) 0 (st_nlink st) st)), Sent ''OK:'']"
  using assms
  by (simp add: StatFile_def send_stat_def send_def clip_def CF_BUFSIZE_def CF_INBAND_OFFSET_def)

lemma read_cfstat_line:
  assumes "portable st" and "known_type st"
  shows "\<exists>sp. read_cfstat file server (stat_line (file_type cf_reg (st_mode st)) 0 (st_nlink st) st) link = Inr sp
    \<and> same_attributes st (stat_of sp stattype buf) \<and> cf_dev sp = st_dev st
    \<and> cf_filename sp = file \<and> cf_server sp = server \<and> \<not> cf_failed sp"
proof -
  have ranges: "int_range (st_nlink st)" using assms(1) by (simp add: portable_def)
  note line = stat_line_read [OF assms(1) _ ranges, of 0 "file_type cf_reg (st_mode st)"]
  have small: "low_bits 32 (int (and (st_mode st) 0xFFF)) = int (and (st_mode st) 0xFFF)" "low_bits 32 0 = 0"
    using perm_bits [of "st_mode st"] by (simp_all add: low_bits_def)
  have mode: "or (and (st_mode st) 0xFFF) (type_bits (type_number (file_type cf_reg (st_mode st)))) = and (st_mode st) 0xFFFF"
    using type_restored [OF assms(2)] mode_bits by metis
  have dev: "low_bits 64 (st_dev st) = st_dev st" using assms(1) by (simp add: portable_def low_bits_def)
  show ?thesis using assms(1)
    by (simp add: read_cfstat_def line same_attributes_def stat_of_def portable_def int_range_def as_int_id
        low_bits_as_int small mode dev)
qed

lemma stat_request_sent:
  assumes "\<not> im_encrypt ip" and "length file \<le> 4000"
  shows "\<exists>bytes c1. stat_request sys stale c ip tloc file = Some bytes \<and> request bytes c = Inr c1
    \<and> cl_inbox c1 = cl_inbox c"
proof -
  have "length (show_int (as_int tloc)) \<le> 14" using fits_as_int by (simp add: fits_def)
  then have "length (clip (''SYNCH '' @ show_int (as_int tloc) @ '' STAT '' @ file)) \<le> CF_BUFSIZE - CF_INBAND_OFFSET"
    using assms(2) by (simp add: clip_def CF_BUFSIZE_def CF_INBAND_OFFSET_def)
  with assms(1) show ?thesis by (simp add: stat_request_def request_def)
qed

text \<open>
  C11. The attributes of a file that is not a link, sent by the server as text and read by the client
  within its field widths, are the attributes of the file (the mode with its type), where the
  numbers fit; and the client then has them in its cache.
\<close>

theorem cf_rstat_StatFile:
  assumes "StatFile env file s = Inr s'" and "s_done s' = s_done s @ [Statted file, Sent m1, Sent m2]"
    and "lstat env file = Some st0" and "\<not> S_ISLNK (st_mode st0)" and "stat_file env file = Some st"
    and "portable st" and "known_type st"
    and "delivers (cl_inbox c) [m1, m2]" and "cached (im_server ip) file (im_cache ip) = None"
    and "\<not> im_encrypt ip" and "length file \<le> 4000"
  shows "\<exists>c' ip' buf' b'. cf_rstat sys stale file stattype c ip buf = Inr (c', ip', buf', 0)
    \<and> same_attributes st buf' \<and> st_dev buf' = st_dev st
    \<and> GetCachedStatData file b ip' stattype = (b', 1) \<and> same_attributes st b'"
proof -
  let ?line = "stat_line (file_type cf_reg (st_mode st)) 0 (st_nlink st) st"
  note plain = stat_line_plain [OF assms(6), of 0 "file_type cf_reg (st_mode st)" "st_nlink st"]
  have m: "m1 = ?line" "m2 = ''OK:''" using StatFile_messages [OF assms(1-5)] plain(2) by simp_all
  let ?t = "case clock sys of None \<Rightarrow> - 1 | Some t \<Rightarrow> t"
  obtain bytes c1 where req: "stat_request sys stale c ip ?t file = Some bytes" "request bytes c = Inr c1"
    "cl_inbox c1 = cl_inbox c" using stat_request_sent [OF assms(10,11)] by blast
  obtain c2 where c2: "reply c1 = (Received ?line, c2)" "delivers (cl_inbox c2) [m2]"
    using delivers_reply [of c1 ?line "[m2]"] assms(8) req(3) m(1) by auto
  obtain c3 where c3: "reply c2 = (Received ''OK:'', c3)" using delivers_reply [of c2 m2 "[]"] c2(2) m(2) by auto
  have replies: "\<not> BadProtoReply ?line" "OKProtoReply ?line"
    by (simp_all add: BadProtoReply_def OKProtoReply_def strncmp_eq_def stat_line_def)
  obtain sp0 where sp0: "read_cfstat file (im_server ip) ?line [] = Inr sp0"
    using read_cfstat_line [OF assms(6,7)] by blast
  obtain sp where sp: "read_cfstat file (im_server ip) ?line (until_nul ''OK:'') = Inr sp"
    "same_attributes st (stat_of sp stattype buf)" "cf_dev sp = st_dev st"
    "cf_filename sp = file" "cf_server sp = im_server ip" "\<not> cf_failed sp"
    using read_cfstat_line [OF assms(6,7)] by blast
  have again: "same_attributes st (stat_of sp stattype b)" using sp(2) by (simp add: same_attributes_def stat_of_def)
  let ?ip1 = "CacheData sp (ip\<lparr>im_makeholes := cf_makeholes sp0\<rparr>)"
  let ?buf = "(stat_of sp stattype buf)\<lparr>st_dev := cf_dev sp\<rparr>"
  have "cf_rstat sys stale file stattype c ip buf = Inr (c3, ?ip1, ?buf, 0)"
    using assms(9,11) req(1,2) c2(1) c3 replies plain(3,4) sp0 sp(1)
    by (simp add: cf_rstat_def GetCachedStatData_def rstat_reply_def CF_BUFSIZE_def)
  moreover have "same_attributes st ?buf" using sp(2) by (simp add: same_attributes_def)
  moreover have "GetCachedStatData file b ?ip1 stattype = (stat_of sp stattype b, 1)"
    using sp(4-6) by (simp add: GetCachedStatData_def CacheData_def)
  ultimately show ?thesis using again sp(3) by (intro exI [of _ c3] exI [of _ ?ip1] exI [of _ ?buf] exI [of _ "stat_of sp stattype b"]) simp
qed

theorem cf_rstat_StatFile_witness:
  "\<forall>sys stale buf. \<exists>env st s s' c ip c' ip' buf'. st_mode st = 0x81A4 \<and> st_uid st = 4294967294 \<and> stat_file env ''/etc/motd'' = Some st
     \<and> StatFile env ''/etc/motd'' s = Inr s'
     \<and> cf_rstat sys stale ''/etc/motd'' ''file'' c ip buf = Inr (c', ip', buf', 0) \<and> same_attributes st buf'"
proof (intro allI)
  fix sys stale buf
  let ?st = "\<lparr>st_mode = 0x81A4, st_nlink = 1, st_uid = 4294967294, st_gid = 0, st_size = 1234, st_blocks = 8,
    st_atime = 1000000000, st_mtime = 1000000000, st_ctime = 1000000000, st_ino = 7, st_dev = 2049\<rparr>"
  let ?env = "\<lparr>inet_addr = \<lambda>_. 0, inet_pton6 = \<lambda>_. None, realpath = Some, lstat = \<lambda>_. Some ?st,
    stat_file = \<lambda>_. Some ?st, readlink = \<lambda>_. None\<rparr>"
  let ?s = "\<lparr>s_conn = NewConn, s_keys = \<lparr>SKIPVERIFY = [], ppkeys = Map.empty, dynamic_db = Map.empty, keys_made = 0\<rparr>,
    s_inbox = [], s_done = []\<rparr>"
  let ?ip = "\<lparr>im_server = ''server'', im_encrypt = False, im_compat = False, im_makeholes = 0, im_cache = []\<rparr>"
  let ?line = "stat_line (file_type cf_reg 0x81A4) 0 1 ?st"
  let ?c = "\<lparr>cl_key = None, cl_inbox = [Data (concat (map wire [?line, ''OK:'']))], cl_sent = []\<rparr>"
  have st: "portable ?st" "known_type ?st" "\<not> S_ISLNK 0x81A4"
    by (simp_all add: portable_def int_range_def known_type_def mode_format_def S_IFMT_def S_ISLNK_def)
  have "length (ReadLastNode ''/etc/motd'') \<le> CF_MAXLINKSIZE" by code_simp
  then obtain s' where s': "StatFile ?env ''/etc/motd'' ?s = Inr s'"
    "s_done s' = [Statted ''/etc/motd'', Sent ?line, Sent ''OK:'']"
    using StatFile_sends [of "''/etc/motd''" ?env ?st ?st ?s] stat_line_plain [OF st(1), of 0 "file_type cf_reg 0x81A4" 1] st(3)
    by auto
  have "sendable ?line" "sendable ''OK:''"
    using stat_line_plain(1) [OF st(1), of 0 "file_type cf_reg 0x81A4" 1]
    by (simp_all add: sendable_def CF_BUFSIZE_def CF_INBAND_OFFSET_def stat_line_def)
  then have inbox: "delivers (cl_inbox ?c) [?line, ''OK:'']" using delivers_wire [of "[?line, ''OK:'']"] by simp
  obtain c' ip' buf' b' where "cf_rstat sys stale ''/etc/motd'' ''file'' ?c ?ip buf = Inr (c', ip', buf', 0)" "same_attributes ?st buf'"
    using cf_rstat_StatFile [of ?env "''/etc/motd''" ?s s' ?line "''OK:''" ?st ?st ?c ?ip sys stale "''file''" buf buf] s' st inbox
    by auto
  with s'(1) show "\<exists>env st s s' c ip c' ip' buf'. st_mode st = 0x81A4 \<and> st_uid st = 4294967294 \<and> stat_file env ''/etc/motd'' = Some st
     \<and> StatFile env ''/etc/motd'' s = Inr s'
     \<and> cf_rstat sys stale ''/etc/motd'' ''file'' c ip buf = Inr (c', ip', buf', 0) \<and> same_attributes st buf'"
    by (intro exI [of _ ?env] exI [of _ ?st] exI [of _ ?s] exI [of _ s'] exI [of _ ?c] exI [of _ ?ip] exI [of _ c'] exI [of _ ip'] exI [of _ buf'])
      simp
qed

section \<open>Directories\<close>

text \<open>
  Names the protocol can carry: not empty, no byte 0, not longer than a name on disk can be, and not
  beginning like a refusal or like the mark at the end.
\<close>

definition listable :: "string \<Rightarrow> bool" where
  "listable n = (n \<noteq> [] \<and> nul \<notin> set n \<and> length n < CF_MAXLINKSIZE \<and> \<not> BadProtoReply n
     \<and> \<not> strncmp_eq n CFD_TERMINATOR (length CFD_TERMINATOR))"

definition packed :: "string list \<Rightarrow> string" where
  "packed ns = concat (map (\<lambda>n. n @ [nul]) ns)"

lemma packed_simps [simp]:
  "packed [] = []" "packed (n # ns) = n @ nul # packed ns" "packed (ns @ ms) = packed ns @ packed ms"
  by (simp_all add: packed_def)

lemma packed_eq_Nil [simp]: "packed ns = [] \<longleftrightarrow> ns = []"
  by (cases ns) auto

lemma nul_iff: "nul = c \<longleftrightarrow> byte c = (0 :: nat)"
  unfolding nul_def by (metis char_of_char of_char_of mod_0)

lemma until_nul_text: "nul \<notin> set n \<Longrightarrow> until_nul (n @ nul # r) = n"
proof -
  assume "nul \<notin> set n"
  then have "\<forall>c \<in> set n. byte c \<noteq> (0 :: nat)"
    unfolding nul_def by (metis char_of_char)
  then show ?thesis by (simp add: until_nul_def nul_def)
qed

lemma terminator_text: "nul \<notin> set CFD_TERMINATOR" "CFD_TERMINATOR \<noteq> []"
  "\<not> BadProtoReply CFD_TERMINATOR" "hd CFD_TERMINATOR \<noteq> nul"
  by code_simp+

lemma unpack_mark:
  assumes "mark = CFD_TERMINATOR"
  shows "unpack_names (mark @ nul # r) = Inr ([], True)"
proof -
  have mark: "mark \<noteq> []" "hd mark \<noteq> nul" "until_nul (mark @ nul # r) = mark"
    using terminator_text until_nul_text unfolding assms by blast+
  then have "strncmp_eq (until_nul (mark @ nul # r)) CFD_TERMINATOR (length CFD_TERMINATOR)"
    by (simp add: strncmp_eq_def assms)
  with mark(1,2) show ?thesis by (subst unpack_names.simps) (cases mark; simp)
qed

lemma unpack_packed:
  assumes "list_all listable ns"
  shows "unpack_names (packed ns @ nul # r) = Inr (ns, False)"
    and "unpack_names (packed ns @ CFD_TERMINATOR @ nul # r) = Inr (ns, True)"
  using assms
proof (induction ns)
  case Nil
  {
    case 1
    show ?case by (subst unpack_names.simps) simp
  next
    case 2
    show ?case using unpack_mark [OF refl] by simp
  }
next
  case (Cons n ns)
  {
    case 1
    then have n: "n \<noteq> []" "hd n \<noteq> nul" "\<And>r. until_nul (n @ nul # r) = n" "\<not> strncmp_eq n CFD_TERMINATOR (length CFD_TERMINATOR)"
      using until_nul_text by (auto simp: listable_def neq_Nil_conv)
    with Cons.IH(1) 1 show ?case
      by (subst unpack_names.simps) (cases n; simp)
  next
    case 2
    then have n: "n \<noteq> []" "hd n \<noteq> nul" "\<And>r. until_nul (n @ nul # r) = n" "\<not> strncmp_eq n CFD_TERMINATOR (length CFD_TERMINATOR)"
      using until_nul_text by (auto simp: listable_def neq_Nil_conv)
    with Cons.IH(2) 2 show ?case
      by (subst unpack_names.simps) (cases n; simp)
  }
qed

lemma Failed_is_Bad: "FailedProtoReply s \<Longrightarrow> BadProtoReply s"
proof -
  assume "FailedProtoReply s"
  then obtain u where "s = CF_FAILEDSTR @ u" by (auto simp: FailedProtoReply_def strncmp_eq_prefix)
  then show ?thesis by (simp add: BadProtoReply_def strncmp_eq_def CF_FAILEDSTR_def)
qed

lemma packet_no_refusal:
  assumes "list_all listable ns" and "ns \<noteq> [] \<or> (\<exists>u. r = CFD_TERMINATOR @ nul # u)"
  shows "\<not> FailedProtoReply (until_nul (packed ns @ r)) \<and> \<not> BadProtoReply (until_nul (packed ns @ r))"
proof -
  have "\<not> BadProtoReply (until_nul (packed ns @ r))"
  proof (cases ns)
    case Nil
    with assms(2) until_nul_text [OF terminator_text(1)] terminator_text(3) show ?thesis by auto
  next
    case (Cons n ns')
    with assms(1) until_nul_text [of n] show ?thesis by (simp add: listable_def)
  qed
  then show ?thesis using Failed_is_Bad by blast
qed

lemma foldl_appended: "foldl (\<lambda>l n. appended l n None) l ns = l @ map (\<lambda>n. mk_item n None) ns"
  by (induction ns arbitrary: l) (simp_all add: appended_def)

lemma read_listing_packed:
  assumes "list_all listable (acc @ ns)" and "delivers (cl_inbox c) (pack_names ns (packed acc))"
  shows "\<exists>c'. read_listing sys False buffer names c = Inr (c', Some (names @ map (\<lambda>n. mk_item n None) (acc @ ns)))"
  using assms
proof (induction ns arbitrary: acc names c buffer)
  case Nil
  let ?m = "packed acc @ CFD_TERMINATOR @ [nul, nul]"
  obtain c' where c': "reply c = (Received ?m, c')" using delivers_reply [of c ?m "[]"] Nil by auto
  obtain u where u: "overlay (?m @ [nul]) buffer = packed acc @ CFD_TERMINATOR @ nul # u" by (simp add: overlay_def)
  have "list_all listable acc" using Nil by simp
  with c' u unpack_packed(2) [of acc u] packet_no_refusal [of acc "CFD_TERMINATOR @ nul # u"] show ?case
    by (subst read_listing.simps) (auto simp: foldl_appended)
next
  case (Cons d ds)
  have d: "length d < CF_MAXLINKSIZE" "take CF_MAXLINKSIZE d = d" using Cons.prems(1) by (simp_all add: listable_def)
  show ?case
  proof (cases "length d + 1 + length (packed acc) \<ge> CF_BUFSIZE - CF_MAXLINKSIZE")
    case True
    then have acc: "acc \<noteq> []" using d(1) by (auto simp: CF_BUFSIZE_def CF_MAXLINKSIZE_def)
    let ?m = "packed acc @ [nul]"
    obtain c' where c': "reply c = (Received ?m, c')" "delivers (cl_inbox c') (pack_names ds (packed [d]))"
      using delivers_reply [of c ?m "pack_names ds (packed [d])"] Cons.prems(2) True d(2) by auto
    obtain u where u: "overlay (?m @ [nul]) buffer = packed acc @ nul # u" by (simp add: overlay_def)
    have good: "list_all listable acc" "list_all listable ([d] @ ds)" using Cons.prems(1) by simp_all
    let ?names = "names @ map (\<lambda>n. mk_item n None) acc"
    obtain c'' where "read_listing sys False (packed acc @ nul # u) ?names c'
        = Inr (c'', Some (?names @ map (\<lambda>n. mk_item n None) ([d] @ ds)))"
      using Cons.IH [OF good(2) c'(2)] by blast
    with c'(1) u acc unpack_packed(1) [OF good(1), of u] packet_no_refusal [OF good(1), of "nul # u"] show ?thesis
      by (subst read_listing.simps) (auto simp: foldl_appended)
  next
    case False
    then have "delivers (cl_inbox c) (pack_names ds (packed (acc @ [d])))" using Cons.prems(2) d(2) by simp
    from Cons.IH [OF _ this] Cons.prems(1) show ?thesis by simp
  qed
qed

lemma send_all_events: "send_all ms s = Inr s' \<Longrightarrow> s_done s' = s_done s @ map Sent ms"
  by (induction ms arbitrary: s) (auto dest!: send_events elim!: bind_outcome_InrE)

text \<open>
  C12. A directory the server lists in packets is the list of its names at the client, in their
  order, for all names that do not look like a message of the protocol.
\<close>

theorem cf_ropendir_CfOpenDirectory:
  assumes "CfOpenDirectory sys d s = Inr s'" and "d \<noteq> []" and "hd d = CHR ''/''" and "dir_entries sys d = Some ns"
    and "list_all listable ns" and "s_done s' = s_done s @ Listed d False # map Sent ms"
    and "delivers (cl_inbox c) ms" and "\<not> im_encrypt ip" and "length d \<le> CF_BUFSIZE - 20"
  shows "\<exists>c'. cf_ropendir sys' fullencrypt stale d c ip = Inr (c', Some (map (\<lambda>n. mk_item n None) ns))"
proof -
  have "map Sent ms = map Sent (pack_names ns [])"
    using assms(1-4,6) send_all_events by (fastforce simp: CfOpenDirectory_def open_directory_def)
  then have ms: "ms = pack_names ns []" by (simp add: inj_map_eq_map inj_def)
  have "length (clip (''OPENDIR '' @ d)) \<le> CF_BUFSIZE - CF_INBAND_OFFSET"
    using assms(9) by (simp add: clip_def CF_BUFSIZE_def CF_INBAND_OFFSET_def)
  then obtain c1 where c1: "request (clip (''OPENDIR '' @ d)) c = Inr c1" "cl_inbox c1 = cl_inbox c"
    by (simp add: request_def)
  obtain c' where "read_listing sys' False stale [] c1 = Inr (c', Some (map (\<lambda>n. mk_item n None) ns))"
    using read_listing_packed [of "[]" ns c1 sys' stale "[]"] assms(5,7) ms c1(2) by auto
  with c1(1) assms(8,9) show ?thesis by (simp add: cf_ropendir_def listing_request_def)
qed

theorem cf_ropendir_CfOpenDirectory_witness:
  "\<exists>sys s s' ms. CfOpenDirectory sys ''/etc'' s = Inr s' \<and> s_done s' = Listed ''/etc'' False # map Sent ms
     \<and> (\<exists>c c' ip. cf_ropendir sys False [] ''/etc'' c ip = Inr (c', Some [mk_item ''.'' None, mk_item ''..'' None, mk_item ''motd'' None]))"
proof -
  let ?ns = "[''.'', ''..'', ''motd'']"
  let ?sys = "\<lparr>clock = None, file_data = Map.empty, dir_entries = \<lambda>_. Some ?ns, encrypt_string = \<lambda>_ s. s,
    decrypt_string = \<lambda>_ s. s, checksum_changed = \<lambda>_ _. False, run_command = Map.empty, macro_value = Map.empty,
    expansion = \<lparr>VARIABLES = False, VARCH = [], VARCH2 = []\<rparr>\<rparr>"
  let ?s = "\<lparr>s_conn = NewConn, s_keys = \<lparr>SKIPVERIFY = [], ppkeys = Map.empty, dynamic_db = Map.empty, keys_made = 0\<rparr>,
    s_inbox = [], s_done = []\<rparr>"
  let ?ip = "\<lparr>im_server = ''server'', im_encrypt = False, im_compat = False, im_makeholes = 0, im_cache = []\<rparr>"
  let ?m = "packed ?ns @ CFD_TERMINATOR @ [nul, nul]"
  let ?c = "\<lparr>cl_key = None, cl_inbox = [Data (concat (map wire [?m]))], cl_sent = []\<rparr>"
  have pack: "pack_names ?ns [] = [?m]" by (simp add: CF_BUFSIZE_def CF_MAXLINKSIZE_def)
  have small: "sendable ?m" by (simp add: sendable_def CF_BUFSIZE_def CF_INBAND_OFFSET_def CFD_TERMINATOR_def)
  then obtain s' where s': "CfOpenDirectory ?sys ''/etc'' ?s = Inr s'" "s_done s' = Listed ''/etc'' False # map Sent [?m]"
    unfolding CfOpenDirectory_def open_directory_def using pack by (simp add: sendable_def send_def)
  have "list_all listable ?ns"
    by (simp add: listable_def nul_iff BadProtoReply_def CF_MAXLINKSIZE_def CFD_TERMINATOR_def strncmp_eq_def)
  moreover have "delivers (cl_inbox ?c) [?m]" using delivers_wire [of "[?m]"] small by simp
  ultimately obtain c' where "cf_ropendir ?sys False [] ''/etc'' ?c ?ip = Inr (c', Some (map (\<lambda>n. mk_item n None) ?ns))"
    using cf_ropendir_CfOpenDirectory [of ?sys "''/etc''" ?s s' ?ns "[?m]" ?c ?ip ?sys False "[]"] s'
    by (auto simp: CF_BUFSIZE_def)
  with s' show ?thesis by (intro exI [of _ ?sys] exI [of _ ?s] exI [of _ s'] exI [of _ "[?m]"] conjI exI [of _ ?c] exI [of _ c'] exI [of _ ?ip]) simp_all
qed

section \<open>Checksums\<close>

text \<open>What the server compares is the name and the digest the client put into its message.\<close>

lemma CompareLocalChecksum_md5_message:
  assumes "md5_message stale file1 digest = Inr m" and "length digest = CF_MD5_LEN" and "2 < length stale - length file1 - 4"
    and "file1 \<noteq> []" and "\<not> isspace (hd file1)" and "CHR 0x0A \<notin> set file1" and "nul \<notin> set file1"
  shows "CompareLocalChecksum sys m s =
    send (if checksum_changed sys file1 digest then ''CFD_TRUE'' else ''CFD_FALSE'') (emit (Compared file1 digest) s)"
proof -
  let ?t = "''MD5 '' @ file1"
  have t: "clip ?t = ?t" using assms(1) by (auto simp: md5_message_def clip_def CF_SMALL_OFFSET_def CF_MD5_LEN_def CF_BUFSIZE_def split: if_splits)
  obtain x where m: "m = ?t @ [nul, x] @ digest"
    using assms(1-3) t by (auto simp: md5_message_def CF_SMALL_OFFSET_def CF_MD5_LEN_def overlay_def take_Suc_conv_app_nth split: if_splits)
  have "nul \<notin> set ?t" using assms(7) by (simp add: nul_iff)
  then have line: "until_nul m = ?t" using until_nul_text [of ?t "x # digest"] m by simp
  have "line_after ''MD5'' ?t = Some file1"
    using assms(4-6) by (cases file1) (auto simp: line_after_def strncmp_eq_def isspace_def takeWhile_eq_all_conv)
  moreover have "mem_at m (length ?t + CF_SMALL_OFFSET) CF_MD5_LEN = digest"
    using assms(2) m by (simp add: mem_at_def CF_SMALL_OFFSET_def)
  ultimately show ?thesis unfolding CompareLocalChecksum_def using line by simp
qed

section \<open>Contents\<close>

lemma text_at_front:
  assumes "take (length w) (m @ x # z) = w" and "x \<notin> set w"
  shows "\<exists>u. m = w @ u"
proof -
  have "length w \<le> length m"
  proof (rule ccontr)
    assume "\<not> length w \<le> length m"
    then have "x \<in> set (take (length w) (m @ x # z))" by (simp add: take_Cons' split: nat.splits)
    with assms show False by simp
  qed
  with assms(1) have "take (length w) m = w" by simp
  then show ?thesis by (metis append_take_drop_id)
qed

lemma strstr_between:
  assumes "\<not> strstr m w" and "\<not> strstr z w" and "x \<notin> set w" and "w \<noteq> []"
  shows "\<not> strstr (m @ x # z) w"
proof
  assume "strstr (m @ x # z) w"
  then obtain u v where uv: "m @ x # z = u @ w @ v" by (auto simp: strstr_iff)
  show False
  proof (cases "length u \<le> length m")
    case True
    then obtain m' where m: "m = u @ m'" using uv
      by (metis append_eq_append_conv_if append_take_drop_id)
    with uv have "take (length w) (m' @ x # z) = w" by simp
    from text_at_front [OF this assms(3)] m assms(1) show False by (auto simp: strstr_iff)
  next
    case False
    then have "drop (Suc (length m)) (m @ x # z) = drop (Suc (length m)) u @ w @ v" using uv by simp
    with assms(2) show False by (auto simp: strstr_iff)
  qed
qed

lemma strstr_drop: "\<not> strstr z w \<Longrightarrow> \<not> strstr (drop n z) w"
  by (metis append_assoc append_take_drop_id strstr_iff)

definition bad_mark :: string where "bad_mark = ''BAD: ''"

lemma bad_mark: "nul \<notin> set bad_mark" "char_of (1 :: nat) \<notin> set bad_mark" "bad_mark \<noteq> []"
  "\<exists>u. CF_FAILEDSTR = bad_mark @ u" "\<exists>u. cfchangedstr = bad_mark @ u" "length bad_mark = 5"
  "nul \<notin> set CF_FAILEDSTR"
proof -
  show "nul \<notin> set bad_mark" "char_of (1 :: nat) \<notin> set bad_mark" "bad_mark \<noteq> []" "length bad_mark = 5"
    "nul \<notin> set CF_FAILEDSTR" by code_simp+
  show "\<exists>u. CF_FAILEDSTR = bad_mark @ u" "\<exists>u. cfchangedstr = bad_mark @ u"
    by (simp_all add: CF_FAILEDSTR_def cfchangedstr_def bad_mark_def)
qed

text \<open>
  Contents the protocol can carry in clear text: not taken for a message. A file that is the
  beginning of the message of a refusal, down to a single \<open>B\<close>, is taken for one.
\<close>

definition clean :: "string \<Rightarrow> bool" where
  "clean d = (\<not> strstr d bad_mark \<and> (d = [] \<or> take (length d) CF_FAILEDSTR \<noteq> d))"

lemma message_free:
  assumes "\<not> strstr (m @ nul # z) bad_mark"
  shows "\<not> refusal (m @ nul # z) n" and "\<not> file_changed (m @ nul # z)" and "\<not> cleartext_refusal (m @ nul # z)"
proof -
  have front: "\<not> strstr b bad_mark \<Longrightarrow> take (length w) b \<noteq> w" if w: "\<exists>u. w = bad_mark @ u" for b w
  proof
    assume "\<not> strstr b bad_mark" "take (length w) b = w"
    moreover from this(2) w obtain u where "b = bad_mark @ u @ drop (length w) b" by (metis append_assoc append_take_drop_id)
    ultimately show False by (metis append_Nil strstr_iff)
  qed
  show "\<not> refusal (m @ nul # z) n" "\<not> file_changed (m @ nul # z)"
    using front [OF bad_mark(4) assms] front [OF bad_mark(5) assms] by (auto simp: refusal_def file_changed_def)
  have "take 5 (drop CF_INBAND_OFFSET (m @ nul # z)) \<noteq> bad_mark"
    using front [of bad_mark, OF _ strstr_drop [OF assms]] bad_mark(6) by auto
  then show "\<not> cleartext_refusal (m @ nul # z)" by (auto simp: cleartext_refusal_def bad_mark_def)
qed

lemma not_prefix_of_refusal:
  assumes "clean d" and "d \<noteq> []"
  shows "\<not> strncmp_eq (until_nul (d @ nul # z)) CF_FAILEDSTR (length d)"
proof
  assume same: "strncmp_eq (until_nul (d @ nul # z)) CF_FAILEDSTR (length d)"
  show False
  proof (cases "nul \<in> set d")
    case False
    then show False using same assms until_nul_text [of d z] by (auto simp: strncmp_eq_def clean_def)
  next
    case True
    then obtain p q where d: "d = p @ nul # q" "nul \<notin> set p" by (meson split_list_first)
    then have "until_nul (d @ nul # z) = p" using until_nul_text [of p "q @ nul # z"] by simp
    with same d have p: "p = take (length d) CF_FAILEDSTR" by (simp add: strncmp_eq_def)
    have "length p < length d" using d(1) by simp
    then have "length CF_FAILEDSTR < length d" using arg_cong [OF p, of length] by (simp add: min_def split: if_splits)
    then have "p = CF_FAILEDSTR" using p by simp
    moreover obtain u where "CF_FAILEDSTR = bad_mark @ u" using bad_mark(4) by blast
    ultimately have "d = [] @ bad_mark @ u @ nul # q" using d(1) by simp
    with assms(1) show False unfolding clean_def strstr_iff by blast
  qed
qed

text \<open>The sizes of a step of the copy: as much of the rest as a block has room for.\<close>

lemma block_sizes_rest:
  assumes "nc_size nc = length g + length r" and "r \<noteq> []" and "0 < nc_block nc" and "\<not> nc_compat nc"
  shows "block_sizes nc (length g) = (min (nc_block nc) (length r), min (nc_block nc) (length r))"
  using assms by (auto simp: block_sizes_def div_greater_zero_iff min_def)

lemma clean_parts:
  assumes "clean (g @ r)"
  shows "\<not> strstr (take k r) bad_mark"
  using assms unfolding clean_def strstr_iff by (metis append_assoc append_take_drop_id)

text \<open>The memory of the buffer never comes to hold what looks like a refusal.\<close>

definition quiet :: "string \<Rightarrow> bool" where
  "quiet buf = (length buf = CF_BUFSIZE + 4 \<and> \<not> strstr buf bad_mark)"

lemma quiet_received:
  assumes "quiet buf" and "\<not> strstr m bad_mark" and "length m < CF_BUFSIZE"
  shows "overlay (m @ [nul]) buf = m @ nul # drop (length m + 1) buf"
    and "quiet (m @ nul # drop (length m + 1) buf)"
    and "quiet (sentinel (length m) (m @ nul # drop (length m + 1) buf))"
  using assms strstr_between [OF assms(2) strstr_drop _ bad_mark(3)] bad_mark(1,2)
  by (auto simp: overlay_def quiet_def sentinel_def)

lemma plain_loop_step:
  assumes "block_sizes nc n = (k, k)" and "RecvSocketStream k segs = (Received m, segs1)"
    and "overlay (m @ [nul]) buf = buf1" and "\<not> refusal buf1 n" and "\<not> file_changed buf1" and "\<not> cleartext_refusal buf1"
    and "m \<noteq> []" and "\<not> (length m = nc_size nc \<and> n = 0 \<and> strncmp_eq (until_nul buf1) CF_FAILEDSTR (nc_size nc))"
    and "EmbeddedWrite (nc_space nc) (nc_makeholes nc) buf1 k (length m) f hole = Inr (buf2, Some (f', hole'))"
  shows "plain_loop nc buf f hole n segs =
    (if n + k \<ge> nc_size nc then copy_end nc (n + k) f' hole' segs1 else plain_loop nc buf2 f' hole' (n + k) segs1)"
  using assms by (subst plain_loop.simps) auto

lemma plain_loop_copies:
  assumes "holds g f hole" and "r \<noteq> []" and "clean (g @ r)" and "nc_size nc = length (g @ r)"
    and "0 < nc_block nc" and "nc_block nc < CF_BUFSIZE" and "\<not> nc_compat nc" and "length (g @ r) < nc_space nc"
    and "quiet buf" and "no_error segs" and "bytes_of segs = r @ rest"
  shows "\<exists>f' segs'. plain_loop nc buf f hole (length g) segs = Inr (Some f', True, segs')
    \<and> contents f' = g @ r \<and> bytes_of segs' = rest"
  using assms
proof (induction r arbitrary: g f hole buf segs rule: length_induct)
  case (1 r)
  let ?k = "min (nc_block nc) (length r)"
  let ?m = "take ?k r"
  let ?buf1 = "?m @ nul # drop (length ?m + 1) buf"
  have k: "0 < ?k" "?k < CF_BUFSIZE" "length ?m = ?k" "?m \<noteq> []" using 1(3,6,7) by auto
  have sizes: "block_sizes nc (length g) = (?k, ?k)" using block_sizes_rest [of nc g r] 1(3,5-8) by simp
  obtain segs1 where recv: "RecvSocketStream ?k segs = (Received ?m, segs1)" "bytes_of segs1 = drop ?k r @ rest" "no_error segs1"
    by (rule RecvSocketStream_bytes [OF 1(11), of ?k]) (use 1(12) k in simp_all)
  have part: "\<not> strstr ?m bad_mark" by (rule clean_parts [OF 1(4)])
  have short: "length ?m < CF_BUFSIZE" using k by simp
  note buf1 = quiet_received [OF 1(10) part short]
  have quiet1: "\<not> strstr ?buf1 bad_mark" using buf1(2) by (simp add: quiet_def)
  note free = message_free [OF quiet1]
  have whole: "\<not> (length ?m = nc_size nc \<and> length g = 0 \<and> strncmp_eq (until_nul ?buf1) CF_FAILEDSTR (nc_size nc))"
  proof
    assume w: "length ?m = nc_size nc \<and> length g = 0 \<and> strncmp_eq (until_nul ?buf1) CF_FAILEDSTR (nc_size nc)"
    then have "?m = r" "g = []" using 1(5) k(3) by auto
    with w not_prefix_of_refusal [of r "drop (length ?m + 1) buf"] 1(3-5) show False by auto
  qed
  have room: "length g + length ?m \<le> nc_space nc" "length ?m + 4 \<le> length ?buf1" "take (length ?m) ?buf1 = ?m"
    using 1(9) buf1(2) k by (auto simp: quiet_def)
  obtain buf2 f' hole' where wrote:
    "EmbeddedWrite (nc_space nc) (nc_makeholes nc) ?buf1 (length ?m) (length ?m) f hole = Inr (buf2, Some (f', hole'))"
    "holds (g @ ?m) f' hole'" "buf2 = (if nc_makeholes nc then sentinel (length ?m) ?buf1 else ?buf1)"
    using EmbeddedWrite_holds [OF 1(2) room, of "nc_makeholes nc"] by blast
  have sum: "length g + ?k = length (g @ ?m)" by simp
  have step: "plain_loop nc buf f hole (length g) segs =
    (if length g + ?k \<ge> nc_size nc then copy_end nc (length g + ?k) f' hole' segs1
     else plain_loop nc buf2 f' hole' (length g + ?k) segs1)"
    by (rule plain_loop_step [OF sizes recv(1) buf1(1) free k(4) whole])
      (use wrote(1) k(3) in \<open>simp only:\<close>)
  show ?case
  proof (cases "length r \<le> nc_block nc")
    case True
    then have m: "?m = r" "?k = length r" by simp_all
    obtain f'' where "close_hole (nc_space nc) (length (g @ r)) f' hole' = Some f''" "contents f'' = g @ r"
      using holds_close [of "g @ r" f' hole' "nc_space nc"] wrote(2) m(1) 1(9) by auto
    with step m recv(2) 1(5) show ?thesis by (auto simp: copy_end_def)
  next
    case False
    then have r': "drop ?k r \<noteq> []" "length (drop ?k r) < length r" "g @ r = (g @ ?m) @ drop ?k r" using 1(6) by auto
    have q: "quiet buf2" using buf1(2,3) wrote(3) by simp
    have same: "clean ((g @ ?m) @ drop ?k r)" "nc_size nc = length ((g @ ?m) @ drop ?k r)"
      "length ((g @ ?m) @ drop ?k r) < nc_space nc" using 1(4,5,9) unfolding r'(3) by simp_all
    have "\<exists>f'' segs'. plain_loop nc buf2 f' hole' (length (g @ ?m)) segs1 = Inr (Some f'', True, segs')
      \<and> contents f'' = (g @ ?m) @ drop ?k r \<and> bytes_of segs' = rest"
      by (rule 1(1) [rule_format, OF r'(2) wrote(2) r'(1) same(1,2) 1(6-8) same(3) q recv(3,2)])
    moreover have "\<not> length g + ?k \<ge> nc_size nc" using False 1(5) by simp
    ultimately show ?thesis unfolding step r'(3) [symmetric] sum [symmetric] by simp
  qed
qed

lemma plain_loop_empty:
  assumes "nc_size nc = 0" and "quiet buf"
  shows "plain_loop nc buf new_file False 0 segs = Inr (Some new_file, True, segs)"
proof -
  have recv: "RecvSocketStream 0 segs = (Received [], segs)"
    by (cases "(0 :: nat, segs, [] :: string)" rule: recv_loop.cases) (auto simp: RecvSocketStream_def)
  have "overlay [nul] buf = [] @ nul # drop 1 buf" "quiet ([] @ nul # drop 1 buf)"
    using quiet_received [of buf "[]"] assms(2) bad_mark(3) by (simp_all add: CF_BUFSIZE_def)
  with message_free [of "[]" "drop 1 buf"] recv assms(1) show ?thesis
    by (subst plain_loop.simps) (simp add: block_sizes_def copy_end_def close_hole_def quiet_def)
qed


lemma quiet_cleared: "quiet (replicate (CF_BUFSIZE + 4) nul)"
proof -
  have "\<not> strstr (replicate (CF_BUFSIZE + 4) nul) bad_mark"
  proof
    assume "strstr (replicate (CF_BUFSIZE + 4) nul) bad_mark"
    then obtain u v where "replicate (CF_BUFSIZE + 4) nul = u @ bad_mark @ v" by (auto simp: strstr_iff)
    then have "set bad_mark \<subseteq> set (replicate (CF_BUFSIZE + 4) nul)" by (metis Un_iff set_append subsetI)
    then have "set bad_mark \<subseteq> {nul}" by (auto simp: set_replicate_conv_if split: if_splits)
    then show False by (simp add: bad_mark_def nul_iff [symmetric] eq_commute [of _ nul] nul_iff)
  qed
  then show ?thesis by (simp add: quiet_def)
qed


text \<open>
  A connection that ends too early is not noticed: the rest of the block is written from the memory
  of the buffer and the copy counts as done. A file with the single letter \<open>B\<close> is refused.
\<close>

lemma plain_loop_cut_short:
  "plain_loop \<lparr>nc_space = 9, nc_makeholes = False, nc_compat = False, nc_size = 4, nc_block = 8\<rparr> ''zzzzzzzzz'' new_file False 0 [Data ''ab'']
   = Inr (Some \<lparr>contents = [CHR ''a'', CHR ''b'', nul, CHR ''z''], pos = 4\<rparr>, True, [])"
  by code_simp

lemma plain_loop_letter_B:
  "plain_loop \<lparr>nc_space = 9, nc_makeholes = False, nc_compat = False, nc_size = 1, nc_block = 8\<rparr> ''zzzzzzzzz'' new_file False 0 [Data ''B'']
   = Inr (Some new_file, False, [])"
  by code_simp

end
