(* ===== verification/Sessions.thy ===== *)
theory Sessions
  imports Server
begin

text \<open>
  What a session of cfservd.c is made of and stays made of: the names of a connection fit the arrays
  of \<open>struct cfd_connection\<close>, a session key has the length of a Blowfish key, an authenticated
  session has one, and no request changes the address the connection came from. Messages fit the
  buffer they are received into.
\<close>

section \<open>Messages fit their buffer\<close>

lemma recv_loop_bound:
  "recv_loop toget segs already = (Received m, segs') \<Longrightarrow> length already \<le> toget \<Longrightarrow> length m \<le> toget"
  by (induction toget segs already rule: recv_loop.induct) (auto simp: Let_def split: if_splits)

text \<open>
  C19. Whatever is on the wire, a transaction that is received is no longer than what is left of the
  buffer behind a header, and so fits the array with its terminator.
\<close>

theorem ReceiveTransaction_bound:
  assumes "ReceiveTransaction segs = (Received m, segs')"
  shows "length m + CF_INBAND_OFFSET \<le> CF_BUFSIZE"
proof -
  obtain proto segs1 where "\<not> CF_BUFSIZE - CF_INBAND_OFFSET < header_length proto"
    and "RecvSocketStream (header_length proto) segs1 = (Received m, segs')"
    using assms by (auto simp: ReceiveTransaction_def split: prod.splits reception.splits if_splits)
  then have "length m \<le> CF_BUFSIZE - CF_INBAND_OFFSET"
    using recv_loop_bound [of "header_length proto" segs1 "[]" m segs']
    by (auto simp: RecvSocketStream_def split: if_splits)
  then show ?thesis by (simp add: CF_BUFSIZE_def CF_INBAND_OFFSET_def)
qed

theorem ReceiveTransaction_bound_witness:
  "\<exists>segs'. ReceiveTransaction [Data ''t 2'', Data [nul, nul, nul, nul, nul], Data ''abc''] = (Received ''ab'', segs')
     \<and> length ''ab'' + CF_INBAND_OFFSET \<le> CF_BUFSIZE"
proof -
  have "ReceiveTransaction [Data ''t 2'', Data [nul, nul, nul, nul, nul], Data ''abc''] = (Received ''ab'', [Data ''c''])"
    by code_simp
  with ReceiveTransaction_bound [OF this] show ?thesis by blast
qed

section \<open>Connections stay well formed\<close>

definition conn_ok :: "cfd_connection \<Rightarrow> bool" where
  "conn_ok conn =
     (length (hostname conn) < CF_MAXVARSIZE \<and> length (username conn) < CF_MAXVARSIZE
      \<and> (case session_key conn of None \<Rightarrow> \<not> rsa_auth conn | Some k \<Rightarrow> length k = CF_BLOWFISHSIZE))"

text \<open>A step keeps a session well formed and its address as it is.\<close>

definition keeps :: "session \<Rightarrow> session \<Rightarrow> bool" where
  "keeps s s' = ((conn_ok (s_conn s) \<longrightarrow> conn_ok (s_conn s')) \<and> ipaddr (s_conn s') = ipaddr (s_conn s))"

lemma keeps_same: "s_conn s' = s_conn s \<Longrightarrow> keeps s s'"
  by (simp add: keeps_def)

lemma keeps_trans: "keeps s s1 \<Longrightarrow> keeps s1 s2 \<Longrightarrow> keeps s s2"
  by (simp add: keeps_def)

lemma keeps_maproot: "keeps (s\<lparr>s_conn := (s_conn s)\<lparr>maproot := m\<rparr>\<rparr>) s' \<longleftrightarrow> keeps s s'"
  by (simp add: keeps_def conn_ok_def cong: option.case_cong)

lemma send_conn: "send b s = Inr s' \<Longrightarrow> s_conn s' = s_conn s"
  by (auto dest: send_InrD)

lemma receive_conn: "receive s = (r, s') \<Longrightarrow> s_conn s' = s_conn s"
  by (simp add: receive_simps)

lemma send_all_conn: "send_all ps s = Inr s' \<Longrightarrow> s_conn s' = s_conn s"
  by (induction ps arbitrary: s) (auto elim!: bind_outcome_InrE dest: send_conn)

lemmas conn_simps = send_conn receive_conn send_all_conn

lemma class_names_conn: "class_names sv ips s = Inr (Some (s', b)) \<Longrightarrow> s_conn s' = s_conn s"
  by (induction ips) (auto elim!: bind_outcome_InrE split: if_splits simp: ReplyNothing_def dest: send_conn)

lemma match_loop_conn: "match_loop sv k n buf s = Inr (s', b) \<Longrightarrow> s_conn s' = s_conn s"
proof (induction k arbitrary: n buf s)
  case 0
  then show ?case by (auto simp: ReplyNothing_def elim!: bind_outcome_InrE dest: send_conn)
next
  case (Suc k)
  obtain r s1 where rs: "receive s = (r, s1)" by (cases "receive s")
  from Suc.prems rs have "s_conn s' = s_conn s1"
    by (auto simp: ReplyNothing_def elim!: bind_outcome_InrE dest!: Suc.IH class_names_conn
        dest: send_conn split: if_splits reception.splits option.splits)
  with receive_conn [OF rs] show ?case by simp
qed

lemma DoExec_conn:
  assumes "DoExec sys args s = Inr s'"
  shows "s_conn s' = s_conn s"
proof (cases "macro_value sys ''cfrunCommand''")
  case None
  with assms show ?thesis by (auto simp: DoExec_def dest: send_conn)
next
  case (Some v)
  obtain ebuff where ebuff: "ExpandVarstring (expansion sys) (Some ''$(cfrunCommand) --no-splay --inform'') = Inr ebuff"
    using assms Some by (auto simp: DoExec_def elim!: bind_outcome_InrE)
  show ?thesis
  proof (cases "length ebuff + length (scrub 0 args) + 6 > CF_BUFSIZE")
    case True
    with assms Some ebuff show ?thesis by (auto simp: DoExec_def dest: send_conn)
  next
    case False
    with assms Some ebuff show ?thesis
      by (auto simp: DoExec_def elim!: bind_outcome_InrE dest!: conn_simps split: if_splits option.splits)
  qed
qed

lemma StatFile_conn: "StatFile env f s = Inr s' \<Longrightarrow> s_conn s' = s_conn s"
  by (auto simp: StatFile_def send_stat_def elim!: bind_outcome_InrE dest!: conn_simps split: if_splits option.splits)

lemma CfGetFile_conn: "CfGetFile env sys f n encrypt s = Inr s' \<Longrightarrow> s_conn s' = s_conn s"
  by (auto simp: CfGetFile_def emit_def elim!: bind_outcome_InrE split: if_splits option.splits)

lemma open_directory_conn: "open_directory sys code e f s = Inr s' \<Longrightarrow> s_conn s' = s_conn s"
  by (auto simp: open_directory_def dest!: conn_simps split: if_splits option.splits)

lemma CompareLocalChecksum_conn: "CompareLocalChecksum sys m s = Inr s' \<Longrightarrow> s_conn s' = s_conn s"
  by (auto simp: CompareLocalChecksum_def dest!: conn_simps split: option.splits if_splits)

lemmas file_conn = StatFile_conn CfGetFile_conn open_directory_conn CompareLocalChecksum_conn

lemma keeps_ends:
  "stop s = Inr (s', b) \<Longrightarrow> keeps s s'" "go_on s = Inr (s', b) \<Longrightarrow> keeps s s'"
  "deny_request s = Inr (s', b) \<Longrightarrow> keeps s s'"
  by (auto simp: stop_def go_on_def deny_request_def refuse_def finish_Inr keeps_same dest!: send_conn)

definition same_but_maproot :: "cfd_connection \<Rightarrow> cfd_connection \<Rightarrow> bool" where
  "same_but_maproot c c' = (c\<lparr>maproot := None\<rparr> = c'\<lparr>maproot := None\<rparr>)"

lemma same_but_maproot_simps [simp]:
  "same_but_maproot c c" "same_but_maproot c (c'\<lparr>maproot := m\<rparr>) = same_but_maproot c c'"
  by (simp_all add: same_but_maproot_def)

lemma same_but_maproot_keeps:
  assumes "same_but_maproot (s_conn s) c" and "keeps (s\<lparr>s_conn := c\<rparr>) s'"
  shows "keeps s s'"
proof -
  from assms(1) have "s_conn s\<lparr>maproot := maproot c\<rparr> = c"
    unfolding same_but_maproot_def by (metis cfd_connection.surjective cfd_connection.update_convs(4))
  with assms(2) keeps_maproot [where s = s and m = "maproot c" and s' = s'] show ?thesis by simp
qed

lemma admit_rules_conn:
  "admit_rules env cfg f e aps conn = Inr (conn', ok) \<Longrightarrow> same_but_maproot conn conn'"
  by (induction aps) (auto elim!: bind_outcome_InrE split: if_splits)

lemma AccessControl_conn:
  assumes "AccessControl env cfg f conn e = Inr (conn', ok)"
  shows "same_but_maproot conn conn'"
proof -
  have "same_but_maproot (conn\<lparr>maproot := Some False\<rparr>) c = same_but_maproot conn c" for c
    by (simp add: same_but_maproot_def)
  with assms show ?thesis
    by (auto simp: AccessControl_def elim!: bind_outcome_InrE dest!: admit_rules_conn
        split: option.splits if_splits)
qed

lemma with_access_keeps:
  assumes "with_access sv f e s yes no = Inr (s', b)"
    and "\<And>s1. yes s1 = Inr (s', b) \<Longrightarrow> keeps s1 s'" and "\<And>s1. no s1 = Inr (s', b) \<Longrightarrow> keeps s1 s'"
  shows "keeps s s'"
proof -
  obtain c ok where ok: "AccessControl (sv_env sv) (sv_cfg sv) f (s_conn s) e = Inr (c, ok)"
    and rest: "(if ok then yes (s\<lparr>s_conn := c\<rparr>) else no (s\<lparr>s_conn := c\<rparr>)) = Inr (s', b)"
    using assms(1) by (auto simp: with_access_def elim!: bind_outcome_InrE)
  have "keeps (s\<lparr>s_conn := c\<rparr>) s'" using rest assms(2,3) by (cases ok) auto
  with AccessControl_conn [OF ok] show ?thesis by (rule same_but_maproot_keeps)
qed

lemma keeps_exec_request: "exec_request sv m s = Inr (s', b) \<Longrightarrow> keeps s s'"
  by (auto simp: exec_request_def Let_def MatchClasses_def finish_Inr Terminate_def keeps_same
      dest!: match_loop_conn DoExec_conn send_conn intro: keeps_ends
      split: if_splits elim!: with_access_keeps bind_outcome_InrE)

lemma keeps_get_request: "get_request sv m s = Inr (s', b) \<Longrightarrow> keeps s s'"
  by (auto simp: get_request_def finish_Inr Let_def keeps_same dest!: CfGetFile_conn split: if_splits prod.splits
      intro: keeps_ends elim!: with_access_keeps)

lemma keeps_sget_request: "sget_request sv m s = Inr (s', b) \<Longrightarrow> keeps s s'"
  by (auto simp: sget_request_def finish_Inr Let_def keeps_same dest!: CfGetFile_conn split: if_splits prod.splits
      intro: keeps_ends elim!: with_access_keeps)

lemma keeps_opendir_request: "opendir_request sv e m s = Inr (s', b) \<Longrightarrow> keeps s s'"
  by (auto simp: opendir_request_def CfSecOpenDirectory_def CfOpenDirectory_def finish_Inr Let_def keeps_same
      dest!: open_directory_conn split: if_splits intro: keeps_ends elim!: with_access_keeps)

lemma keeps_synch_request: "synch_request sv m s = Inr (s', b) \<Longrightarrow> keeps s s'"
  by (auto simp: synch_request_def finish_Inr Let_def keeps_same dest!: StatFile_conn send_conn
      split: if_splits prod.splits option.splits intro: keeps_ends elim!: with_access_keeps bind_outcome_InrE)

lemma keeps_md5_request: "md5_request sv m s = Inr (s', b) \<Longrightarrow> keeps s s'"
  by (auto simp: md5_request_def finish_Inr keeps_same dest!: CompareLocalChecksum_conn split: if_splits
      intro: keeps_ends)

lemma keeps_version_request: "version_request sv s = Inr (s', b) \<Longrightarrow> keeps s s'"
  by (auto simp: version_request_def finish_Inr refuse_def keeps_same dest!: send_conn split: if_splits)

lemma scan_word_bound: "scan_word n s = (w, r) \<Longrightarrow> length w \<le> n"
  by (auto simp: scan_word_def Let_def)

lemma ToLowerStr_length: "ToLowerStr s = Inr t \<Longrightarrow> length t \<le> length s"
  using length_takeWhile_le [of _ "map ToLower s"] by (auto simp: ToLowerStr_def until_nul_def split: if_splits)

lemma keeps_cauth_request:
  assumes "cauth_request sv m s = Inr (s', b)"
  shows "keeps s s'"
proof -
  obtain s1 where verify: "VerifyConnection (sv_env sv) (sv_dns sv) (until_nul (drop (length ''CAUTH '') m)) s = Inr (s1, b)"
    and s': "s_conn s' = (s_conn s1)\<lparr>id_verified := b\<rparr>"
    using assms by (auto simp: cauth_request_def refuse_def Let_def elim!: bind_outcome_InrE split: if_splits)
  have "keeps s s1"
    using verify scan_word_bound ToLowerStr_length unfolding keeps_def conn_ok_def CF_MAXVARSIZE_def
    by (fastforce simp: VerifyConnection_def elim!: bind_outcome_InrE split: prod.splits if_splits cong: option.case_cong)
  with s' show ?thesis by (simp add: keeps_def conn_ok_def cong: option.case_cong)
qed

lemma auth_number_conn: "auth_number cr s = (v, s') \<Longrightarrow> s_conn s' = s_conn s"
  by (auto simp: auth_number_def dest!: receive_conn split: prod.splits reception.splits if_splits)

lemma auth_key_conn: "auth_key cr s = (k, s') \<Longrightarrow> s_conn s' = s_conn s"
  by (auto simp: auth_key_def split: prod.splits option.splits dest!: auth_number_conn)

lemma auth_challenge_conn: "auth_challenge cr c n k s = Inr (x, s') \<Longrightarrow> s_conn s' = s_conn s"
  unfolding auth_challenge_def
  by (auto elim!: bind_outcome_InrE split: option.splits prod.splits reception.splits if_splits
      dest!: send_conn simp: receive_simps)

lemma keeps_auth_session_key:
  "auth_session_key cr k x s = Inr (s', b) \<Longrightarrow> length (heap_bytes cr) = CF_BLOWFISHSIZE \<Longrightarrow> keeps s s'"
  by (auto simp: auth_session_key_def receive_simps keeps_def conn_ok_def
      split: prod.splits reception.splits option.splits if_splits)

lemma CheckStoreKey_conn:
  "CheckStoreKey env cfg st conn key = Inr (st', conn', reply, known) \<Longrightarrow> conn' = conn \<or> conn' = conn\<lparr>trust := True\<rparr>"
  by (auto simp: CheckStoreKey_def dynamic_key_def trust_new_key_def Let_def elim!: bind_outcome_InrE
      split: option.splits if_splits)

lemma keeps_AuthenticationDialogue:
  assumes "AuthenticationDialogue env cr cfg msg n s = Inr (s', b)" and "length (heap_bytes cr) = CF_BLOWFISHSIZE"
  shows "keeps s s'"
proof (cases "s' = s")
  case False
  then obtain iscrypt nonce where nonce: "auth_nonce cr msg n = Inr (Some (iscrypt, nonce))"
    using assms by (auto simp: AuthenticationDialogue_def elim!: bind_outcome_InrE
        split: option.splits prod.splits if_splits)
  obtain k s1 where key: "auth_key cr s = (k, s1)" by (cases "auth_key cr s")
  note first = auth_key_conn [OF key]
  show ?thesis
  proof (cases k)
    case None
    with assms nonce key False first show ?thesis
      by (auto simp: AuthenticationDialogue_def keeps_same split: if_splits)
  next
    case (Some newkey)
    with assms nonce key False obtain keys c reply known s2 where
      check: "CheckStoreKey env cfg (s_keys s1) (s_conn s1) newkey = Inr (keys, c, reply, known)"
      and s2: "send reply (s1\<lparr>s_keys := keys, s_conn := c\<rparr>) = Inr s2"
      by (auto simp: AuthenticationDialogue_def elim!: bind_outcome_InrE split: if_splits)
    with assms nonce key Some False have rest: "s' = s2 \<or> (\<exists>x s3. auth_challenge cr iscrypt nonce newkey s2 = Inr (x, s3)
        \<and> (s' = s3 \<or> (\<exists>e. auth_session_key cr newkey e s3 = Inr (s', b))))"
      by (auto simp: AuthenticationDialogue_def elim!: bind_outcome_InrE split: if_splits option.splits)
    have "keeps s s2"
      using CheckStoreKey_conn [OF check] send_conn [OF s2] first
      by (auto simp: keeps_def conn_ok_def cong: option.case_cong)
    moreover have "keeps s2 s'"
      using rest assms(2)
      by (auto dest!: auth_challenge_conn intro: keeps_same keeps_trans [OF keeps_same keeps_auth_session_key])
    ultimately show ?thesis by (rule keeps_trans)
  qed
qed (simp add: keeps_same)

lemma keeps_sauth_request:
  assumes "sauth_request sv m s = Inr (s', b)" and "length (heap_bytes (sv_crypto sv)) = CF_BLOWFISHSIZE"
  shows "keeps s s'"
  using assms
  by (auto simp: sauth_request_def elim!: bind_outcome_InrE split: if_splits
      intro: keeps_ends keeps_AuthenticationDialogue keeps_trans [OF keeps_AuthenticationDialogue keeps_ends(1)])

lemmas keeps_requests = keeps_exec_request keeps_get_request keeps_sget_request keeps_opendir_request
  keeps_synch_request keeps_md5_request keeps_version_request keeps_cauth_request keeps_sauth_request

lemma keeps_handle_request:
  "handle_request sv m c s = Inr (s', b) \<Longrightarrow> length (heap_bytes (sv_crypto sv)) = CF_BLOWFISHSIZE \<Longrightarrow> keeps s s'"
  unfolding handle_request_def
  by (auto simp: sopendir_request_def ssynch_request_def smd5_request_def Let_def
      intro: keeps_requests keeps_ends split: option.splits protos.splits if_splits)

text \<open>
  C18. Every request leaves a connection well formed, whatever the client sends: the host and user
  names it asserts fit their arrays, a session key has sixteen bytes and an authenticated connection
  has one. The address of the connection never changes. (The key buffer has the size asked for.)
\<close>

theorem BusyWithConnection_typed:
  assumes "BusyWithConnection sv s = Inr (s', b)" and "conn_ok (s_conn s)"
    and "length (heap_bytes (sv_crypto sv)) = CF_BLOWFISHSIZE"
  shows "conn_ok (s_conn s') \<and> ipaddr (s_conn s') = ipaddr (s_conn s)"
proof -
  obtain r s1 where rs: "receive s = (r, s1)" by (cases "receive s")
  have "keeps s1 s'"
    using assms(1,3) rs
    by (auto simp: BusyWithConnection_def intro: keeps_handle_request keeps_same elim!: bind_outcome_InrE
        split: reception.splits if_splits)
  with receive_conn [OF rs] assms(2) show ?thesis by (simp add: keeps_def)
qed

theorem BusyWithConnection_typed_witness:
  "\<exists>sv s s'. BusyWithConnection sv s = Inr (s', True) \<and> hostname (s_conn s') = ''a.cf.org''
     \<and> username (s_conn s') = ''mark'' \<and> conn_ok (s_conn s') \<and> ipaddr (s_conn s') = ''10.0.0.9''"
proof -
  let ?env = "\<lparr>inet_addr = \<lambda>_. 0, inet_pton6 = \<lambda>_. None, realpath = Some, lstat = \<lambda>_. None,
      stat_file = \<lambda>_. None, readlink = \<lambda>_. None\<rparr>"
  let ?sv = "\<lparr>sv_env = ?env, sv_crypto = undefined\<lparr>heap_bytes := replicate 16 nul\<rparr>,
      sv_dns = \<lparr>getpwnam = \<lambda>_. Some 0, getaddrinfo = \<lambda>_. []\<rparr>,
      sv_sys = undefined, sv_cfg = undefined, sv_keys = undefined, CFRUNCOMMAND = [], CLOCK_DRIFT = 0,
      DENYBADCLOCKS = False, VERSION = []\<rparr>"
  let ?s = "\<lparr>s_conn = NewConn\<lparr>ipaddr := ''10.0.0.9''\<rparr>, s_keys = undefined,
      s_inbox = [Data ''t 28xxxx'', Data ''CAUTH 10.0.0.9 A.cf.org mark''], s_done = []\<rparr>"
  obtain s' where s': "BusyWithConnection ?sv ?s = Inr (s', True)" "hostname (s_conn s') = ''a.cf.org''"
    "username (s_conn s') = ''mark''"
  proof -
    have "case BusyWithConnection ?sv ?s of Inr (s', b) \<Rightarrow> b \<and> hostname (s_conn s') = ''a.cf.org''
        \<and> username (s_conn s') = ''mark'' | Inl e \<Rightarrow> False"
      by code_simp
    then show ?thesis using that by (cases "BusyWithConnection ?sv ?s") (auto split: prod.splits)
  qed
  have "conn_ok (s_conn s') \<and> ipaddr (s_conn s') = ipaddr (s_conn ?s)"
    by (rule BusyWithConnection_typed [OF s'(1)]) (simp_all add: NewConn_def conn_ok_def CF_MAXVARSIZE_def CF_BLOWFISHSIZE_def)
  with s' show ?thesis by (intro exI [of _ ?sv] exI [of _ ?s] exI [of _ s']) simp
qed

end
