(* ===== verification/Addresses.thy ===== *)
theory Addresses
  imports Filenames
begin

text \<open>
  init.c and patches.c: what the text of an address looks like, and the replacements for functions
  of the C library that some systems lack. The tests for addresses are heuristics; the lemmas say
  what they accept.
\<close>

subsection \<open>Comparison without case\<close>

definition IntMin :: "int \<Rightarrow> int \<Rightarrow> int" where
  "IntMin a b = (if a > b then b else a)"

definition StrStr :: "string \<Rightarrow> string \<Rightarrow> bool outcome" where
  "StrStr a b = bind_outcome (ToLowerStr a) (\<lambda>buf1. bind_outcome (ToLowerStr b) (\<lambda>buf2. Inr (strstr buf1 buf2)))"

definition StrnCmp :: "string \<Rightarrow> string \<Rightarrow> nat \<Rightarrow> bool outcome" where
  "StrnCmp a b n =
     bind_outcome (ToLowerStr a) (\<lambda>buf1. bind_outcome (ToLowerStr b) (\<lambda>buf2. Inr (strncmp_eq buf1 buf2 n)))"

subsection \<open>Replacements\<close>

text \<open>\<open>strstr\<close> of patches.c: the suffix found.\<close>

fun strstr_patch :: "string \<Rightarrow> string \<Rightarrow> string option" where
  "strstr_patch [] s2 = None"
| "strstr_patch (c # cs) s2 =
     (if s2 = [] \<or> c \<noteq> hd s2 then strstr_patch cs s2
      else if strncmp_eq (c # cs) s2 (length s2) then Some (c # cs)
      else strstr_patch cs s2)"

text \<open>
  \<open>strrchr\<close> of patches.c: from the end down to the second character; what it returns is the character
  itself in place of its address.
\<close>

definition strrchr_patch :: "string \<Rightarrow> char \<Rightarrow> char option" where
  "strrchr_patch str ch = (if str = [] then None else find (\<lambda>c. c = ch) (rev (tl str)))"

subsection \<open>Addresses\<close>

text \<open>
  The loop of \<open>IsIPV6Address\<close>: the running count is reset whenever it does not exceed the maximum so
  far. \<open>None\<close> if a character rules the name out.
\<close>

fun v6_runs :: "string \<Rightarrow> nat \<Rightarrow> nat \<Rightarrow> nat option" where
  "v6_runs [] count' max' = Some max'"
| "v6_runs (c # cs) count' max' =
     (if \<not> isalnum c \<and> c \<noteq> CHR '':'' \<and> c \<noteq> CHR ''.'' then None
      else if c = CHR ''r'' then None
      else (let n = (if isalnum c then count' + 1 else count') in
        if n > max' then v6_runs cs n n else v6_runs cs 0 max'))"

definition IsIPV6Address :: "string option \<Rightarrow> bool outcome" where
  "IsIPV6Address name = (case name of
       None \<Rightarrow> Inr False
     | Some s \<Rightarrow> (case v6_runs s 0 0 of
           None \<Rightarrow> Inr False
         | Some m \<Rightarrow>
             if m \<le> 2 then Inr False
             else if \<not> strstr s '':'' then Inr False
             else bind_outcome (StrStr s ''scope'') (\<lambda>b. Inr (\<not> b))))"

definition IsIPV4Address :: "string option \<Rightarrow> bool" where
  "IsIPV4Address name = (case name of
       None \<Rightarrow> False
     | Some s \<Rightarrow> list_all (\<lambda>c. isdigit c \<or> c = CHR ''.'') s \<and> length (filter (\<lambda>c. c = CHR ''.'') s) = 3)"

text \<open>Only as many characters as the argument has are compared: any beginning of an address will do.\<close>

fun IsInterfaceAddress :: "item list \<Rightarrow> string \<Rightarrow> bool outcome" where
  "IsInterfaceAddress [] adr = Inr False"
| "IsInterfaceAddress (ip # ips) adr =
     bind_outcome (StrnCmp adr (it_name ip) (length adr)) (\<lambda>b. if b then Inr True else IsInterfaceAddress ips adr)"

section \<open>What the tests accept\<close>

lemma strstr_patch_iff:
  assumes "s2 \<noteq> []"
  shows "(strstr_patch s1 s2 \<noteq> None) = strstr s1 s2"
proof (induction s1)
  case (Cons c cs)
  obtain d ds where "s2 = d # ds" using assms by (cases s2) auto
  with Cons show ?case by (auto simp: strncmp_eq_def)
qed (use assms in simp)

lemma strstr_patch_empty: "strstr_patch s1 [] = None \<and> strstr s1 []"
  by (induction s1) auto

lemma strrchr_patch_misses_first: "strrchr_patch ''/etc'' CHR ''/'' = None"
  by code_simp

lemma IsInterfaceAddress_prefix: "IsInterfaceAddress [mk_item ''128.39.74.10'' None] ''1'' = Inr True"
  by code_simp

text \<open>The maximum never exceeds the number of letters and digits, and a run that is too short is refused.\<close>

lemma v6_runs_max: "v6_runs s n m = Some k \<Longrightarrow> n \<le> m \<Longrightarrow> m \<le> k \<and> k \<le> m + length (filter isalnum s)"
proof (induction s n m rule: v6_runs.induct)
  case (2 c cs n m)
  let ?n = "if isalnum c then n + 1 else n"
  show ?case
  proof (cases "?n > m")
    case True
    with 2(2-4) 2(1)[of ?n] show ?thesis by (auto split: if_splits)
  next
    case False
    with 2(2-4) show ?thesis by (auto split: if_splits)
  qed
qed simp

lemma IsIPV6Address_colon:
  assumes "IsIPV6Address (Some s) = Inr True"
  shows "CHR '':'' \<in> set s \<and> CHR ''r'' \<notin> set s \<and> 2 < length (filter isalnum s)"
proof -
  obtain m where m: "v6_runs s 0 0 = Some m" "2 < m" "strstr s '':''"
    using assms by (auto simp: IsIPV6Address_def split: option.splits if_splits)
  have "CHR ''r'' \<notin> set t" if "v6_runs t n k = Some j" for t n k j
    using that by (induction t n k rule: v6_runs.induct) (auto split: if_splits)
  with m v6_runs_max [OF m(1)] show ?thesis by (auto simp: strstr_single)
qed

text \<open>A name with a colon and groups of at most two digits counts as the address of an interface card.\<close>

lemma IsIPV6Address_short_groups: "IsIPV6Address (Some ''::1'') = Inr False"
  by code_simp

lemma IsIPV4Address_any_length: "IsIPV4Address (Some ''...'')"
  by code_simp

end
