(* ===== verification/ClientAuth.thy ===== *)
theory ClientAuth
  imports Remote Sessions Addresses
begin

text \<open>
  proto.c: how the agent says who it is (\<open>IdentifyForVerification\<close>), authenticates a server and gives
  it a session key (\<open>KeyAuthentication\<close>) and asks for its version. The other side is \<open>VerifyConnection\<close>
  and \<open>AuthenticationDialogue\<close> of the server; the last section puts the two together. The primitives
  of OpenSSL are the parameters of \<open>crypto_env\<close>, as for the server.
\<close>

subsection \<open>Identity\<close>

record host_env =
  SKIPIDENTIFY :: bool
  VDOMAIN :: string
  VFQNAME :: string
  VIPADDRESS :: string
  socket_address :: "string option"
  socket_name :: "string option"
  user_name :: "string option"
  CFSIGNATURE :: int

definition CF_START_DOMAIN :: string where
  "CF_START_DOMAIN = ''undefined.domain''"

definition AF_INET :: nat where "AF_INET = 2"
definition AF_INET6 :: nat where "AF_INET6 = 10"

text \<open>Name and address by themselves: \<open>None\<close> if they cannot be found.\<close>

definition own_identity :: "host_env \<Rightarrow> nat \<Rightarrow> (string \<times> string) option outcome" where
  "own_identity h family =
     (if SKIPIDENTIFY h then Inr (Some (VIPADDRESS h, if VFQNAME h \<noteq> [] then VFQNAME h else ''skipident''))
      else if VDOMAIN h = CF_START_DOMAIN then Inr None
      else if family \<noteq> AF_INET \<and> family \<noteq> AF_INET6 then Inl (Undefined ''IdentifyForVerification: len'')
      else (case socket_address h of
          None \<Rightarrow> Inr None
        | Some addr \<Rightarrow> (case socket_name h of
            None \<Rightarrow> Inr None
          | Some name \<Rightarrow> Inr (Some (take (CF_MAX_IP_LEN - 2) addr, name)))))"

text \<open>The three repairs of the name: a domain where there is none, the address in place of garbage.\<close>

definition announced_name :: "host_env \<Rightarrow> string \<Rightarrow> string \<Rightarrow> string outcome" where
  "announced_name h localip dnsname =
     bind_outcome (IsIPV6Address (Some dnsname)) (\<lambda>v6.
       let name1 = (if VDOMAIN h \<noteq> [] \<and> \<not> v6 \<and> CHR ''.'' \<notin> set dnsname
                    then dnsname @ ''.'' @ take (CF_MAXVARSIZE div 2) (VDOMAIN h) else dnsname);
           name2 = (if strncmp_eq name1 localip (length localip) then localip else name1) in
       Inr (if name2 = [] then localip else name2))"

definition IdentifyForVerification :: "host_env \<Rightarrow> nat \<Rightarrow> client \<Rightarrow> (client \<times> string \<times> bool) outcome" where
  "IdentifyForVerification h family c =
     bind_outcome (own_identity h family) (\<lambda>found. case found of
         None \<Rightarrow> Inr (c, [], False)
       | Some (localip, dnsname) \<Rightarrow>
           bind_outcome (announced_name h localip dnsname) (\<lambda>name.
             let uname = (case user_name h of None \<Rightarrow> ''UNKNOWN'' | Some u \<Rightarrow> u) in
             bind_outcome (request (take (CF_BUFSIZE - 2) (''CAUTH '' @ localip @ '' '' @ name @ '' '' @ uname
               @ '' '' @ show_int (as_int (CFSIGNATURE h)))) c) (\<lambda>c1. Inr (c1, localip, True))))"

subsection \<open>Authentication of the server\<close>

record peer =
  pe_server :: string
  remoteip :: string
  trustkey :: bool

definition root_key_name :: "bool \<Rightarrow> peer \<Rightarrow> string" where
  "root_key_name hostname_keys pe = take (CF_BUFSIZE - 1) (''root-'' @ (if hostname_keys then pe_server pe else remoteip pe))"

text \<open>
  The challenge (proposition C1): encrypted if the key of the server is known, else in clear text.
  \<open>RSA_public_encrypt\<close> returns as many bytes as the key has. \<open>stale\<close> is the array the text is in.
\<close>

definition challenge_body :: "crypto_env \<Rightarrow> rsa option \<Rightarrow> string \<Rightarrow> (char \<times> string) option" where
  "challenge_body cr server_pubkey nonce = (case server_pubkey of
       None \<Rightarrow> Some (CHR ''n'', nonce)
     | Some key \<Rightarrow> (case public_encrypt cr key nonce of
           None \<Rightarrow> None
         | Some e \<Rightarrow> if e = [] then None else Some (CHR ''y'', e)))"

definition challenge_message :: "string \<Rightarrow> char \<Rightarrow> string \<Rightarrow> nat \<Rightarrow> string" where
  "challenge_message stale cant_trust body nonce_len =
     take CF_RSA_PROTO_OFFSET (overlay (''SAUTH '' @ [cant_trust] @ '' '' @ show_nat (length body) @ '' ''
       @ show_nat nonce_len @ [nul]) stale) @ body"

text \<open>The reply about the key of the client and the answer to the challenge (S1, S2).\<close>

definition server_answers :: "crypto_env \<Rightarrow> string \<Rightarrow> client \<Rightarrow> client \<times> bool" where
  "server_answers cr nonce c = (case reply c of
       (RecvFailed _, c1) \<Rightarrow> (c1, False)
     | (Received r, c1) \<Rightarrow>
         if BadProtoReply (until_nul r) then (c1, False)
         else (case reply c1 of
             (RecvFailed _, c2) \<Rightarrow> (c2, False)
           | (Received answer, c2) \<Rightarrow>
               (c2, ChecksumsMatch CF_MD5_LEN (md5 cr nonce) (answer @ replicate CF_MD5_LEN nul))))"

text \<open>The counter challenge (S3) and the answer to it (C4).\<close>

definition answer_challenge :: "crypto_env \<Rightarrow> nat \<Rightarrow> client \<Rightarrow> (client \<times> bool) outcome" where
  "answer_challenge cr nonce_len c = (case reply c of
       (RecvFailed _, c1) \<Rightarrow> Inr (c1, False)
     | (Received m, c1) \<Rightarrow> (case private_decrypt cr m of
           None \<Rightarrow> Inr (c1, False)
         | Some p \<Rightarrow>
             if p = [] then Inr (c1, False)
             else if length p < nonce_len then Inl (Undefined ''KeyAuthentication: decrypted_cchall'')
             else bind_outcome (request (take CF_MD5_LEN (md5 cr (take nonce_len p))) c1) (\<lambda>c2. Inr (c2, True))))"

text \<open>The key of a server that was not known (S4, S5).\<close>

definition server_number :: "crypto_env \<Rightarrow> client \<Rightarrow> int option \<times> client" where
  "server_number cr c = (case reply c of
       (RecvFailed _, c1) \<Rightarrow> (None, c1)
     | (Received m, c1) \<Rightarrow> if m = [] then (None, c1) else (mpi2bn cr m, c1))"

definition collect_key :: "crypto_env \<Rightarrow> string \<Rightarrow> client \<Rightarrow> key_state \<Rightarrow> rsa option \<times> client \<times> key_state" where
  "collect_key cr keyname c st = (case server_number cr c of
       (None, c1) \<Rightarrow> (None, c1, st)
     | (Some n, c1) \<Rightarrow> (case server_number cr c1 of
         (None, c2) \<Rightarrow> (None, c2, st)
       | (Some e, c2) \<Rightarrow>
           (let key = \<lparr>rsa_n = n, rsa_e = e, rsa_bytes = rsa_struct cr (keys_made st) n e\<rparr> in
            (Some key, c2, SavePublicKey (st\<lparr>keys_made := keys_made st + 1\<rparr>) keyname key))))"

text \<open>
  The session key (C5): \<open>GenerateRandomSessionKey\<close> stores the pointer to a number of sixteen bits in
  place of its bytes, so the key is what the structure of the number looks like in memory:
  \<open>number_bytes\<close>.
\<close>

definition GenerateRandomSessionKey :: "string \<Rightarrow> client \<Rightarrow> client" where
  "GenerateRandomSessionKey number_bytes c = c\<lparr>cl_key := Some (take CF_BLOWFISHSIZE number_bytes)\<rparr>"

definition send_session_key :: "crypto_env \<Rightarrow> string \<Rightarrow> rsa \<Rightarrow> client \<Rightarrow> (client \<times> bool) outcome" where
  "send_session_key cr number_bytes key c =
     (let c1 = GenerateRandomSessionKey number_bytes c in
      if length number_bytes < CF_BLOWFISHSIZE then Inl (Undefined ''KeyAuthentication: session_key'')
      else (case public_encrypt cr key (take CF_BLOWFISHSIZE number_bytes) of
          None \<Rightarrow> Inr (c1, False)
        | Some e \<Rightarrow> if e = [] then Inr (c1, False) else bind_outcome (request e c1) (\<lambda>c2. Inr (c2, True))))"

definition KeyAuthentication :: "sys_env \<Rightarrow> crypto_env \<Rightarrow> key_config \<Rightarrow> bool \<Rightarrow> string \<Rightarrow> string \<Rightarrow> peer
    \<Rightarrow> client \<Rightarrow> key_state \<Rightarrow> (client \<times> key_state \<times> bool) outcome" where
  "KeyAuthentication sys cr cfg COMPATIBILITY_MODE stale number_bytes pe c st =
     (if COMPATIBILITY_MODE then Inr (c, st, True)
      else if \<not> have_keypair cfg then Inr (c, st, False)
      else (let nonce = bn_rand cr (keys_made st); keyname = root_key_name (HostnameKeys cfg) pe in
        bind_outcome (HavePublicKey st keyname) (\<lambda>server_pubkey.
          case challenge_body cr server_pubkey nonce of
            None \<Rightarrow> Inr (c, st, False)
          | Some (cant_trust, body) \<Rightarrow>
              bind_outcome (request (challenge_message stale cant_trust body (length nonce)) c) (\<lambda>c1.
              bind_outcome (request (own_modulus cr) c1) (\<lambda>c2.
              bind_outcome (request (own_exponent cr) c2) (\<lambda>c3.
                case server_answers cr nonce c3 of (c4, ok) \<Rightarrow>
                if \<not> ok then Inr (c4, st, False)
                else bind_outcome (ExpandVarstring (expansion sys) (Some (pe_server pe))) (\<lambda>_.
                  if server_pubkey = None \<and> \<not> trustkey pe then Inr (c4, st, False)
                  else bind_outcome (answer_challenge cr (length nonce) c4) (\<lambda>(c5, answered).
                    if \<not> answered then Inr (c5, st, False)
                    else (case (case server_pubkey of
                            Some key \<Rightarrow> (Some key, c5, st)
                          | None \<Rightarrow> collect_key cr keyname c5 st) of
                        (None, c6, st') \<Rightarrow> Inr (c6, st', False)
                      | (Some key, c6, st') \<Rightarrow>
                          bind_outcome (send_session_key cr number_bytes key c6) (\<lambda>(c7, sent).
                            Inr (c7, st', sent)))))))))))"

subsection \<open>The version of the server\<close>

definition CheckRemoteVersion :: "client \<Rightarrow> int \<Rightarrow> (client \<times> int) outcome" where
  "CheckRemoteVersion c protoversion =
     bind_outcome (request ''VERSION'' c) (\<lambda>c1. case reply c1 of
         (RecvFailed _, c2) \<Rightarrow> Inr (c2, 0)
       | (Received m, c2) \<Rightarrow> Inr (c2, if BadProtoReply (until_nul m) then 0 else 1))"

section \<open>Whom the agent accepts\<close>

lemma reply_simps:
  "reply c = (r, c') \<longleftrightarrow> fst (ReceiveTransaction (cl_inbox c)) = r \<and> c' = c\<lparr>cl_inbox := snd (ReceiveTransaction (cl_inbox c))\<rparr>"
  by (auto simp: reply_def split: prod.splits)

lemma request_InrD: "request m c = Inr c' \<Longrightarrow> c' = c\<lparr>cl_sent := cl_sent c @ [m]\<rparr>"
  by (auto simp: request_def split: if_splits)

lemma server_answers_True:
  assumes "server_answers cr nonce c = (c', True)"
  obtains r answer where "message 0 (cl_inbox c) = Received r" and "\<not> BadProtoReply (until_nul r)"
    and "message 1 (cl_inbox c) = Received answer"
    and "ChecksumsMatch CF_MD5_LEN (md5 cr nonce) (answer @ replicate CF_MD5_LEN nul)"
    and "cl_sent c' = cl_sent c" and "cl_key c' = cl_key c"
  using assms
  by (auto simp: server_answers_def reply_simps split: prod.splits reception.splits if_splits)

lemma answer_challenge_True:
  assumes "answer_challenge cr n c = Inr (c', True)"
  obtains p m where "message 0 (cl_inbox c) = Received m" and "private_decrypt cr m = Some p"
    and "cl_sent c' = cl_sent c @ [take CF_MD5_LEN (md5 cr (take n p))]" and "cl_key c' = cl_key c"
  using assms
  by (auto simp: answer_challenge_def reply_simps elim!: bind_outcome_InrE dest!: request_InrD
      split: prod.splits reception.splits option.splits if_splits)

lemma collect_key_sent: "collect_key cr keyname c st = (k, c', st') \<Longrightarrow> cl_sent c' = cl_sent c \<and> cl_key c' = cl_key c"
  by (auto simp: collect_key_def server_number_def reply_simps split: prod.splits reception.splits option.splits if_splits)

lemma send_session_key_True:
  assumes "send_session_key cr number_bytes key c = Inr (c', True)"
  shows "cl_key c' = Some (take CF_BLOWFISHSIZE number_bytes)"
    and "\<exists>e. public_encrypt cr key (take CF_BLOWFISHSIZE number_bytes) = Some e \<and> cl_sent c' = cl_sent c @ [e]"
  using assms
  by (auto simp: send_session_key_def GenerateRandomSessionKey_def elim!: bind_outcome_InrE dest!: request_InrD
      split: option.splits if_splits)

text \<open>What an authenticated agent has seen, and sent: the messages in their order.\<close>

definition authentic :: "crypto_env \<Rightarrow> string \<Rightarrow> client \<Rightarrow> bool" where
  "authentic cr nonce c =
     (\<exists>r answer. message 0 (cl_inbox c) = Received r \<and> \<not> BadProtoReply (until_nul r)
        \<and> message 1 (cl_inbox c) = Received answer
        \<and> ChecksumsMatch CF_MD5_LEN (md5 cr nonce) (answer @ replicate CF_MD5_LEN nul))"

text \<open>
  C15. The agent takes a server for authentic only if the server answered its challenge with the right
  checksum. Where the key of the server is known the challenge was encrypted with it, and the session
  key is; where it is not, the promise must allow to trust it.
\<close>

theorem KeyAuthentication_accepts:
  assumes "KeyAuthentication sys cr cfg False stale number_bytes pe c st = Inr (c', st', True)"
  shows "\<exists>key challenge answer secret body. authentic cr (bn_rand cr (keys_made st)) c
    \<and> challenge_body cr (ppkeys st (root_key_name (HostnameKeys cfg) pe)) (bn_rand cr (keys_made st)) = Some (challenge, body)
    \<and> (case ppkeys st (root_key_name (HostnameKeys cfg) pe) of Some k \<Rightarrow> key = k | None \<Rightarrow> trustkey pe)
    \<and> public_encrypt cr key (take CF_BLOWFISHSIZE number_bytes) = Some secret
    \<and> cl_sent c' = cl_sent c @ [challenge_message stale challenge body (length (bn_rand cr (keys_made st))),
        own_modulus cr, own_exponent cr, answer, secret]
    \<and> cl_key c' = Some (take CF_BLOWFISHSIZE number_bytes)"
proof -
  let ?nonce = "bn_rand cr (keys_made st)" and ?name = "root_key_name (HostnameKeys cfg) pe"
  obtain known where known: "HavePublicKey st ?name = Inr known"
    using assms by (auto simp: KeyAuthentication_def elim!: bind_outcome_InrE split: if_splits)
  then have stored: "known = ppkeys st ?name"
    by (auto simp: HavePublicKey_def split: option.splits if_splits)
  obtain flag body where body: "challenge_body cr known ?nonce = Some (flag, body)"
    using assms known by (auto simp: KeyAuthentication_def split: if_splits option.splits)
  let ?sent = "cl_sent c @ [challenge_message stale flag body (length ?nonce), own_modulus cr, own_exponent cr]"
  let ?c3 = "c\<lparr>cl_sent := ?sent\<rparr>"
  obtain c4 c5 c6 key where first: "server_answers cr ?nonce ?c3 = (c4, True)"
    and trusted: "known = None \<Longrightarrow> trustkey pe"
    and second: "answer_challenge cr (length ?nonce) c4 = Inr (c5, True)"
    and which: "(case known of Some key \<Rightarrow> (Some key, c5, st) | None \<Rightarrow> collect_key cr ?name c5 st) = (Some key, c6, st')"
    and third: "send_session_key cr number_bytes key c6 = Inr (c', True)"
    using assms known body
    by (auto simp: KeyAuthentication_def elim!: bind_outcome_InrE dest!: request_InrD
        split: if_splits prod.splits option.splits)
  have auth: "authentic cr ?nonce c" and four: "cl_sent c4 = ?sent"
    by (rule server_answers_True [OF first]; auto simp: authentic_def)+
  obtain answer where "cl_sent c5 = ?sent @ [answer]"
    using answer_challenge_True [OF second] four by metis
  then have six: "cl_sent c6 = ?sent @ [answer]"
    using which by (auto split: option.splits dest!: collect_key_sent)
  have key: "case known of Some k \<Rightarrow> key = k | None \<Rightarrow> trustkey pe"
    using which trusted by (auto split: option.splits)
  from send_session_key_True [OF third] six obtain secret
    where "public_encrypt cr key (take CF_BLOWFISHSIZE number_bytes) = Some secret"
      "cl_sent c' = ?sent @ [answer, secret]" "cl_key c' = Some (take CF_BLOWFISHSIZE number_bytes)"
    by auto
  with auth key body show ?thesis unfolding stored
    by (intro exI [of _ key] exI [of _ flag] exI [of _ answer] exI [of _ secret] exI [of _ body] conjI) simp_all
qed

section \<open>The two sides together\<close>

lemma text_no_nul: "until_nul (t @ nul # r) = t" if "list_all isdigit ds" "list_all isdigit es" "t = ''SAUTH y '' @ ds @ '' '' @ es"
proof -
  have no: "byte c \<noteq> (0 :: nat)" if "c \<in> set t" for c
    using that \<open>t = _\<close> \<open>list_all isdigit ds\<close> \<open>list_all isdigit es\<close> by (auto simp: list_all_iff isdigit_def)
  have "byte nul = (0 :: nat)" by (simp add: nul_def)
  with no [of nul] show ?thesis by (intro until_nul_text) auto
qed

lemma scan_word_sauth: "scan_word n (''SAUTH'' @ CHR '' '' # r) = (''SAUTH'', CHR '' '' # r)" if "5 \<le> n"
  using that by (simp add: scan_word_def isspace_def)

lemma auth_header_shown:
  assumes "a < 2 ^ 31" and "b < 2 ^ 31"
  shows "auth_header (''SAUTH y '' @ show_nat a @ '' '' @ show_nat b) = Inr (''SAUTH'', CHR ''y'', a, b)"
proof -
  have space: "scan_int (CHR '' '' # s) = scan_int s" for s by (simp add: scan_int_def isspace_def)
  have a: "scan_int (CHR '' '' # show_nat a @ CHR '' '' # show_nat b) = Some (int a, CHR '' '' # show_nat b)"
    unfolding space using scan_int_show [of "CHR '' '' # show_nat b" a] by (simp add: isdigit_def)
  have b: "scan_int (CHR '' '' # show_nat b) = Some (int b, [])"
    unfolding space using scan_int_show [of "[]" b] by simp
  have "unsigned_int (int n) = n" if "n < 2 ^ 31" for n
    using that by (simp add: unsigned_int_def long_clip_def)
  with a b assms show ?thesis
    using scan_word_sauth [of "length (''SAUTH y '' @ show_nat a @ '' '' @ show_nat b)" "''y '' @ show_nat a @ '' '' @ show_nat b"]
    by (simp add: auth_header_def isspace_def)
qed

lemma overlay_take:
  assumes "length t + 1 \<le> k"
  shows "take k (overlay (t @ [nul]) stale) = t @ nul # take (k - (length t + 1)) (drop (length t + 1) stale)"
  using assms by (auto simp: overlay_def take_Cons' Suc_diff_le)

lemma auth_nonce_challenge:
  assumes "length e \<le> 512" and "nonce \<noteq> []" and "length nonce \<le> length e" and "CF_RSA_PROTO_OFFSET \<le> length stale"
    and "private_decrypt cr e = Some nonce"
  shows "auth_nonce cr (challenge_message stale CHR ''y'' e (length nonce)) (length (challenge_message stale CHR ''y'' e (length nonce)))
    = Inr (Some (CHR ''y'', nonce))"
proof -
  let ?text = "''SAUTH y '' @ show_nat (length e) @ '' '' @ show_nat (length nonce)"
  let ?m = "challenge_message stale CHR ''y'' e (length nonce)"
  have "length (show_nat (length e)) \<le> 3" "length (show_nat (length nonce)) \<le> 3"
    using length_show_nat [of "length e" 2] length_show_nat [of "length nonce" 2] assms(1,3) by simp_all
  then have len: "length ?text + 1 \<le> CF_RSA_PROTO_OFFSET"
    by (simp add: CF_RSA_PROTO_OFFSET_def)
  have m: "?m = ?text @ nul # take (CF_RSA_PROTO_OFFSET - (length ?text + 1)) (drop (length ?text + 1) stale) @ e"
  proof -
    have whole: "''SAUTH '' @ [CHR ''y''] @ '' '' @ show_nat (length e) @ '' '' @ show_nat (length nonce) @ [nul] = ?text @ [nul]"
      by simp
    show ?thesis unfolding challenge_message_def whole overlay_take [OF len] by (simp only: append.assoc append_Cons)
  qed
  have size: "length ?m = CF_RSA_PROTO_OFFSET + length e"
    using assms(4) by (simp add: challenge_message_def overlay_def)
  have head: "until_nul ?m = ?text"
    unfolding m by (rule text_no_nul [OF show_nat_digits show_nat_digits refl])
  have header: "auth_header (until_nul ?m) = Inr (''SAUTH'', CHR ''y'', length e, length nonce)"
    unfolding head by (rule auth_header_shown) (use assms(1,3) in simp_all)
  have body: "mem_at ?m CF_RSA_PROTO_OFFSET (length e) = e"
  proof -
    have "drop CF_RSA_PROTO_OFFSET ?m = e"
      using assms(4) by (simp add: challenge_message_def overlay_def)
    with size show ?thesis by (simp add: mem_at_def)
  qed
  have bounds: "length nonce \<le> CF_NONCELEN * 2" "length e \<le> 2 * CF_NONCELEN" "length e \<noteq> 0" "length nonce \<noteq> 0"
    using assms(1-3) by (auto simp: CF_NONCELEN_def CF_BUFSIZE_def)
  show ?thesis
    unfolding auth_nonce_def header using bounds body size assms(3,5) \<open>nonce \<noteq> []\<close> by simp
qed

text \<open>
  What RSA promises for a message that is short enough: whoever has the private key reads what was
  encrypted with the public one, and the cipher text has the size of the key (1024 to 4096 bits).
\<close>

definition key_pair :: "crypto_env \<Rightarrow> crypto_env \<Rightarrow> rsa \<Rightarrow> bool" where
  "key_pair pub priv key = (\<forall>m. m \<noteq> [] \<and> length m \<le> 100 \<longrightarrow>
     (\<exists>e. public_encrypt pub key m = Some e \<and> private_decrypt priv e = Some m \<and> 128 \<le> length e \<and> length e \<le> 512))"

lemma key_pairE:
  assumes "key_pair pub priv key" and "m \<noteq> []" and "length m \<le> 100"
  obtains e where "public_encrypt pub key m = Some e" and "private_decrypt priv e = Some m"
    and "128 \<le> length e" and "length e \<le> 512" and "e \<noteq> []"
proof -
  obtain e where "public_encrypt pub key m = Some e" "private_decrypt priv e = Some m" "128 \<le> length e" "length e \<le> 512"
    using assms unfolding key_pair_def by blast
  moreover from this have "e \<noteq> []" by auto
  ultimately show ?thesis using that by blast
qed

lemma request_ok: "length m \<le> CF_BUFSIZE - CF_INBAND_OFFSET \<Longrightarrow> request m c = Inr (c\<lparr>cl_sent := cl_sent c @ [m]\<rparr>)"
  by (simp add: request_def)

lemma send_ok: "length m \<le> CF_BUFSIZE - CF_INBAND_OFFSET \<Longrightarrow> send m s = Inr (emit (Sent m) s)"
  by (simp add: send_def)

lemma CheckStoreKey_reply:
  "CheckStoreKey env cfg st conn key = Inr (st', conn', r, True) \<Longrightarrow>
     r = ''OK: key accepted'' \<or> r = ''OK: unknown key was accepted on trust''"
  by (auto simp: CheckStoreKey_def dynamic_key_def trust_new_key_def Let_def elim!: bind_outcome_InrE
      split: option.splits if_splits)

lemma delivers_receive:
  "delivers (s_inbox s) (m # ms) \<Longrightarrow> \<exists>segs. receive s = (Received m, s\<lparr>s_inbox := segs\<rparr>) \<and> delivers segs ms"
  by (auto simp: receive_def split: prod.splits)

lemma sizes: "CF_BUFSIZE - CF_INBAND_OFFSET = 4088" "CF_MD5_LEN = 16" "CF_BLOWFISHSIZE = 16"
  by (simp_all add: CF_BUFSIZE_def CF_INBAND_OFFSET_def CF_MD5_LEN_def CF_BLOWFISHSIZE_def)

text \<open>The two sides of an honest run, each with the messages of the other.\<close>

lemma honest_client:
  assumes "have_keypair cfg" and "ppkeys st (root_key_name (HostnameKeys cfg) pe) = Some key"
    and "2 \<le> rsa_e key" and "odd (rsa_e key)"
    and "public_encrypt cr key (bn_rand cr (keys_made st)) = Some e1" and "e1 \<noteq> []" and "length e1 \<le> 512"
    and "CF_RSA_PROTO_OFFSET \<le> length stale"
    and "length (own_modulus cr) \<le> 4088" and "length (own_exponent cr) \<le> 4088"
    and "\<And>x. length (md5 cr x) = 16" and "\<not> BadProtoReply (until_nul r)"
    and "ExpandVarstring (expansion sys) (Some (pe_server pe)) = Inr srv"
    and "delivers (cl_inbox c) [r, md5 cr (bn_rand cr (keys_made st)), e2]"
    and "private_decrypt cr e2 = Some chal" and "chal \<noteq> []" and "length chal = length (bn_rand cr (keys_made st))"
    and "16 \<le> length number_bytes" and "public_encrypt cr key (take 16 number_bytes) = Some e3"
    and "e3 \<noteq> []" and "length e3 \<le> 512"
  shows "\<exists>c'. KeyAuthentication sys cr cfg False stale number_bytes pe c st = Inr (c', st, True)
    \<and> cl_sent c' = cl_sent c @ [challenge_message stale CHR ''y'' e1 (length chal), own_modulus cr, own_exponent cr, md5 cr chal, e3]
    \<and> cl_key c' = Some (take 16 number_bytes)"
proof -
  let ?nonce = "bn_rand cr (keys_made st)"
  let ?m1 = "challenge_message stale CHR ''y'' e1 (length ?nonce)"
  have known: "HavePublicKey st (root_key_name (HostnameKeys cfg) pe) = Inr (Some key)"
    using assms(2-4) by (simp add: HavePublicKey_def)
  have body: "challenge_body cr (Some key) ?nonce = Some (CHR ''y'', e1)"
    using assms(5,6) by (simp add: challenge_body_def)
  have len: "length ?m1 \<le> 4088"
    using assms(7,8) by (simp add: challenge_message_def overlay_def CF_RSA_PROTO_OFFSET_def)
  obtain i1 i2 i3 where replies: "ReceiveTransaction (cl_inbox c) = (Received r, i1)"
      "ReceiveTransaction i1 = (Received (md5 cr ?nonce), i2)" "ReceiveTransaction i2 = (Received e2, i3)"
    using assms(14) by (auto simp: prod_eq_iff)
  have same: "ChecksumsMatch 16 (md5 cr ?nonce) (md5 cr ?nonce @ replicate 16 nul)"
    using assms(11) by (simp add: ChecksumsMatch_def nth_append list_all_iff)
  show ?thesis
    using assms(1,9-13,15-21) known body len replies same
    by (simp add: KeyAuthentication_def request_ok sizes server_answers_def reply_def answer_challenge_def
        send_session_key_def GenerateRandomSessionKey_def)
qed

lemma honest_server:
  assumes "have_keypair cfg" and "private_decrypt cr e1 = Some nonce" and "nonce \<noteq> []" and "length nonce \<le> 100"
    and "128 \<le> length e1" and "length e1 \<le> 512" and "CF_RSA_PROTO_OFFSET \<le> length stale"
    and "delivers (s_inbox s) [m2, m3, m4, e3]" and "m2 \<noteq> []" and "m3 \<noteq> []"
    and "mpi2bn cr m2 = Some (rsa_n ck)" and "mpi2bn cr m3 = Some (rsa_e ck)"
    and "rsa_bytes ck = rsa_struct cr (keys_made (s_keys s)) (rsa_n ck) (rsa_e ck)"
    and "CheckStoreKey env cfg (s_keys s\<lparr>keys_made := keys_made (s_keys s) + 1\<rparr>) (s_conn s) ck = Inr (keys, conn, r, True)"
    and "\<And>x. length (md5 cr x) = 16"
    and "public_encrypt cr ck (bn_rand cr (keys_made (s_keys s) + 1)) = Some e2" and "e2 \<noteq> []" and "length e2 \<le> 512"
    and "m4 = md5 cr (bn_rand cr (keys_made (s_keys s) + 1))"
    and "private_decrypt cr e3 = Some k" and "length k = 16" and "128 \<le> length e3" and "length e3 \<le> 512"
    and "15 \<le> rsa_size cr ck"
  shows "\<exists>s'. AuthenticationDialogue env cr cfg (challenge_message stale CHR ''y'' e1 (length nonce))
        (length (challenge_message stale CHR ''y'' e1 (length nonce))) s = Inr (s', True)
    \<and> s_done s' = s_done s @ map Sent [r, md5 cr nonce, e2] \<and> rsa_auth (s_conn s') \<and> session_key (s_conn s') = Some k"
proof -
  note nonce = auth_nonce_challenge [OF assms(6,3) _ assms(7,2)]
  obtain i1 i2 i3 i4 where received: "ReceiveTransaction (s_inbox s) = (Received m2, i1)"
      "ReceiveTransaction i1 = (Received m3, i2)" "ReceiveTransaction i2 = (Received m4, i3)"
      "ReceiveTransaction i3 = (Received e3, i4)"
    using assms(8) by (auto simp: prod_eq_iff)
  have ck: "ck = \<lparr>rsa_n = rsa_n ck, rsa_e = rsa_e ck, rsa_bytes = rsa_struct cr (keys_made (s_keys s)) (rsa_n ck) (rsa_e ck)\<rparr>"
    using assms(13) by simp
  let ?s1 = "s\<lparr>s_inbox := i2, s_keys := s_keys s\<lparr>keys_made := keys_made (s_keys s) + 1\<rparr>\<rparr>"
  have key: "auth_key cr s = (Some ck, ?s1)"
    using received(1,2) assms(9-12) by (subst ck) (simp add: auth_key_def auth_number_def receive_def)
  have made: "keys_made keys = keys_made (s_keys s) + 1"
    using CheckStoreKey_keys_made [OF assms(14)] by simp
  have answer: "mem_at m4 0 16 = m4" using assms(15,19) by (simp add: mem_at_def)
  let ?s2 = "emit (Sent r) (?s1\<lparr>s_keys := keys, s_conn := conn\<rparr>)"
  let ?s4 = "emit (Sent e2) (emit (Sent (md5 cr nonce)) ?s2)\<lparr>s_inbox := i3\<rparr>"
  have r: "length r \<le> 4088" using CheckStoreKey_reply [OF assms(14)] by auto
  have reply: "send r (?s1\<lparr>s_keys := keys, s_conn := conn\<rparr>) = Inr ?s2"
    by (rule send_ok) (use r in \<open>simp add: sizes\<close>)
  have chal: "auth_challenge cr CHR ''y'' nonce ck ?s2 = Inr (Some e2, ?s4)"
    using assms(15-19) received(3) made answer
    by (simp add: auth_challenge_def send_ok sizes receive_def)
  let ?s5 = "?s4\<lparr>s_inbox := i4, s_conn := conn\<lparr>session_key := Some k, rsa_auth := True\<rparr>\<rparr>"
  have "auth_session_key cr ck e2 ?s4 = Inr (?s5, True)"
    using assms(20-24) received(4) by (auto simp: auth_session_key_def receive_def sizes CF_BUFSIZE_def overlay_def)
  then have "AuthenticationDialogue env cr cfg (challenge_message stale CHR ''y'' e1 (length nonce))
        (length (challenge_message stale CHR ''y'' e1 (length nonce))) s = Inr (?s5, True)"
    using nonce assms(1,4,5,14) key reply chal by (simp add: AuthenticationDialogue_def)
  then show ?thesis by (intro exI [of _ ?s5]) simp
qed

text \<open>
  C16. An agent that knows the key of a server and a server that accepts the key of the agent
  authenticate each other and then hold the same session key: there are messages which, delivered to
  the other side, are exactly the messages the two sides send, and both sides end with success.
\<close>

theorem KeyAuthentication_AuthenticationDialogue:
  assumes "have_keypair cfgc" and "have_keypair cfgs"
    and "ppkeys st (root_key_name (HostnameKeys cfgc) pe) = Some sk" and "2 \<le> rsa_e sk" and "odd (rsa_e sk)"
    and "key_pair crc crs sk" and "key_pair crs crc ck" and "md5 crs = md5 crc" and "\<And>x. length (md5 crc x) = 16"
    and "bn_rand crc (keys_made st) = nonce" and "nonce \<noteq> []" and "length nonce \<le> 100"
    and "bn_rand crs (keys_made (s_keys s) + 1) = chal" and "length chal = length nonce"
    and "sendable (own_modulus crc)" and "mpi2bn crs (own_modulus crc) = Some (rsa_n ck)"
    and "sendable (own_exponent crc)" and "mpi2bn crs (own_exponent crc) = Some (rsa_e ck)"
    and "rsa_bytes ck = rsa_struct crs (keys_made (s_keys s)) (rsa_n ck) (rsa_e ck)" and "15 \<le> rsa_size crs ck"
    and "CheckStoreKey env cfgs (s_keys s\<lparr>keys_made := keys_made (s_keys s) + 1\<rparr>) (s_conn s) ck = Inr (keys, conn, r, True)"
    and "ExpandVarstring (expansion sys) (Some (pe_server pe)) = Inr srv"
    and "CF_RSA_PROTO_OFFSET \<le> length stale" and "16 \<le> length number_bytes"
  shows "\<exists>m1 ms rs. list_all sendable rs \<and> list_all sendable (m1 # ms) \<and> (\<forall>ci si. delivers ci rs \<longrightarrow> delivers si ms \<longrightarrow>
    (\<exists>c' s'. KeyAuthentication sys crc cfgc False stale number_bytes pe (c\<lparr>cl_inbox := ci\<rparr>) st = Inr (c', st, True)
      \<and> cl_sent c' = cl_sent c @ m1 # ms
      \<and> AuthenticationDialogue env crs cfgs m1 (length m1) (s\<lparr>s_inbox := si\<rparr>) = Inr (s', True)
      \<and> s_done s' = s_done s @ map Sent rs
      \<and> rsa_auth (s_conn s') \<and> session_key (s_conn s') = cl_key c' \<and> cl_key c' = Some (take 16 number_bytes)))"
proof -
  let ?k = "take 16 number_bytes"
  have k: "?k \<noteq> []" "length ?k = 16" using assms(24) by auto
  have chal: "chal \<noteq> []" "length chal \<le> 100" using assms(11,12,14) by auto
  obtain e1 where e1: "public_encrypt crc sk nonce = Some e1" "private_decrypt crs e1 = Some nonce"
    "128 \<le> length e1" "length e1 \<le> 512" "e1 \<noteq> []" using key_pairE [OF assms(6,11,12)] .
  obtain e2 where e2: "public_encrypt crs ck chal = Some e2" "private_decrypt crc e2 = Some chal"
    "128 \<le> length e2" "length e2 \<le> 512" "e2 \<noteq> []" using key_pairE [OF assms(7) chal] .
  obtain e3 where e3: "public_encrypt crc sk ?k = Some e3" "private_decrypt crs e3 = Some ?k"
    "128 \<le> length e3" "length e3 \<le> 512" "e3 \<noteq> []"
    using key_pairE [OF assms(6) k(1)] k(2) by auto
  have r: "\<not> BadProtoReply (until_nul r)" "sendable r"
    using CheckStoreKey_reply [OF assms(21)]
    by (auto simp: BadProtoReply_def until_nul_def strncmp_eq_def sendable_def sizes)
  let ?m1 = "challenge_message stale CHR ''y'' e1 (length nonce)"
  let ?ms = "[own_modulus crc, own_exponent crc, md5 crc chal, e3]" and ?rs = "[r, md5 crc nonce, e2]"
  have own: "length (own_modulus crc) \<le> 4088" "length (own_exponent crc) \<le> 4088" "own_modulus crc \<noteq> []" "own_exponent crc \<noteq> []"
    using assms(15,17) by (simp_all add: sendable_def sizes)
  have digest: "sendable (md5 crc x)" for x using assms(9) [of x] by (auto simp: sendable_def sizes)
  have "list_all sendable ?rs" "list_all sendable (?m1 # ?ms)"
    using r(2) digest e1 e2 e3 assms(15,17,23)
    by (simp_all add: sendable_def sizes challenge_message_def overlay_def CF_RSA_PROTO_OFFSET_def)
  moreover have client: "\<exists>c'. KeyAuthentication sys crc cfgc False stale number_bytes pe (c\<lparr>cl_inbox := ci\<rparr>) st = Inr (c', st, True)
      \<and> cl_sent c' = cl_sent c @ ?m1 # ?ms \<and> cl_key c' = Some ?k" if "delivers ci ?rs" for ci
    using honest_client [OF assms(1,3-5), of crc e1 stale r sys srv "c\<lparr>cl_inbox := ci\<rparr>" e2 chal number_bytes e3]
      that e1 e2 e3 own r(1) chal(1) assms(9,10,14,22-24) by simp
  moreover have server: "\<exists>s'. AuthenticationDialogue env crs cfgs ?m1 (length ?m1) (s\<lparr>s_inbox := si\<rparr>) = Inr (s', True)
      \<and> s_done s' = s_done s @ map Sent ?rs \<and> rsa_auth (s_conn s') \<and> session_key (s_conn s') = Some ?k"
    if del: "delivers si ?ms" for si
  proof -
    have digests: "length (md5 crs x) = 16" for x using assms(8,9) by simp
    let ?s = "s\<lparr>s_inbox := si\<rparr>"
    have sel: "s_keys ?s = s_keys s" "s_conn ?s = s_conn s" "s_inbox ?s = si" "s_done ?s = s_done s" by simp_all
    note run = honest_server [where s = ?s and ?m2.0 = "own_modulus crc" and ?m3.0 = "own_exponent crc"
        and ?m4.0 = "md5 crc chal" and ck = ck and ?e2.0 = e2 and k = ?k and ?e3.0 = e3 and cr = crs and cfg = cfgs
        and ?e1.0 = e1 and nonce = nonce and stale = stale and env = env and keys = keys and conn = conn and r = r,
        unfolded sel assms(8,13)]
    show ?thesis
      by (rule run [OF assms(2) e1(2) assms(11,12) e1(3,4) assms(23) del own(3,4) assms(16,18,19,21) assms(9)
            e2(1,5,4) refl e3(2) k(2) e3(3,4) assms(20)])
  qed
  moreover have "\<exists>c' s'. KeyAuthentication sys crc cfgc False stale number_bytes pe (c\<lparr>cl_inbox := ci\<rparr>) st = Inr (c', st, True)
      \<and> cl_sent c' = cl_sent c @ ?m1 # ?ms
      \<and> AuthenticationDialogue env crs cfgs ?m1 (length ?m1) (s\<lparr>s_inbox := si\<rparr>) = Inr (s', True)
      \<and> s_done s' = s_done s @ map Sent ?rs
      \<and> rsa_auth (s_conn s') \<and> session_key (s_conn s') = cl_key c' \<and> cl_key c' = Some ?k"
    if del: "delivers ci ?rs" "delivers si ?ms" for ci si
  proof -
    obtain c' where "KeyAuthentication sys crc cfgc False stale number_bytes pe (c\<lparr>cl_inbox := ci\<rparr>) st = Inr (c', st, True)"
      "cl_sent c' = cl_sent c @ ?m1 # ?ms" "cl_key c' = Some ?k" using client [OF del(1)] by blast
    moreover obtain s' where "AuthenticationDialogue env crs cfgs ?m1 (length ?m1) (s\<lparr>s_inbox := si\<rparr>) = Inr (s', True)"
      "s_done s' = s_done s @ map Sent ?rs" "rsa_auth (s_conn s')" "session_key (s_conn s') = Some ?k"
      using server [OF del(2)] by blast
    ultimately show ?thesis by (intro exI [of _ c'] exI [of _ s']) (simp only: simp_thms)
  qed
  ultimately show ?thesis by (intro exI [of _ ?m1] exI [of _ ?ms] exI [of _ ?rs] conjI allI impI)
qed

text \<open>A toy cipher that keeps the promise, for the witnesses: the length, the message and a filling.\<close>

definition toy_encrypt :: "rsa \<Rightarrow> string \<Rightarrow> string option" where
  "toy_encrypt key m =
     (if length m \<le> 100 then Some (char_of (length m) # m @ replicate (127 - length m) nul) else None)"

definition toy_decrypt :: "string \<Rightarrow> string option" where
  "toy_decrypt e = (case e of [] \<Rightarrow> None | n # r \<Rightarrow> Some (take (byte n) r))"

lemma toy_key_pair: "public_encrypt a = toy_encrypt \<Longrightarrow> private_decrypt b = toy_decrypt \<Longrightarrow> key_pair a b key"
  by (auto simp: key_pair_def toy_encrypt_def toy_decrypt_def)

theorem KeyAuthentication_AuthenticationDialogue_witness:
  "\<exists>sys cr cfg pe c st env m1 s c' s'.
     KeyAuthentication sys cr cfg False (replicate 24 nul) ''kkkkkkkkkkkkkkkk'' pe c st = Inr (c', st, True)
   \<and> AuthenticationDialogue env cr cfg m1 (length m1) s = Inr (s', True)
   \<and> hd (cl_sent c') = m1 \<and> session_key (s_conn s') = cl_key c' \<and> cl_key c' = Some ''kkkkkkkkkkkkkkkk''"
proof -
  let ?cr = "\<lparr>private_decrypt = toy_decrypt, public_encrypt = toy_encrypt, md5 = \<lambda>_. ''dddddddddddddddd'',
    mpi2bn = \<lambda>m. Some 3, rsa_struct = \<lambda>_ _ _. ''k'', rsa_size = \<lambda>_. 128,
    bn_rand = \<lambda>_. ''r'', own_modulus = ''N'', own_exponent = ''E'', heap_bytes = ''h''\<rparr>"
  let ?ck = "\<lparr>rsa_n = 3, rsa_e = 3, rsa_bytes = ''k''\<rparr>"
  let ?cfg = "\<lparr>DHCPLIST = [], TRUSTKEYLIST = [], HostnameKeys = False, have_keypair = True\<rparr>"
  let ?st = "\<lparr>SKIPVERIFY = [], ppkeys = \<lambda>_. Some ?ck, dynamic_db = \<lambda>_. None, keys_made = 0\<rparr>"
  let ?sys = "undefined\<lparr>expansion := \<lparr>VARIABLES = False, VARCH = [], VARCH2 = []\<rparr>\<rparr>"
  let ?pe = "\<lparr>pe_server = [], remoteip = ''10.0.0.2'', trustkey = False\<rparr>"
  let ?s = "\<lparr>s_conn = NewConn\<lparr>ipaddr := ''10.0.0.1''\<rparr>, s_keys = ?st, s_inbox = [], s_done = []\<rparr>"
  let ?c = "\<lparr>cl_key = None, cl_inbox = [], cl_sent = []\<rparr>"
  have "\<exists>keys. CheckStoreKey undefined ?cfg (?st\<lparr>keys_made := 1\<rparr>) (s_conn ?s) ?ck
      = Inr (keys, s_conn ?s, ''OK: key accepted'', True)"
    by (simp add: CheckStoreKey_def HavePublicKey_def)
  then obtain keys where stored: "CheckStoreKey undefined ?cfg (?st\<lparr>keys_made := 1\<rparr>) (s_conn ?s) ?ck
      = Inr (keys, s_conn ?s, ''OK: key accepted'', True)" by blast
  have "\<exists>m1 ms rs. list_all sendable rs \<and> list_all sendable (m1 # ms) \<and> (\<forall>ci si. delivers ci rs \<longrightarrow> delivers si ms \<longrightarrow>
    (\<exists>c' s'. KeyAuthentication ?sys ?cr ?cfg False (replicate 24 nul) ''kkkkkkkkkkkkkkkk'' ?pe (?c\<lparr>cl_inbox := ci\<rparr>) ?st = Inr (c', ?st, True)
      \<and> cl_sent c' = cl_sent ?c @ m1 # ms
      \<and> AuthenticationDialogue undefined ?cr ?cfg m1 (length m1) (?s\<lparr>s_inbox := si\<rparr>) = Inr (s', True)
      \<and> s_done s' = s_done ?s @ map Sent rs
      \<and> rsa_auth (s_conn s') \<and> session_key (s_conn s') = cl_key c' \<and> cl_key c' = Some (take 16 ''kkkkkkkkkkkkkkkk'')))"
    by (rule KeyAuthentication_AuthenticationDialogue [where nonce = "''r''" and chal = "''r''" and sk = ?ck and ck = ?ck
          and keys = keys and conn = "s_conn ?s" and r = "''OK: key accepted''" and srv = "[]"])
      (use stored in \<open>simp_all add: toy_key_pair sendable_def sizes CF_RSA_PROTO_OFFSET_def ExpandVarstring_def\<close>)
  then obtain m1 ms rs where ok: "list_all sendable rs" "list_all sendable (m1 # ms)"
    and run: "\<forall>ci si. delivers ci rs \<longrightarrow> delivers si ms \<longrightarrow>
    (\<exists>c' s'. KeyAuthentication ?sys ?cr ?cfg False (replicate 24 nul) ''kkkkkkkkkkkkkkkk'' ?pe (?c\<lparr>cl_inbox := ci\<rparr>) ?st = Inr (c', ?st, True)
      \<and> cl_sent c' = cl_sent ?c @ m1 # ms
      \<and> AuthenticationDialogue undefined ?cr ?cfg m1 (length m1) (?s\<lparr>s_inbox := si\<rparr>) = Inr (s', True)
      \<and> s_done s' = s_done ?s @ map Sent rs
      \<and> rsa_auth (s_conn s') \<and> session_key (s_conn s') = cl_key c' \<and> cl_key c' = Some (take 16 ''kkkkkkkkkkkkkkkk''))"
    by blast
  from ok have "delivers [Data (concat (map wire rs))] rs" "delivers [Data (concat (map wire ms))] ms"
    by (simp_all add: delivers_wire)
  with run obtain c' s' where "KeyAuthentication ?sys ?cr ?cfg False (replicate 24 nul) ''kkkkkkkkkkkkkkkk'' ?pe
        (?c\<lparr>cl_inbox := [Data (concat (map wire rs))]\<rparr>) ?st = Inr (c', ?st, True)"
    and sent: "cl_sent c' = cl_sent ?c @ m1 # ms"
    and "AuthenticationDialogue undefined ?cr ?cfg m1 (length m1) (?s\<lparr>s_inbox := [Data (concat (map wire ms))]\<rparr>) = Inr (s', True)"
    and same: "session_key (s_conn s') = cl_key c'" and key: "cl_key c' = Some (take 16 ''kkkkkkkkkkkkkkkk'')" by blast
  moreover have "hd (cl_sent c') = m1" using sent by simp
  moreover have "cl_key c' = Some ''kkkkkkkkkkkkkkkk''" using key by simp
  ultimately show ?thesis using same by (intro exI conjI)
qed

theorem KeyAuthentication_accepts_witness:
  "\<exists>sys cr cfg pe c st c' st'. KeyAuthentication sys cr cfg False (replicate 24 nul) ''kkkkkkkkkkkkkkkk'' pe c st = Inr (c', st', True)
     \<and> authentic cr (bn_rand cr (keys_made st)) c \<and> cl_key c' = Some (take CF_BLOWFISHSIZE ''kkkkkkkkkkkkkkkk'')"
proof -
  let ?cr = "\<lparr>private_decrypt = toy_decrypt, public_encrypt = toy_encrypt, md5 = \<lambda>_. ''dddddddddddddddd'',
    mpi2bn = \<lambda>m. Some 3, rsa_struct = \<lambda>_ _ _. ''k'', rsa_size = \<lambda>_. 128,
    bn_rand = \<lambda>_. ''r'', own_modulus = ''N'', own_exponent = ''E'', heap_bytes = ''h''\<rparr>"
  let ?cfg = "\<lparr>DHCPLIST = [], TRUSTKEYLIST = [], HostnameKeys = False, have_keypair = True\<rparr>"
  let ?key = "\<lparr>rsa_n = 3, rsa_e = 3, rsa_bytes = ''k''\<rparr>"
  let ?st = "\<lparr>SKIPVERIFY = [], ppkeys = \<lambda>_. Some ?key, dynamic_db = \<lambda>_. None, keys_made = 0\<rparr>"
  let ?sys = "undefined\<lparr>expansion := \<lparr>VARIABLES = False, VARCH = [], VARCH2 = []\<rparr>\<rparr>"
  let ?pe = "\<lparr>pe_server = [], remoteip = ''10.0.0.2'', trustkey = False\<rparr>"
  let ?e2 = "the (toy_encrypt ?key ''c'')"
  let ?rs = "[''OK:'', ''dddddddddddddddd'', ?e2]"
  let ?c = "\<lparr>cl_key = None, cl_inbox = [Data (concat (map wire ?rs))], cl_sent = []\<rparr>"
  have "list_all sendable ?rs" by (simp add: sendable_def sizes toy_encrypt_def)
  then have del: "delivers (cl_inbox ?c) ?rs" by (simp only: client.select_convs delivers_wire)
  obtain c' where c': "KeyAuthentication ?sys ?cr ?cfg False (replicate 24 nul) ''kkkkkkkkkkkkkkkk'' ?pe ?c ?st = Inr (c', ?st, True)"
    using honest_client [of ?cfg ?st ?pe ?key ?cr "the (toy_encrypt ?key ''r'')" "replicate 24 nul" "''OK:''" ?sys "[]" ?c ?e2 "''c''"
        "''kkkkkkkkkkkkkkkk''" "the (toy_encrypt ?key ''kkkkkkkkkkkkkkkk'')"] del
    by (auto simp: toy_encrypt_def toy_decrypt_def CF_RSA_PROTO_OFFSET_def BadProtoReply_def until_nul_def strncmp_eq_def
        ExpandVarstring_def simp del: delivers.simps)
  note seen = KeyAuthentication_accepts [OF c']
  then show ?thesis using c' by blast
qed

text \<open>The name and the user an agent announces.\<close>

definition word_ok :: "string \<Rightarrow> bool" where
  "word_ok w = (w \<noteq> [] \<and> length w \<le> 255 \<and> (\<forall>c \<in> set w. \<not> isspace c \<and> c \<noteq> nul))"

lemma until_nul_all: "nul \<notin> set s \<Longrightarrow> until_nul s = s"
  unfolding until_nul_def takeWhile_eq_all_conv by (metis nul_iff)

lemma scan_word_space: "scan_word n (CHR '' '' # s) = scan_word n s"
  by (simp add: scan_word_def isspace_def)

lemma scan_word_ok:
  assumes "word_ok w"
  shows "scan_word 255 (w @ CHR '' '' # r) = (w, CHR '' '' # r)"
proof -
  have "takeWhile (\<lambda>c. \<not> isspace c) (w @ CHR '' '' # r) = w"
    using assms by (simp add: word_ok_def takeWhile_append2 isspace_def)
  moreover have "dropWhile isspace (w @ CHR '' '' # r) = w @ CHR '' '' # r"
    using assms by (cases w) (auto simp: word_ok_def)
  ultimately show ?thesis using assms by (simp add: scan_word_def word_ok_def)
qed

text \<open>
  C17. A server takes the client that connects for the host and the user the agent announces, in small
  letters: what \<open>IdentifyForVerification\<close> sends is what \<open>VerifyConnection\<close> reads.
\<close>

theorem IdentifyForVerification_VerifyConnection:
  assumes "own_identity h family = Inr (Some (ip, dns))" and "announced_name h ip dns = Inr name"
    and "user_name h = Some user" and "word_ok ip" and "word_ok name" and "word_ok user"
    and "ToLowerStr name = Inr lower" and "\<not> trust (s_conn s)"
  shows "\<exists>c' m s'. IdentifyForVerification h family c = Inr (c', ip, True) \<and> cl_sent c' = cl_sent c @ [m]
    \<and> cauth_request sv m s = Inr (s', True) \<and> id_verified (s_conn s')
    \<and> hostname (s_conn s') = lower \<and> username (s_conn s') = user"
proof -
  let ?sig = "show_int (as_int (CFSIGNATURE h))"
  let ?words = "ip @ CHR '' '' # name @ CHR '' '' # user @ '' ''"
  obtain a where a: "a = ''CAUTH '' @ ?words" by blast
  let ?rest = "take (CF_BUFSIZE - 2 - length a) ?sig"
  have fits: "length a \<le> CF_BUFSIZE - 2" using assms(4-6) by (simp add: a word_ok_def CF_BUFSIZE_def)
  have long: "''CAUTH '' @ ip @ '' '' @ name @ '' '' @ user @ '' '' @ ?sig = a @ ?sig" by (simp add: a)
  have m: "take (CF_BUFSIZE - 2) (a @ ?sig) = a @ ?rest" using fits by simp
  have len: "length (a @ ?rest) \<le> 4088"
  proof -
    have "length ip \<le> 255" "length name \<le> 255" "length user \<le> 255" "length ?rest \<le> 14"
      using assms(4-6) fits_as_int [of "CFSIGNATURE h"] by (auto simp: word_ok_def fits_def)
    then show ?thesis by (simp add: a)
  qed
  let ?c' = "c\<lparr>cl_sent := cl_sent c @ [a @ ?rest]\<rparr>"
  have sent: "IdentifyForVerification h family c = Inr (?c', ip, True)"
  proof -
    have "request (take (CF_BUFSIZE - 2) (''CAUTH '' @ ip @ '' '' @ name @ '' '' @ user @ '' '' @ ?sig)) c = Inr ?c'"
      unfolding long m by (rule request_ok) (use len in \<open>simp only: sizes\<close>)
    then show ?thesis
      unfolding IdentifyForVerification_def by (simp only: assms(1-3) bind_outcome_simps Let_def option.case prod.case)
  qed
  have no: "c \<noteq> nul" if "c \<in> set (?words @ ?rest)" for c
  proof -
    have "CHR '' '' \<noteq> nul" "\<not> isdigit nul" "CHR ''-'' \<noteq> nul" by code_simp+
    with that assms(4-6) show_int_chars [of c "as_int (CFSIGNATURE h)"] show ?thesis
      by (auto simp: word_ok_def dest: in_set_takeD)
  qed
  have "until_nul (drop (length ''CAUTH '') (a @ ?rest)) = ?words @ ?rest"
    using until_nul_all [of "?words @ ?rest"] no by (auto simp: a)
  then have read: "until_nul (drop (length ''CAUTH '') (a @ ?rest))
      = ip @ CHR '' '' # name @ CHR '' '' # user @ CHR '' '' # ?rest" by simp
  have words: "scan_word 255 (ip @ CHR '' '' # r) = (ip, CHR '' '' # r)"
      "scan_word 255 (CHR '' '' # name @ CHR '' '' # r) = (name, CHR '' '' # r)"
      "scan_word 255 (CHR '' '' # user @ CHR '' '' # r) = (user, CHR '' '' # r)" for r
    using assms(4-6) by (simp_all add: scan_word_space scan_word_ok)
  have "\<exists>s'. cauth_request sv (a @ ?rest) s = Inr (s', True) \<and> id_verified (s_conn s')
      \<and> hostname (s_conn s') = lower \<and> username (s_conn s') = user"
    using assms(7,8) unfolding cauth_request_def read VerifyConnection_def words by (simp add: words)
  with sent show ?thesis by auto
qed

theorem IdentifyForVerification_VerifyConnection_witness:
  "\<exists>h c c' sv s m s'. IdentifyForVerification h AF_INET c = Inr (c', ''10.0.0.9'', True) \<and> cl_sent c' = [m]
     \<and> cauth_request sv m s = Inr (s', True) \<and> hostname (s_conn s') = ''a.cf.org'' \<and> username (s_conn s') = ''mark''"
proof -
  let ?h = "\<lparr>SKIPIDENTIFY = True, VDOMAIN = ''cf.org'', VFQNAME = ''A'', VIPADDRESS = ''10.0.0.9'',
      socket_address = None, socket_name = None, user_name = Some ''mark'', CFSIGNATURE = 0\<rparr>"
  let ?s = "\<lparr>s_conn = NewConn\<lparr>ipaddr := ''10.0.0.9''\<rparr>, s_keys = undefined, s_inbox = [], s_done = []\<rparr>"
  let ?c = "\<lparr>cl_key = None, cl_inbox = [], cl_sent = []\<rparr>"
  have name: "announced_name ?h ''10.0.0.9'' ''A'' = Inr ''A.cf.org''" "ToLowerStr ''A.cf.org'' = Inr ''a.cf.org''"
    by code_simp+
  have words: "word_ok ''10.0.0.9''" "word_ok ''A.cf.org''" "word_ok ''mark''" by code_simp+
  have "\<exists>c' m s'. IdentifyForVerification ?h AF_INET ?c = Inr (c', ''10.0.0.9'', True) \<and> cl_sent c' = cl_sent ?c @ [m]
      \<and> cauth_request undefined m ?s = Inr (s', True) \<and> id_verified (s_conn s')
      \<and> hostname (s_conn s') = ''a.cf.org'' \<and> username (s_conn s') = ''mark''"
    by (rule IdentifyForVerification_VerifyConnection [OF _ name(1) _ words name(2)])
      (simp_all add: own_identity_def NewConn_def)
  then obtain c' m s' where "IdentifyForVerification ?h AF_INET ?c = Inr (c', ''10.0.0.9'', True)"
    and sent: "cl_sent c' = cl_sent ?c @ [m]" and "cauth_request undefined m ?s = Inr (s', True)"
    and "hostname (s_conn s') = ''a.cf.org''" "username (s_conn s') = ''mark''" by blast
  moreover have "cl_sent c' = [m]" using sent by simp
  ultimately show ?thesis by (intro exI conjI)
qed

text \<open>The session key of a new server is not asked for where the server is known.\<close>

lemma CheckRemoteVersion_old: "reply (c\<lparr>cl_sent := cl_sent c @ [''VERSION'']\<rparr>) = (Received ''BAD: x'', c') \<Longrightarrow>
    CheckRemoteVersion c v = Inr (c', 0)"
  by (simp add: CheckRemoteVersion_def request_ok sizes BadProtoReply_def until_nul_def strncmp_eq_def)

end
