(* ===== verification/Modes.thy ===== *)
theory Modes
  imports ItemEdit "HOL-Library.Word"
begin

text \<open>
  modes.c, chflags.c and the test for modes of filters.c: strings such as \<open>u=rwx,go-w\<close> or \<open>0644\<close>
  become two masks, the bits to set and the bits to clear. A \<open>mode_t\<close> is a word of 32 bits. Errors are
  counted by \<open>yyerror\<close>; the eleventh ends the program.
\<close>

unbundle bit_operations_syntax

type_synonym mode_t = "32 word"

datatype modestate = wild | who | which

datatype modesort = unknown | numeric | symbolic

record mode_parser =
  mp_action :: char
  mp_value :: mode_t
  mp_affected :: mode_t
  mp_gotaction :: bool
  mp_state :: modestate
  mp_found_sort :: modesort
  mp_sort :: modesort
  plusmask :: mode_t
  minusmask :: mode_t
  ERRORCOUNT :: nat

subsection \<open>Parsing\<close>

definition yyerror :: "mode_parser \<Rightarrow> mode_parser outcome" where
  "yyerror st = (let n = ERRORCOUNT st + 1 in
     if n > 10 then Inl (FatalErr ''Too many errors'') else Inr (st\<lparr>ERRORCOUNT := n\<rparr>))"

definition CheckModeState :: "modestate \<Rightarrow> modesort \<Rightarrow> mode_parser \<Rightarrow> mode_parser outcome" where
  "CheckModeState stateA sortA st =
     bind_outcome
       (if stateA \<noteq> wild \<and> mp_state st \<noteq> wild \<and> stateA \<noteq> mp_state st then yyerror st else Inr st)
       (\<lambda>st1. if sortA \<noteq> unknown \<and> mp_sort st \<noteq> unknown \<and> sortA \<noteq> mp_sort st then yyerror st1 else Inr st1)"

definition SetMask :: "mode_parser \<Rightarrow> mode_parser outcome" where
  "SetMask st =
     (if mp_action st = CHR ''+'' then Inr (st\<lparr>plusmask := plusmask st OR mp_value st\<rparr>)
      else if mp_action st = CHR ''-'' then Inr (st\<lparr>minusmask := minusmask st OR mp_value st\<rparr>)
      else if mp_action st = CHR ''='' then
        Inr (st\<lparr>plusmask := plusmask st OR mp_value st,
                minusmask := minusmask st OR (NOT (mp_value st) AND 0xFFF AND mp_affected st)\<rparr>)
      else yyerror st)"

definition who_bits :: "char \<Rightarrow> mode_t option" where
  "who_bits c = (if c = CHR ''a'' then Some 0xFFF else if c = CHR ''u'' then Some 0x9C0
     else if c = CHR ''g'' then Some 0x438 else if c = CHR ''o'' then Some 0x007 else None)"

definition perm_bits :: "char \<Rightarrow> mode_t \<Rightarrow> mode_t option" where
  "perm_bits c affected = (if c = CHR ''r'' then Some (0x124 AND affected)
     else if c = CHR ''w'' then Some (0x092 AND affected)
     else if c = CHR ''x'' then Some (0x049 AND affected)
     else if c = CHR ''s'' then Some (0xC00 AND affected)
     else if c = CHR ''t'' then Some 0x200 else None)"

definition isodigit :: "char \<Rightarrow> bool" where
  "isodigit c = (48 \<le> byte c \<and> byte c \<le> 55)"

text \<open>\<open>sscanf (sp, "%o", &value)\<close>: the number, clipped to a long, in 32 bits.\<close>

definition octal_value :: "string \<Rightarrow> nat" where
  "octal_value s = foldl (\<lambda>n c. 8 * n + (byte c - 48)) 0 (takeWhile isodigit s)"

definition scan_octal :: "string \<Rightarrow> mode_t" where
  "scan_octal s = word_of_int (min (int (octal_value s)) (2 ^ 64 - 1))"

text \<open>One character, or the digits from here on; the string behind it is the result's second part.\<close>

definition mode_step :: "char \<Rightarrow> string \<Rightarrow> mode_parser \<Rightarrow> (mode_parser \<times> string) outcome" where
  "mode_step c cs st =
     (case who_bits c of
        Some bits \<Rightarrow> bind_outcome (CheckModeState who symbolic st) (\<lambda>st1.
          Inr (st1\<lparr>mp_affected := mp_affected st OR bits, mp_sort := symbolic\<rparr>, cs))
      | None \<Rightarrow>
          (case perm_bits c (mp_affected st) of
             Some bits \<Rightarrow> bind_outcome (CheckModeState which symbolic st) (\<lambda>st1.
               Inr (st1\<lparr>mp_value := mp_value st OR bits, mp_sort := symbolic\<rparr>, cs))
           | None \<Rightarrow>
               if c \<in> set ''+-='' then
                 bind_outcome (if mp_gotaction st then yyerror st else Inr st) (\<lambda>st1.
                 bind_outcome (CheckModeState who symbolic st1) (\<lambda>st2.
                   Inr (st2\<lparr>mp_action := c, mp_state := which, mp_gotaction := True, mp_sort := unknown\<rparr>, cs)))
               else if isodigit c then
                 bind_outcome (CheckModeState which numeric st) (\<lambda>st1.
                   let st2 = st1\<lparr>mp_sort := numeric, mp_gotaction := True, mp_state := which,
                         mp_affected := 0xFFF, mp_value := scan_octal (c # cs)\<rparr> in
                   bind_outcome (if 0xFFF <s mp_value st2 then yyerror st2 else Inr st2)
                     (\<lambda>st3. Inr (st3, dropWhile isdigit cs)))
               else if c = CHR '','' then
                 bind_outcome (SetMask st) (\<lambda>st1.
                   Inr (st1\<lparr>mp_found_sort := mp_sort st, mp_sort := unknown, mp_action := CHR ''='',
                     mp_affected := 0, mp_value := 0, mp_gotaction := False, mp_state := who\<rparr>, cs))
               else bind_outcome (yyerror st) (\<lambda>st1. Inr (st1, cs))))"

lemma mode_step_rest: "mode_step c cs st = Inr (st', cs') \<Longrightarrow> length cs' \<le> length cs"
  by (auto simp: mode_step_def intro: length_dropWhile_le split: option.splits if_splits elim!: bind_outcome_InrE)

function mode_loop :: "string \<Rightarrow> mode_parser \<Rightarrow> mode_parser outcome" where
  "mode_loop [] st = SetMask st"
| "mode_loop (c # cs) st = (case mode_step c cs st of
       Inl e \<Rightarrow> Inl e
     | Inr (st', cs') \<Rightarrow> mode_loop cs' st')"
  by pat_completeness auto

termination
  by (relation "measure (\<lambda>(cs, st). length cs)") (auto dest: mode_step_rest)

definition mode_start :: "nat \<Rightarrow> mode_parser" where
  "mode_start errors = \<lparr>mp_action = CHR ''='', mp_value = 0, mp_affected = 0, mp_gotaction = False,
     mp_state = wild, mp_found_sort = unknown, mp_sort = unknown, plusmask = 0, minusmask = 0,
     ERRORCOUNT = errors\<rparr>"

text \<open>The masks and the count of errors afterwards; a NULL string leaves them as they are.\<close>

definition ParseModeString :: "string option \<Rightarrow> mode_t \<times> mode_t \<Rightarrow> nat \<Rightarrow> ((mode_t \<times> mode_t) \<times> nat) outcome" where
  "ParseModeString modestring masks errors = (case modestring of
       None \<Rightarrow> Inr (masks, errors)
     | Some s \<Rightarrow> bind_outcome (mode_loop s (mode_start errors)) (\<lambda>st.
         Inr ((plusmask st, minusmask st), ERRORCOUNT st)))"

definition new_perm :: "mode_t \<times> mode_t \<Rightarrow> mode_t \<Rightarrow> mode_t" where
  "new_perm masks mode = ((mode AND 0xFFF) OR fst masks) AND NOT (snd masks)"

definition FilterModeMatch :: "mode_t \<Rightarrow> string \<Rightarrow> nat \<Rightarrow> (bool \<times> nat) outcome" where
  "FilterModeMatch mode crit errors = bind_outcome (ParseModeString (Some crit) (0, 0) errors) (\<lambda>(masks, n).
     Inr (new_perm masks mode AND 0xFFF = mode AND 0xFFF, n))"

section \<open>Mode strings mean what chmod makes of them\<close>

text \<open>The clauses of a symbolic string, and what one clause does to the permissions of a file.\<close>

datatype mode_clause = Clause string char string

fun clause_ok :: "mode_clause \<Rightarrow> bool" where
  "clause_ok (Clause ws opr ps) =
     (ws \<noteq> [] \<and> ps \<noteq> [] \<and> set ws \<subseteq> set ''augo'' \<and> opr \<in> set ''+-='' \<and> set ps \<subseteq> set ''rwxst'')"

fun clause_text :: "mode_clause \<Rightarrow> string" where
  "clause_text (Clause ws opr ps) = ws @ opr # ps"

fun clauses_text :: "mode_clause list \<Rightarrow> string" where
  "clauses_text [] = []"
| "clauses_text [c] = clause_text c"
| "clauses_text (c # cs) = clause_text c @ CHR '','' # clauses_text cs"

definition who_mask :: "string \<Rightarrow> mode_t" where
  "who_mask ws = foldr (\<lambda>c m. the (who_bits c) OR m) ws 0"

definition perm_mask :: "string \<Rightarrow> mode_t \<Rightarrow> mode_t" where
  "perm_mask ps affected = foldr (\<lambda>c m. the (perm_bits c affected) OR m) ps 0"

fun chmod :: "mode_clause \<Rightarrow> mode_t \<Rightarrow> mode_t" where
  "chmod (Clause ws opr ps) mode =
     (let affected = who_mask ws; v = perm_mask ps affected in
      if opr = CHR ''+'' then mode OR v
      else if opr = CHR ''-'' then mode AND NOT v
      else (mode AND NOT affected) OR v)"

text \<open>The masks of one clause.\<close>

fun clause_plus :: "mode_clause \<Rightarrow> mode_t" where
  "clause_plus (Clause ws opr ps) = (if opr = CHR ''-'' then 0 else perm_mask ps (who_mask ws))"

fun clause_minus :: "mode_clause \<Rightarrow> mode_t" where
  "clause_minus (Clause ws opr ps) =
     (let v = perm_mask ps (who_mask ws) in
      if opr = CHR ''-'' then v
      else if opr = CHR ''='' then NOT v AND 0xFFF AND who_mask ws else 0)"

definition sum_masks :: "(mode_clause \<Rightarrow> mode_t) \<Rightarrow> mode_clause list \<Rightarrow> mode_t" where
  "sum_masks f cs = foldr (\<lambda>c m. f c OR m) cs 0"

lemma who_bits_small: "who_bits c = Some b \<Longrightarrow> b AND 0xFFF = b"
  by (auto simp: who_bits_def split: if_splits)

lemma who_mask_small: "set ws \<subseteq> set ''augo'' \<Longrightarrow> who_mask ws AND 0xFFF = who_mask ws"
proof (induction ws)
  case (Cons w ws)
  then obtain b where b: "who_bits w = Some b" by (auto simp: who_bits_def)
  have "(b OR who_mask ws) AND 0xFFF = (b AND 0xFFF) OR (who_mask ws AND 0xFFF)"
    by (simp add: bit.conj_disj_distrib2)
  with Cons b who_bits_small [OF b] show ?case by (simp add: who_mask_def)
qed (simp add: who_mask_def)

text \<open>One clause by its masks is one clause of chmod.\<close>

lemma chmod_masks:
  assumes "clause_ok c"
  shows "chmod c mode = (mode OR clause_plus c) AND NOT (clause_minus c)"
proof (cases c)
  case (Clause ws opr ps)
  let ?a = "who_mask ws" let ?v = "perm_mask ps ?a"
  have small: "?a AND 0xFFF = ?a" using assms Clause by (intro who_mask_small) simp
  have eq: "(mode AND NOT ?a) OR ?v = (mode OR ?v) AND NOT (NOT ?v AND 0xFFF AND ?a)"
  proof (rule bit_word_eqI)
    fix n assume "n < LENGTH(32)"
    have "bit ?a n \<longleftrightarrow> bit ?a n \<and> bit (0xFFF :: mode_t) n" using small by (metis bit_and_iff)
    with \<open>n < LENGTH(32)\<close> show "bit ((mode AND NOT ?a) OR ?v) n = bit ((mode OR ?v) AND NOT (NOT ?v AND 0xFFF AND ?a)) n"
      by (auto simp: bit_simps)
  qed
  consider "opr = CHR ''+''" | "opr = CHR ''-''" | "opr = CHR ''=''" using assms Clause by auto
  then show ?thesis
    by cases (use Clause eq in simp_all)
qed

lemma sum_masks_simps [simp]:
  "sum_masks f [] = 0" "sum_masks f (c # cs) = f c OR sum_masks f cs"
  by (simp_all add: sum_masks_def)

text \<open>Clauses that do not contradict each other may be applied at once.\<close>

lemma chmods_masks:
  assumes "list_all clause_ok cs" and "sum_masks clause_plus cs AND sum_masks clause_minus cs = 0"
  shows "fold chmod cs mode = (mode OR sum_masks clause_plus cs) AND NOT (sum_masks clause_minus cs)"
  using assms
proof (induction cs arbitrary: mode)
  case (Cons c cs)
  let ?p = "clause_plus c" and ?m = "clause_minus c" and ?P = "sum_masks clause_plus cs" and ?M = "sum_masks clause_minus cs"
  have bits: "\<not> ((bit ?p n \<or> bit ?P n) \<and> (bit ?m n \<or> bit ?M n))" for n
    using Cons.prems(2) by (metis bit_0_eq bit_and_iff bit_or_iff bot_apply bot_bool_def sum_masks_simps(2))
  then have "?P AND ?M = 0" by (intro bit_word_eqI) (auto simp: bit_simps)
  with Cons have "fold chmod (c # cs) mode = (chmod c mode OR ?P) AND NOT ?M" by simp
  also have "\<dots> = (((mode OR ?p) AND NOT ?m) OR ?P) AND NOT ?M"
    using chmod_masks [of c mode] Cons.prems(1) by simp
  also have "\<dots> = (mode OR (?p OR ?P)) AND NOT (?m OR ?M)"
    using bits by (intro bit_word_eqI) (auto simp: bit_simps)
  finally show ?case by simp
qed simp

subsection \<open>The parser reads the clauses\<close>

lemma mode_loop_who:
  assumes "set ws \<subseteq> set ''augo''" and "mp_state st \<noteq> which" and "mp_sort st \<noteq> numeric"
  shows "mode_loop (ws @ r) st = mode_loop r (st\<lparr>mp_affected := mp_affected st OR who_mask ws,
    mp_sort := (if ws = [] then mp_sort st else symbolic)\<rparr>)"
  using assms
proof (induction ws arbitrary: st)
  case (Cons w ws)
  then obtain b where b: "who_bits w = Some b" by (auto simp: who_bits_def)
  let ?st = "st\<lparr>mp_affected := mp_affected st OR b, mp_sort := symbolic\<rparr>"
  have "mode_step w (ws @ r) st = Inr (?st, ws @ r)"
    using Cons.prems(2,3) b by (cases "mp_state st"; cases "mp_sort st") (auto simp: mode_step_def CheckModeState_def)
  with Cons.IH [of ?st] Cons.prems b show ?case by (simp add: who_mask_def or.assoc)
qed (simp add: who_mask_def)

lemma mode_loop_perm:
  assumes "set ps \<subseteq> set ''rwxst''" and "mp_state st = which" and "mp_sort st \<noteq> numeric"
  shows "mode_loop (ps @ r) st = mode_loop r (st\<lparr>mp_value := mp_value st OR perm_mask ps (mp_affected st),
    mp_sort := (if ps = [] then mp_sort st else symbolic)\<rparr>)"
  using assms
proof (induction ps arbitrary: st)
  case (Cons p ps)
  then obtain b where b: "perm_bits p (mp_affected st) = Some b" "who_bits p = None"
    by (auto simp: perm_bits_def who_bits_def)
  let ?st = "st\<lparr>mp_value := mp_value st OR b, mp_sort := symbolic\<rparr>"
  have "mode_step p (ps @ r) st = Inr (?st, ps @ r)"
    using Cons.prems(2,3) b by (cases "mp_sort st") (auto simp: mode_step_def CheckModeState_def)
  with Cons.IH [of ?st] Cons.prems b show ?case by (simp add: perm_mask_def or.assoc)
qed (simp add: perm_mask_def)

definition fresh :: "mode_parser \<Rightarrow> bool" where
  "fresh st = (mp_action st = CHR ''='' \<and> mp_value st = 0 \<and> mp_affected st = 0 \<and> \<not> mp_gotaction st
     \<and> mp_state st \<noteq> which \<and> mp_sort st = unknown)"

lemma mode_loop_clause:
  assumes "clause_ok (Clause ws opr ps)" and "fresh st"
  shows "mode_loop (clause_text (Clause ws opr ps) @ r) st = mode_loop r (st\<lparr>mp_action := opr, mp_state := which,
    mp_gotaction := True, mp_affected := who_mask ws, mp_value := perm_mask ps (who_mask ws), mp_sort := symbolic\<rparr>)"
proof -
  let ?st1 = "st\<lparr>mp_affected := who_mask ws, mp_sort := symbolic\<rparr>"
  let ?st2 = "?st1\<lparr>mp_action := opr, mp_state := which, mp_gotaction := True, mp_sort := unknown\<rparr>"
  have 1: "mode_loop (ws @ opr # ps @ r) st = mode_loop (opr # ps @ r) ?st1"
    using mode_loop_who [of ws st "opr # ps @ r"] assms by (auto simp: fresh_def)
  have "who_bits opr = None" "perm_bits opr a = None" for a
    using assms(1) by (auto simp: who_bits_def perm_bits_def)
  then have "mode_step opr (ps @ r) ?st1 = Inr (?st2, ps @ r)"
    using assms by (cases "mp_state st") (auto simp: mode_step_def CheckModeState_def fresh_def)
  then have 2: "mode_loop (opr # ps @ r) ?st1 = mode_loop (ps @ r) ?st2" by simp
  have 3: "mode_loop (ps @ r) ?st2 = mode_loop r (?st2\<lparr>mp_value := perm_mask ps (who_mask ws), mp_sort := symbolic\<rparr>)"
    using mode_loop_perm [of ps ?st2 r] assms by (auto simp: fresh_def)
  have 4: "?st2\<lparr>mp_value := perm_mask ps (who_mask ws), mp_sort := symbolic\<rparr>
      = st\<lparr>mp_action := opr, mp_state := which, mp_gotaction := True, mp_affected := who_mask ws,
          mp_value := perm_mask ps (who_mask ws), mp_sort := symbolic\<rparr>"
    by (cases st) simp
  show ?thesis unfolding clause_text.simps append.assoc append_Cons 1 2 3 4 by (rule refl)
qed

lemma SetMask_clause:
  assumes "clause_ok (Clause ws opr ps)" and "mp_action st = opr" and "mp_affected st = who_mask ws"
    and "mp_value st = perm_mask ps (who_mask ws)"
  shows "SetMask st = Inr (st\<lparr>plusmask := plusmask st OR clause_plus (Clause ws opr ps),
    minusmask := minusmask st OR clause_minus (Clause ws opr ps)\<rparr>)"
  using assms by (auto simp: SetMask_def)

lemma mode_loop_clauses:
  assumes "list_all clause_ok cs" and "cs \<noteq> []" and "fresh st"
  shows "\<exists>st'. mode_loop (clauses_text cs) st = Inr st' \<and> ERRORCOUNT st' = ERRORCOUNT st
    \<and> plusmask st' = plusmask st OR sum_masks clause_plus cs
    \<and> minusmask st' = minusmask st OR sum_masks clause_minus cs"
  using assms
proof (induction cs arbitrary: st rule: clauses_text.induct)
  case (2 c)
  obtain ws opr ps where c: "c = Clause ws opr ps" by (cases c)
  with 2 mode_loop_clause [of ws opr ps st "[]"] show ?case
    by (simp add: SetMask_clause [of ws opr ps] del: clause_text.simps clause_plus.simps clause_minus.simps)
next
  case (3 c d cs)
  obtain ws opr ps where c: "c = Clause ws opr ps" by (cases c)
  let ?r = "CHR '','' # clauses_text (d # cs)"
  let ?st1 = "st\<lparr>mp_action := opr, mp_state := which, mp_gotaction := True, mp_affected := who_mask ws,
      mp_value := perm_mask ps (who_mask ws), mp_sort := symbolic\<rparr>"
  let ?st2 = "?st1\<lparr>plusmask := plusmask st OR clause_plus c, minusmask := minusmask st OR clause_minus c,
      mp_found_sort := symbolic, mp_sort := unknown, mp_action := CHR ''='', mp_affected := 0, mp_value := 0,
      mp_gotaction := False, mp_state := who\<rparr>"
  have "mode_loop (clause_text c @ ?r) st = mode_loop ?r ?st1"
    unfolding c by (rule mode_loop_clause) (use 3 c in auto)
  moreover have "mode_step CHR '','' (clauses_text (d # cs)) ?st1 = Inr (?st2, clauses_text (d # cs))"
    using 3(2) SetMask_clause [of ws opr ps ?st1] c
    by (simp add: mode_step_def who_bits_def perm_bits_def isodigit_def del: clause_plus.simps clause_minus.simps)
  ultimately have "mode_loop (clauses_text (c # d # cs)) st = mode_loop (clauses_text (d # cs)) ?st2" by simp
  moreover have "fresh ?st2" by (simp add: fresh_def)
  ultimately show ?case using 3(1) [of ?st2] 3(2) by (auto simp: or.assoc)
qed simp



text \<open>The masks of clauses that contradict each other clear what chmod would set: \<open>u+w\<close> is lost.\<close>

lemma ParseModeString_contradiction:
  "\<exists>m. ParseModeString (Some ''a=r,u+w'') (0, 0) 0 = Inr (m, 0) \<and> new_perm m 0 = 0x124
     \<and> fold chmod [Clause ''a'' CHR ''='' ''r'', Clause ''u'' CHR ''+'' ''w''] 0 = 0x1A4"
proof -
  let ?cs = "[Clause ''a'' CHR ''='' ''r'', Clause ''u'' CHR ''+'' ''w'']"
  obtain st where "mode_loop (clauses_text ?cs) (mode_start 0) = Inr st" "ERRORCOUNT st = 0"
    "plusmask st = sum_masks clause_plus ?cs" "minusmask st = sum_masks clause_minus ?cs"
    using mode_loop_clauses [of ?cs "mode_start 0"] by (auto simp: fresh_def mode_start_def)
  then show ?thesis
    by (simp add: ParseModeString_def new_perm_def who_mask_def perm_mask_def who_bits_def perm_bits_def)
qed

subsection \<open>Numbers\<close>

lemma octal_value_whole: "list_all isodigit ds \<Longrightarrow> octal_value ds = foldl (\<lambda>n c. 8 * n + (byte c - 48)) 0 ds"
  unfolding octal_value_def by (metis list_all_iff takeWhile_eq_all_conv)

lemma isodigit_special:
  assumes "isodigit c"
  shows "who_bits c = None" "perm_bits c a = None" "c \<notin> set ''+-=''"
proof -
  have "\<not> isodigit d" if "d \<in> set ''augorwxst+-=''" for d using that by (auto simp: isodigit_def)
  then have "c \<notin> set ''augorwxst+-=''" using assms by blast
  then show "who_bits c = None" "perm_bits c a = None" "c \<notin> set ''+-=''"
    by (auto simp: who_bits_def perm_bits_def)
qed

lemma ParseModeString_number:
  assumes "list_all isodigit (d # ds)" and "octal_value (d # ds) = v" and "v \<le> 0xFFF"
  shows "\<exists>m. ParseModeString (Some (d # ds)) masks n = Inr (m, n) \<and> new_perm m mode = word_of_nat v"
proof -
  have "isdigit c" if "isodigit c" for c using that by (simp add: isodigit_def isdigit_def)
  with assms(1) have digits: "dropWhile isdigit ds = []" by (simp add: list_all_iff dropWhile_eq_Nil_conv)
  let ?w = "scan_octal (d # ds)"
  have "min (int v) (2 ^ 64 - 1) = int v" using assms(3) by simp
  then have w: "?w = word_of_nat v" unfolding scan_octal_def assms(2) by (simp only: of_int_of_nat_eq)
  have small: "\<not> 0xFFF <s ?w" unfolding w
  proof -
    have "sint (word_of_nat v :: mode_t) = signed_take_bit 31 (int v)" by (simp add: signed_of_nat)
    also have "\<dots> = int v" using assms(3) by (intro signed_take_bit_int_eq_self) simp_all
    finally have "sint (word_of_nat v :: mode_t) = int v" .
    then show "\<not> 0xFFF <s (word_of_nat v :: mode_t)" using assms(3) by (simp add: word_sless_alt)
  qed
  let ?st = "(mode_start n)\<lparr>mp_sort := numeric, mp_gotaction := True, mp_state := which, mp_affected := 0xFFF, mp_value := ?w\<rparr>"
  have "mode_step d ds (mode_start n) = Inr (?st, [])"
    using isodigit_special [of d] assms(1) small digits
    by (simp add: mode_step_def CheckModeState_def mode_start_def)
  then have run: "ParseModeString (Some (d # ds)) masks n = Inr ((?w, NOT ?w AND 0xFFF), n)"
    by (simp add: ParseModeString_def SetMask_def mode_start_def)
  have "?w AND 0xFFF = ?w"
  proof -
    have "v mod 2 ^ 12 = v" using assms(3) by simp
    then have "take_bit 12 (word_of_nat v :: mode_t) = word_of_nat v"
      by (metis take_bit_eq_mod take_bit_of_nat)
    then show ?thesis unfolding w by (simp add: take_bit_eq_mask mask_numeral)
  qed
  then have "((mode AND 0xFFF) OR ?w) AND NOT (NOT ?w AND 0xFFF) = ?w"
  proof -
    assume small: "?w AND 0xFFF = ?w"
    have "bit ?w k \<longrightarrow> bit (0xFFF :: mode_t) k" for k using small by (metis bit_and_iff)
    then show ?thesis by (intro bit_word_eqI) (auto simp: bit_simps)
  qed
  with run w show ?thesis by (simp add: new_perm_def)
qed

section \<open>Flags of files\<close>

text \<open>
  chflags.c. Which bits a flag has depends on the system (cf.defs.h makes them 0 where there are no
  flags): \<open>bits\<close>. A word has the flag as a prefix of memory with the terminator, so as a whole.
\<close>

type_synonym flag_t = "64 word"

datatype file_flag = SF_ARCHIVED | SF_APPEND | SF_IMMUTABLE | SF_NOUNLINK
  | UF_NODUMP | UF_OPAQUE | UF_APPEND | UF_IMMUTABLE | UF_NOUNLINK

definition flag_names :: "(string \<times> file_flag) list" where
  "flag_names = [(''arch'', SF_ARCHIVED), (''archived'', SF_ARCHIVED), (''dump'', UF_NODUMP),
     (''opaque'', UF_OPAQUE), (''sappnd'', SF_APPEND), (''sappend'', SF_APPEND), (''schg'', SF_IMMUTABLE),
     (''schange'', SF_IMMUTABLE), (''simmutable'', SF_IMMUTABLE), (''sunlnk'', SF_NOUNLINK),
     (''sunlink'', SF_NOUNLINK), (''uappnd'', UF_APPEND), (''uappend'', UF_APPEND), (''uchg'', UF_IMMUTABLE),
     (''uchange'', UF_IMMUTABLE), (''uimmutable'', UF_IMMUTABLE), (''uunlnk'', UF_NOUNLINK),
     (''uunlink'', UF_NOUNLINK)]"

definition CHFLAGS_MASK :: "(file_flag \<Rightarrow> flag_t) \<Rightarrow> flag_t" where
  "CHFLAGS_MASK bits = bits UF_NODUMP OR bits UF_IMMUTABLE OR bits UF_APPEND OR bits UF_OPAQUE
     OR bits UF_NOUNLINK OR bits SF_ARCHIVED OR bits SF_IMMUTABLE OR bits SF_APPEND OR bits SF_NOUNLINK"

text \<open>One word between commas: the masks, or \<open>None\<close> for an invalid word.\<close>

definition flag_word :: "(file_flag \<Rightarrow> flag_t) \<Rightarrow> string \<Rightarrow> flag_t \<times> flag_t \<Rightarrow> (flag_t \<times> flag_t) option" where
  "flag_word bits w masks =
     (let no = (take 2 w = ''no''); sp = (if no then drop 2 w else w); clear = (no \<noteq> (take 1 sp = ''d'')) in
      if sp = [] then Some masks
      else if isodigit (hd sp) then
        (let value = word_of_int (min (int (octal_value sp)) (2 ^ 64 - 1) mod 2 ^ 32) in
         Some (value, NOT value AND CHFLAGS_MASK bits))
      else map_option (\<lambda>f. if clear then (fst masks, snd masks OR bits f) else (fst masks OR bits f, snd masks))
        (map_of flag_names sp))"

fun flag_words :: "(file_flag \<Rightarrow> flag_t) \<Rightarrow> string list \<Rightarrow> flag_t \<times> flag_t \<Rightarrow> (flag_t \<times> flag_t) \<times> bool" where
  "flag_words bits [] masks = (masks, True)"
| "flag_words bits (w # ws) masks = (case flag_word bits w masks of
       None \<Rightarrow> (masks, False)
     | Some masks' \<Rightarrow> flag_words bits ws masks')"

text \<open>The pieces between commas; an empty piece after the last comma is not looked at.\<close>

function flag_pieces :: "string \<Rightarrow> string list" where
  "flag_pieces s = (if s = [] then []
     else takeWhile (\<lambda>c. c \<noteq> CHR '','') s # flag_pieces (drop 1 (dropWhile (\<lambda>c. c \<noteq> CHR '','') s)))"
  by pat_completeness auto

termination
  by (relation "measure length") (auto simp: less_Suc_eq_le intro: length_dropWhile_le diff_less le_less_trans [OF diff_le_mono])

declare flag_pieces.simps [simp del]

definition ParseFlagString :: "(file_flag \<Rightarrow> flag_t) \<Rightarrow> string option \<Rightarrow> flag_t \<times> flag_t \<Rightarrow> (flag_t \<times> flag_t) \<times> bool" where
  "ParseFlagString bits flagstring masks = (case flagstring of
       None \<Rightarrow> (masks, True)
     | Some s \<Rightarrow> flag_words bits (flag_pieces s) masks)"

end
