(* ===== verification/Versions.thy ===== *)
theory Versions
  imports ServerFiles
begin

text \<open>
  package.c: the versions of packages. \<open>rpmvercmp\<close> compares two texts segment by segment,
  \<open>ParseEVR\<close> splits the text of an rpm version, and \<open>RPMPackageCheck\<close>, \<open>SUNPackageCheck\<close> and
  \<open>AIXPackageCheck\<close> decide whether an installed version meets a demand. The package manager is a
  parameter (\<open>pkg_env\<close>): the lines its command prints, as \<open>ReadLine\<close> returns them, and the exit status,
  \<open>None\<close> where the command cannot be run. The functions \<open>xisalpha\<close> and so on of package.c are those of
  the C locale and have their names.
\<close>

datatype cmpsense = cmpsense_eq | cmpsense_gt | cmpsense_lt | cmpsense_ge | cmpsense_le | cmpsense_ne
  | cmpsense_none

record pkg_env =
  cfpopen :: "string \<Rightarrow> (string list \<times> int) option"
  cfpopen_sh :: "string \<Rightarrow> (string list \<times> int) option"
  context_value :: "string \<Rightarrow> string option"
  DONTDO :: bool

subsection \<open>Comparing two versions\<close>

lemma dropWhile_shorter: "takeWhile P s \<noteq> [] \<Longrightarrow> length (dropWhile P s) < length s"
  by (cases s) (auto simp: le_imp_less_Suc length_dropWhile_le split: if_splits)

function rpm_loop :: "string \<Rightarrow> string \<Rightarrow> int" where
  "rpm_loop one two =
     (if one = [] \<and> two = [] then 0
      else if one = [] then - 1
      else if two = [] then 1
      else (let s1 = dropWhile (\<lambda>c. \<not> isalnum c) one; s2 = dropWhile (\<lambda>c. \<not> isalnum c) two;
                isnum = (s1 \<noteq> [] \<and> isdigit (hd s1)); part = (if isnum then isdigit else isalpha);
                p1 = takeWhile part s1; p2 = takeWhile part s2 in
        if p1 = [] then - 1
        else if p2 = [] then - 1
        else (let q1 = (if isnum then dropWhile (\<lambda>c. c = CHR ''0'') p1 else p1);
                  q2 = (if isnum then dropWhile (\<lambda>c. c = CHR ''0'') p2 else p2) in
          if isnum \<and> length q2 < length q1 then 1
          else if isnum \<and> length q1 < length q2 then - 1
          else if strcmp q1 q2 \<noteq> 0 then strcmp q1 q2
          else rpm_loop (dropWhile part s1) (dropWhile part s2))))"
  by pat_completeness auto

termination
proof (relation "measure (\<lambda>(one, two). length one)", goal_cases)
  case (2 one two s1 s2 isnum part p1 p2 q1 q2)
  then have "takeWhile part s1 \<noteq> []" by blast
  from dropWhile_shorter [OF this] show ?case
    using length_dropWhile_le [of "\<lambda>c. \<not> isalnum c" one] 2(4) by simp
qed simp

declare rpm_loop.simps [simp del]

definition rpmvercmp :: "string \<Rightarrow> string \<Rightarrow> int" where
  "rpmvercmp a b = (if strcmp a b = 0 then 0 else rpm_loop a b)"

subsection \<open>The parts of a version\<close>

text \<open>\<open>strrchr\<close> and the terminator written there.\<close>

definition cut_last :: "char \<Rightarrow> string \<Rightarrow> string \<times> string option" where
  "cut_last c s = (if c \<in> set s
     then (rev (drop 1 (dropWhile (\<lambda>d. d \<noteq> c) (rev s))), Some (rev (takeWhile (\<lambda>d. d \<noteq> c) (rev s))))
     else (s, None))"

definition ParseEVR :: "string \<Rightarrow> string option \<times> string \<times> string option" where
  "ParseEVR evr =
     (let e = takeWhile isdigit evr; s = dropWhile isdigit evr in
      case s of
        [] \<Rightarrow> (None, evr, None)
      | c # t \<Rightarrow>
          if c = CHR '':'' then (Some (if e = [] then ''0'' else e), cut_last CHR ''-'' t)
          else (None, e @ fst (cut_last CHR ''-'' s), snd (cut_last CHR ''-'' s)))"

subsection \<open>rpm\<close>

definition atoi :: "string \<Rightarrow> int" where
  "atoi s = as_int (scan_long_or 0 s)"

definition sense_match :: "cmpsense \<Rightarrow> cmpsense \<Rightarrow> bool" where
  "sense_match cmp result = (case cmp of
       cmpsense_gt \<Rightarrow> result = cmpsense_gt
     | cmpsense_ge \<Rightarrow> result = cmpsense_gt \<or> result = cmpsense_eq
     | cmpsense_lt \<Rightarrow> result = cmpsense_lt
     | cmpsense_le \<Rightarrow> result = cmpsense_lt \<or> result = cmpsense_eq
     | cmpsense_eq \<Rightarrow> result = cmpsense_eq
     | cmpsense_ne \<Rightarrow> result \<noteq> cmpsense_eq
     | cmpsense_none \<Rightarrow> False)"

definition rpm_command :: "pkg_env \<Rightarrow> string \<Rightarrow> string" where
  "rpm_command env package =
     clip ((case context_value env ''RPMcommand'' of None \<Rightarrow> ''/bin/rpm'' | Some c \<Rightarrow> c)
       @ '' -q --queryformat '' @ [CHR 0x22] @ ''%{EPOCH}:%{VERSION}-%{RELEASE}'' @ [CHR 0x5C] @ ''n''
       @ [CHR 0x22] @ '' '' @ package)"

text \<open>The epoch \<open>(none)\<close> becomes 0; the text is used from there on.\<close>

definition evr_start :: "string \<Rightarrow> string outcome" where
  "evr_start evr =
     (if strncmp_eq evr ''(none)'' 6 then
        (if CHR '':'' \<in> set evr then Inr (CHR ''0'' # dropWhile (\<lambda>c. c \<noteq> CHR '':'') evr)
         else Inl (Undefined ''strchr: no colon''))
      else Inr evr)"

definition sense_of :: "int \<Rightarrow> cmpsense" where
  "sense_of r = (if r = 1 then cmpsense_gt else if r = - 1 then cmpsense_lt else cmpsense_eq)"

definition rpm_compare :: "string option \<times> string \<times> string option \<Rightarrow> string \<Rightarrow> cmpsense outcome" where
  "rpm_compare wanted evrstart =
     (case (ParseEVR (clip evrstart), wanted) of ((eA, vA, rA), (eB, vB, rB)) \<Rightarrow>
       (case eA of
          None \<Rightarrow> Inl (Undefined ''atol (NULL)'')
        | Some a \<Rightarrow>
            (let epochA = atoi a; epochB = (case eB of None \<Rightarrow> 0 | Some b \<Rightarrow> if b = [] then 0 else atoi b);
                 result = (if epochB < epochA then cmpsense_gt else if epochA < epochB then cmpsense_lt else cmpsense_eq);
                 result' = (if result = cmpsense_eq then sense_of (rpmvercmp vA vB) else result) in
             if result' = cmpsense_eq \<and> rB \<noteq> None \<and> rB \<noteq> Some [] then
               (case rA of
                  None \<Rightarrow> Inl (Undefined ''rpmvercmp (NULL)'')
                | Some r \<Rightarrow> Inr (sense_of (rpmvercmp r (the rB))))
             else Inr result')))"

fun rpm_any :: "cmpsense \<Rightarrow> string option \<times> string \<times> string option \<Rightarrow> string list \<Rightarrow> bool outcome" where
  "rpm_any cmp wanted [] = Inr False"
| "rpm_any cmp wanted (evr # evrs) = bind_outcome (evr_start evr) (\<lambda>evrstart.
     bind_outcome (rpm_compare wanted evrstart) (\<lambda>result.
       if sense_match cmp result then Inr True else rpm_any cmp wanted evrs))"

text \<open>The lines of a command that are not empty; none, if it fails.\<close>

definition good_lines :: "(string list \<times> int) \<Rightarrow> string list" where
  "good_lines out = (if snd out \<noteq> 0 then [] else filter (\<lambda>l. l \<noteq> []) (fst out))"

definition RPMPackageCheck :: "pkg_env \<Rightarrow> string \<Rightarrow> string \<Rightarrow> cmpsense \<Rightarrow> bool outcome" where
  "RPMPackageCheck env package version cmp =
     (case cfpopen env (rpm_command env package) of
        None \<Rightarrow> Inr False
      | Some out \<Rightarrow>
          (let evrlist = good_lines out in
           if evrlist = [] then Inr False
           else if version = [] then Inr True
           else rpm_any cmp (ParseEVR (clip version)) evrlist))"

text \<open>The name with version and release of each installed version that matches.\<close>

definition rpm_package :: "string \<Rightarrow> string \<Rightarrow> string" where
  "rpm_package package evrstart =
     clip (clip package @ CHR ''-'' # drop 1 (dropWhile (\<lambda>c. c \<noteq> CHR '':'') evrstart))"

fun rpm_list :: "cmpsense \<Rightarrow> string option \<times> string \<times> string option \<Rightarrow> string \<Rightarrow> string list \<Rightarrow> item list \<Rightarrow> item list outcome" where
  "rpm_list cmp wanted package [] pkglist = Inr pkglist"
| "rpm_list cmp wanted package (evr # evrs) pkglist = bind_outcome (evr_start evr) (\<lambda>evrstart.
     bind_outcome (rpm_compare wanted evrstart) (\<lambda>result.
       rpm_list cmp wanted package evrs
         (if sense_match cmp result then appended pkglist (rpm_package package evrstart) None else pkglist)))"

definition RPMPackageList :: "pkg_env \<Rightarrow> string \<Rightarrow> string \<Rightarrow> cmpsense \<Rightarrow> item list \<Rightarrow> (item list \<times> int) outcome" where
  "RPMPackageList env package version cmp pkglist =
     (case cfpopen env (rpm_command env package) of
        None \<Rightarrow> Inr (pkglist, - 1)
      | Some out \<Rightarrow>
          (let evrlist = good_lines out in
           if evrlist = [] then Inr (pkglist, 0)
           else bind_outcome (rpm_list cmp (ParseEVR (clip version)) package evrlist pkglist) (\<lambda>l.
             Inr (l, if l = [] then 0 else 1))))"

section \<open>Versions compare by their segments\<close>

text \<open>A version as a list of numbers and words; numbers compare by value.\<close>

datatype segment = Number int | Word string

lemma dropWhile_head: "dropWhile (\<lambda>c. \<not> P c) s = c # t \<Longrightarrow> P c"
  by (metis dropWhile_eq_Cons_conv)

lemma alnum_parts: "isalnum c \<Longrightarrow> \<not> isdigit c \<Longrightarrow> isalpha c" "isalpha c \<Longrightarrow> \<not> isdigit c"
  by (auto simp: ctype_defs)

function segments :: "string \<Rightarrow> segment list" where
  "segments s = (let t = dropWhile (\<lambda>c. \<not> isalnum c) s in
     if t = [] then []
     else if isdigit (hd t) then Number (digits_value (takeWhile isdigit t)) # segments (dropWhile isdigit t)
     else Word (takeWhile isalpha t) # segments (dropWhile isalpha t))"
  by pat_completeness auto

termination
proof (relation "measure length", goal_cases)
  case (2 s t)
  then obtain c u where "t = c # u" by (meson neq_Nil_conv)
  then have "takeWhile isdigit t \<noteq> []" using 2 by auto
  from dropWhile_shorter [OF this] show ?case
    using length_dropWhile_le [of "\<lambda>c. \<not> isalnum c" s] 2 by simp
next
  case (3 s t)
  then obtain c u where t: "t = c # u" by (meson neq_Nil_conv)
  then have "isalnum c" using dropWhile_head [of isalnum s c u] 3(1) by simp
  moreover have "\<not> isdigit c" using 3(3) t by simp
  ultimately have "takeWhile isalpha t \<noteq> []" using t alnum_parts(1) by simp
  from dropWhile_shorter [OF this] show ?case
    using length_dropWhile_le [of "\<lambda>c. \<not> isalnum c" s] 3 by simp
qed simp

declare segments.simps [simp del]

fun compare_segments :: "segment list \<Rightarrow> segment list \<Rightarrow> int" where
  "compare_segments [] [] = 0"
| "compare_segments [] (_ # _) = - 1"
| "compare_segments (_ # _) [] = 1"
| "compare_segments (Number m # xs) (Number n # ys) =
     (if m < n then - 1 else if n < m then 1 else compare_segments xs ys)"
| "compare_segments (Word v # xs) (Word w # ys) = (if v = w then compare_segments xs ys else strcmp v w)"
| "compare_segments (_ # _) (_ # _) = - 1"

lemma compare_segments_refl: "compare_segments xs xs = 0"
proof (induction xs)
  case (Cons x xs)
  then show ?case by (cases x) auto
qed simp

text \<open>Digits: their value, with the first digit first.\<close>

lemma digits_value_Cons: "digits_value (d # ds) = (int (byte d) - 48) * 10 ^ length ds + digits_value ds"
proof -
  have "foldl (\<lambda>v d. 10 * v + (int (byte d) - 48)) k ds = k * 10 ^ length ds + digits_value ds" for k
  proof (induction ds arbitrary: k)
    case (Cons x xs)
    have "digits_value (x # xs) = foldl (\<lambda>v d. 10 * v + (int (byte d) - 48)) (int (byte x) - 48) xs"
      by (simp add: digits_value_def)
    with Cons [of "int (byte x) - 48"] Cons [of "10 * k + (int (byte x) - 48)"] show ?case
      by (simp add: ring_distribs)
  qed (simp add: digits_value_def)
  from this [of "int (byte d) - 48"] show ?thesis by (simp add: digits_value_def)
qed

lemma digits_value_Nil [simp]: "digits_value [] = 0"
  by (simp add: digits_value_def)

lemma digits_value_bounds:
  "list_all isdigit ds \<Longrightarrow> 0 \<le> digits_value ds \<and> digits_value ds < 10 ^ length ds"
proof (induction ds)
  case (Cons d ds)
  then have d: "0 \<le> int (byte d) - 48" "int (byte d) - 48 \<le> 9" by (auto simp: isdigit_def)
  have "(int (byte d) - 48) * 10 ^ length ds \<le> 9 * 10 ^ length ds" "0 \<le> (int (byte d) - 48) * 10 ^ length ds"
    using d by (intro mult_right_mono mult_nonneg_nonneg; simp)+
  moreover have "0 \<le> digits_value ds" "digits_value ds < 10 ^ length ds" using Cons by auto
  ultimately show ?case unfolding digits_value_Cons length_Cons power_Suc by linarith
qed simp

lemma digits_value_zeros: "digits_value (dropWhile (\<lambda>c. c = CHR ''0'') ds) = digits_value ds"
  by (induction ds) (auto simp: digits_value_Cons)

lemma digits_value_large:
  assumes "list_all isdigit (d # ds)" and "d \<noteq> CHR ''0''"
  shows "10 ^ length ds \<le> digits_value (d # ds)"
proof -
  have "byte d \<noteq> byte CHR ''0''" using assms(2) by (simp only: byte_eq_iff not_False_eq_True)
  then have "1 \<le> int (byte d) - 48" using assms(1) by (auto simp: isdigit_def)
  then have "1 * 10 ^ length ds \<le> (int (byte d) - 48) * 10 ^ length ds" by (intro mult_right_mono) auto
  moreover have "0 \<le> digits_value ds" using digits_value_bounds [of ds] assms(1) by auto
  ultimately show ?thesis unfolding digits_value_Cons by linarith
qed

lemma strcmp_digits:
  "length a = length b \<Longrightarrow> list_all isdigit a \<Longrightarrow> list_all isdigit b \<Longrightarrow>
   strcmp a b = (if digits_value a < digits_value b then - 1 else if digits_value b < digits_value a then 1 else 0)"
proof (induction a b rule: list_induct2)
  case (Cons c a d b)
  have b: "0 \<le> digits_value a" "digits_value a < 10 ^ length b" "0 \<le> digits_value b" "digits_value b < 10 ^ length b"
    using digits_value_bounds [of a] digits_value_bounds [of b] Cons by auto
  have less: "digits_value (x # xs) < digits_value (y # ys)"
    if "byte x < byte y" "length xs = length b" "length ys = length b" "digits_value xs < 10 ^ length b" "0 \<le> digits_value ys"
    for x y xs ys
  proof -
    have "((int (byte x) - 48) + 1) * 10 ^ length b \<le> (int (byte y) - 48) * 10 ^ length b"
      using that(1) by (intro mult_right_mono) auto
    then show ?thesis using that by (simp add: digits_value_Cons algebra_simps)
  qed
  consider "c = d" | "byte c < byte d" | "byte d < byte c" by (metis byte_eq_iff linorder_neqE_nat)
  then show ?case
  proof cases
    case 1
    then show ?thesis using Cons by (auto simp: digits_value_Cons)
  next
    case 2
    then show ?thesis using less [OF 2, of a b] b Cons(1) by auto
  next
    case 3
    then show ?thesis using less [OF 3, of b a] b Cons(1) by auto
  qed
qed simp

text \<open>The comparison of two numbers in \<open>rpm_loop\<close>: without leading zeros, by length, then by \<open>strcmp\<close>.\<close>

lemma shorter_number:
  assumes "list_all isdigit a" and "list_all isdigit b" and "a = [] \<or> hd a \<noteq> CHR ''0''" and "length b < length a"
  shows "digits_value b < digits_value a"
proof -
  obtain d ds where a: "a = d # ds" using assms(4) by (cases a) auto
  have "(10 :: int) ^ length b \<le> 10 ^ length ds" using assms(4) a by (intro power_increasing) auto
  also have "\<dots> \<le> digits_value a" using digits_value_large [of d ds] assms a by auto
  finally show ?thesis using digits_value_bounds [OF assms(2)] by simp
qed

lemma list_all_dropWhile: "list_all P xs \<Longrightarrow> list_all P (dropWhile Q xs)"
  by (induction xs) auto

lemma list_all_takeWhile: "list_all P (takeWhile P xs)"
  by (induction xs) auto

lemma number_order:
  assumes "list_all isdigit p1" and "list_all isdigit p2"
  shows "(let q1 = dropWhile (\<lambda>c. c = CHR ''0'') p1; q2 = dropWhile (\<lambda>c. c = CHR ''0'') p2 in
      if length q2 < length q1 then 1 else if length q1 < length q2 then - 1 else strcmp q1 q2)
    = (if digits_value p1 < digits_value p2 then - 1 else if digits_value p2 < digits_value p1 then 1 else 0)"
proof -
  let ?q = "dropWhile (\<lambda>c. c = CHR ''0'')"
  have q: "list_all isdigit (?q p1)" "list_all isdigit (?q p2)" using assms by (auto intro: list_all_dropWhile)
  have h: "?q p = [] \<or> hd (?q p) \<noteq> CHR ''0''" for p using hd_dropWhile by blast
  consider "length (?q p2) < length (?q p1)" | "length (?q p1) < length (?q p2)" | "length (?q p1) = length (?q p2)"
    by linarith
  then show ?thesis
  proof cases
    case 1
    then show ?thesis using shorter_number [OF q h 1] by (simp add: digits_value_zeros Let_def)
  next
    case 2
    then show ?thesis using shorter_number [OF q(2,1) h 2] by (simp add: digits_value_zeros Let_def)
  next
    case 3
    then show ?thesis using strcmp_digits [OF 3 q] by (simp add: digits_value_zeros Let_def)
  qed
qed

text \<open>Nothing but a letter or a digit at the end.\<close>

definition ends_well :: "string \<Rightarrow> bool" where
  "ends_well s = (s = [] \<or> isalnum (last s))"

lemma ends_well_dropWhile: "ends_well s \<Longrightarrow> ends_well (dropWhile P s)"
proof (induction s)
  case (Cons c s)
  then show ?case by (cases "s = []") (auto simp: ends_well_def)
qed simp

lemma ends_well_alnum: "ends_well s \<Longrightarrow> s \<noteq> [] \<Longrightarrow> dropWhile (\<lambda>c. \<not> isalnum c) s \<noteq> []"
  using last_in_set by (auto simp: ends_well_def)

lemma segments_Nil [simp]: "segments [] = []"
  by (simp add: segments.simps)

text \<open>The first segment, and the text behind it.\<close>

lemma segments_step:
  assumes "ends_well s" and "s \<noteq> []"
  obtains c t where "dropWhile (\<lambda>c. \<not> isalnum c) s = c # t" and "isalnum c"
    and "isdigit c \<Longrightarrow> segments s = Number (digits_value (takeWhile isdigit (c # t))) # segments (dropWhile isdigit (c # t))"
    and "\<not> isdigit c \<Longrightarrow> isalpha c \<and> segments s = Word (takeWhile isalpha (c # t)) # segments (dropWhile isalpha (c # t))"
proof -
  obtain c t where t: "dropWhile (\<lambda>c. \<not> isalnum c) s = c # t"
    using ends_well_alnum [OF assms] by (meson neq_Nil_conv)
  have c: "isalnum c" using dropWhile_head [of isalnum, OF t] .
  show thesis
  proof (rule that [OF t c])
    show "isdigit c \<Longrightarrow> segments s = Number (digits_value (takeWhile isdigit (c # t))) # segments (dropWhile isdigit (c # t))"
      unfolding segments.simps [of s] t Let_def by simp
    show "\<not> isdigit c \<Longrightarrow> isalpha c \<and> segments s = Word (takeWhile isalpha (c # t)) # segments (dropWhile isalpha (c # t))"
      unfolding segments.simps [of s] t Let_def using alnum_parts(1) [OF c] by simp
  qed
qed

lemma segments_some: "ends_well s \<Longrightarrow> s \<noteq> [] \<Longrightarrow> \<exists>x xs. segments s = x # xs"
  by (erule (1) segments_step) blast

lemma rpm_loop_segments:
  "ends_well one \<Longrightarrow> ends_well two \<Longrightarrow> rpm_loop one two = compare_segments (segments one) (segments two)"
proof (induction "length one" arbitrary: one two rule: less_induct)
  case (less one two)
  consider "one = []" "two = []" | "one = []" "two \<noteq> []" | "one \<noteq> []" "two = []" | "one \<noteq> []" "two \<noteq> []" by blast
  then show ?case
  proof cases
    case 2
    then show ?thesis using segments_some [OF less(3) 2(2)] 2 by (auto simp: rpm_loop.simps [of "[]"])
  next
    case 3
    then show ?thesis using segments_some [OF less(2) 3(1)] 3 by (auto simp: rpm_loop.simps [of _ "[]"])
  next
    case 4
    obtain c t where s1: "dropWhile (\<lambda>c. \<not> isalnum c) one = c # t" "isalnum c"
      and n1: "isdigit c \<Longrightarrow> segments one = Number (digits_value (takeWhile isdigit (c # t))) # segments (dropWhile isdigit (c # t))"
      and w1: "\<not> isdigit c \<Longrightarrow> isalpha c \<and> segments one = Word (takeWhile isalpha (c # t)) # segments (dropWhile isalpha (c # t))"
      using segments_step [OF less(2) 4(1)] by blast
    obtain d u where s2: "dropWhile (\<lambda>c. \<not> isalnum c) two = d # u" "isalnum d"
      and n2: "isdigit d \<Longrightarrow> segments two = Number (digits_value (takeWhile isdigit (d # u))) # segments (dropWhile isdigit (d # u))"
      and w2: "\<not> isdigit d \<Longrightarrow> isalpha d \<and> segments two = Word (takeWhile isalpha (d # u)) # segments (dropWhile isalpha (d # u))"
      using segments_step [OF less(3) 4(2)] by blast
    have IH: "rpm_loop (dropWhile P (c # t)) (dropWhile P (d # u))
        = compare_segments (segments (dropWhile P (c # t))) (segments (dropWhile P (d # u)))" if "P c" for P
    proof (rule less(1))
      show "length (dropWhile P (c # t)) < length one"
        using dropWhile_shorter [of P "c # t"] that length_dropWhile_le [of "\<lambda>c. \<not> isalnum c" one] s1(1) by simp
      show "ends_well (dropWhile P (c # t))" "ends_well (dropWhile P (d # u))"
        using less(2,3) s1(1) s2(1) ends_well_dropWhile by metis+
    qed
    consider "isdigit c" "isdigit d" | "\<not> isdigit c" "\<not> isdigit d" | "isdigit c \<noteq> isdigit d" by blast
    then show ?thesis
    proof cases
      case 1
      have "rpm_loop one two = (let n = (let q1 = dropWhile (\<lambda>c. c = CHR ''0'') (takeWhile isdigit (c # t));
            q2 = dropWhile (\<lambda>c. c = CHR ''0'') (takeWhile isdigit (d # u)) in
          if length q2 < length q1 then 1 else if length q1 < length q2 then - 1 else strcmp q1 q2) in
        if n \<noteq> 0 then n else rpm_loop (dropWhile isdigit (c # t)) (dropWhile isdigit (d # u)))"
        unfolding rpm_loop.simps [of one two] using 4 s1 s2 1 by (simp add: Let_def)
      then show ?thesis
        unfolding number_order [OF list_all_takeWhile list_all_takeWhile] n1 [OF 1(1)] n2 [OF 1(2)] IH [of isdigit, OF 1(1)]
        by simp
    next
      case 2
      then show ?thesis using w1 w2 IH [of isalpha] 4 s1 s2 unfolding rpm_loop.simps [of one two] by (simp add: Let_def)
    next
      case 3
      have "rpm_loop one two = - 1"
        unfolding rpm_loop.simps [of one two] s1(1) s2(1) Let_def
        using 4 3 alnum_parts(2) [of d] by (cases "isdigit c") auto
      moreover have "compare_segments (segments one) (segments two) = - 1"
        using 3 n1 n2 w1 w2 by (cases "isdigit c") simp_all
      ultimately show ?thesis by simp
    qed
  qed (simp add: rpm_loop.simps)
qed

text \<open>
  C36. \<open>rpmvercmp\<close> compares versions that end in a letter or a digit segment by segment: words by
  \<open>strcmp\<close>, numbers of any length by their value, and the version with more segments is the newer one.
\<close>

theorem rpmvercmp_segments:
  assumes "ends_well a" and "ends_well b"
  shows "rpmvercmp a b = compare_segments (segments a) (segments b)"
  using rpm_loop_segments [OF assms] by (simp add: rpmvercmp_def compare_segments_refl)

theorem rpmvercmp_segments_witness:
  "rpmvercmp ''1.010a'' ''1-9b'' = 1 \<and> compare_segments (segments ''1.010a'') (segments ''1-9b'') = 1"
proof -
  have w: "ends_well ''1.010a''" "ends_well ''1-9b''" by (simp_all add: ends_well_def ctype_defs)
  have "segments ''1.010a'' = [Number 1, Number 10, Word ''a'']" "segments ''1-9b'' = [Number 1, Number 9, Word ''b'']" by code_simp+
  with rpmvercmp_segments [OF w] show ?thesis by simp
qed

text \<open>Segments of different kinds: each version is older than the other one.\<close>

lemma rpmvercmp_not_antisymmetric: "rpmvercmp ''1.a'' ''1.1'' = - 1" "rpmvercmp ''1.1'' ''1.a'' = - 1"
  by code_simp+

text \<open>Different separators at the end, against the comment in front of the last test.\<close>

lemma rpmvercmp_separators: "rpmvercmp ''1.'' ''1-'' = - 1" "rpmvercmp ''1-'' ''1.'' = - 1"
  by code_simp+

section \<open>What an rpm check decides\<close>

text \<open>The text \<open>[epoch:]version[-release]\<close>, what rpm prints of a package, and the order of versions.\<close>

definition evr_text :: "nat option \<Rightarrow> string \<Rightarrow> string option \<Rightarrow> string" where
  "evr_text e v r = (case e of None \<Rightarrow> [] | Some n \<Rightarrow> show_nat n @ '':'') @ v
     @ (case r of None \<Rightarrow> [] | Some t \<Rightarrow> CHR ''-'' # t)"

definition evr_ok :: "nat option \<Rightarrow> string \<Rightarrow> string option \<Rightarrow> bool" where
  "evr_ok e v r = (length (evr_text e v r) < CF_BUFSIZE \<and> ends_well v
     \<and> (case e of None \<Rightarrow> CHR '':'' \<notin> set v | Some n \<Rightarrow> n < 2 ^ 31)
     \<and> (case r of None \<Rightarrow> CHR ''-'' \<notin> set v | Some t \<Rightarrow> CHR ''-'' \<notin> set t \<and> ends_well t))"

definition rpm_line :: "nat option \<times> string \<times> string \<Rightarrow> string" where
  "rpm_line p = (case p of (e, v, r) \<Rightarrow>
     (case e of None \<Rightarrow> ''(none)'' | Some n \<Rightarrow> show_nat n) @ '':'' @ v @ ''-'' @ r)"

definition evr_order :: "nat option \<times> string \<times> string \<Rightarrow> nat option \<times> string \<times> string option \<Rightarrow> int" where
  "evr_order p q = (case (p, q) of ((e, v, r), (e', v', r')) \<Rightarrow>
     let a = (case e of None \<Rightarrow> 0 | Some n \<Rightarrow> n); b = (case e' of None \<Rightarrow> 0 | Some n \<Rightarrow> n) in
     if a < b then - 1 else if b < a then 1
     else if compare_segments (segments v) (segments v') \<noteq> 0 then compare_segments (segments v) (segments v')
     else (case r' of None \<Rightarrow> 0 | Some t \<Rightarrow> if t = [] then 0 else compare_segments (segments r) (segments t)))"

definition meets :: "cmpsense \<Rightarrow> int \<Rightarrow> bool" where
  "meets cmp n = (case cmp of cmpsense_gt \<Rightarrow> 0 < n | cmpsense_ge \<Rightarrow> 0 \<le> n | cmpsense_lt \<Rightarrow> n < 0
     | cmpsense_le \<Rightarrow> n \<le> 0 | cmpsense_eq \<Rightarrow> n = 0 | cmpsense_ne \<Rightarrow> n \<noteq> 0 | cmpsense_none \<Rightarrow> False)"

lemma cut_last_append: "c \<notin> set t \<Longrightarrow> cut_last c (s @ c # t) = (s, Some t)"
proof -
  assume "c \<notin> set t"
  then have "dropWhile (\<lambda>d. d \<noteq> c) (rev t @ c # rev s) = c # rev s" by (subst dropWhile_append2) auto
  then show ?thesis using \<open>c \<notin> set t\<close> by (simp add: cut_last_def takeWhile_upto)
qed

lemma cut_last_none: "c \<notin> set s \<Longrightarrow> cut_last c s = (s, None)"
  by (simp add: cut_last_def)

lemma cut_last_prefix: "c \<notin> set e \<Longrightarrow> cut_last c (e @ s) = (e @ fst (cut_last c s), snd (cut_last c s))"
proof (cases "c \<in> set s")
  case True
  then obtain a b where s: "s = a @ c # b" "c \<notin> set b" by (meson split_list_last)
  then show ?thesis using cut_last_append [OF s(2), of "e @ a"] cut_last_append [OF s(2), of a] by simp
qed (simp add: cut_last_none)

lemma take_dropWhile_digits:
  "takeWhile isdigit (show_nat n @ CHR '':'' # s) = show_nat n" "dropWhile isdigit (show_nat n @ CHR '':'' # s) = CHR '':'' # s"
proof -
  have "\<forall>c \<in> set (show_nat n). isdigit c" using show_nat_digits [of n] by (simp add: list_all_iff)
  moreover have "\<not> isdigit CHR '':''" by (simp add: isdigit_def)
  ultimately show "takeWhile isdigit (show_nat n @ CHR '':'' # s) = show_nat n" "dropWhile isdigit (show_nat n @ CHR '':'' # s) = CHR '':'' # s"
    by simp_all
qed

lemma ParseEVR_no_epoch:
  assumes "dropWhile isdigit t \<noteq> [] \<Longrightarrow> hd (dropWhile isdigit t) \<noteq> CHR '':''"
  shows "ParseEVR t = (None, cut_last CHR ''-'' t)"
proof -
  have "CHR ''-'' \<notin> set (takeWhile isdigit t)" by (auto dest!: set_takeWhileD simp: isdigit_def)
  then have cut: "cut_last CHR ''-'' t = (takeWhile isdigit t @ fst (cut_last CHR ''-'' (dropWhile isdigit t)),
      snd (cut_last CHR ''-'' (dropWhile isdigit t)))"
    using cut_last_prefix [of "CHR ''-''" "takeWhile isdigit t" "dropWhile isdigit t"] by simp
  show ?thesis
  proof (cases "dropWhile isdigit t")
    case Nil
    then have "takeWhile isdigit t = t" using takeWhile_dropWhile_id [of isdigit t] by simp
    then show ?thesis unfolding ParseEVR_def Let_def cut Nil by (simp only: cut_last_none list.case append_Nil2) (simp add: cut_last_def)
  next
    case (Cons c w)
    then show ?thesis unfolding ParseEVR_def Let_def cut using assms by simp
  qed
qed

lemma ParseEVR_text:
  assumes "evr_ok e v r"
  shows "ParseEVR (evr_text e v r) = (map_option show_nat e, v, r)"
proof -
  let ?t = "v @ (case r of None \<Rightarrow> [] | Some t \<Rightarrow> CHR ''-'' # t)"
  have cut: "cut_last CHR ''-'' ?t = (v, r)"
    using assms by (auto simp: evr_ok_def cut_last_append cut_last_none split: option.splits)
  show ?thesis
  proof (cases e)
    case (Some n)
    then have "evr_text e v r = show_nat n @ CHR '':'' # ?t" by (simp add: evr_text_def)
    then show ?thesis using cut Some by (simp add: ParseEVR_def take_dropWhile_digits)
  next
    case None
    then have tx: "evr_text e v r = ?t" by (simp add: evr_text_def)
    have v: "CHR '':'' \<notin> set v" using assms None by (simp add: evr_ok_def)
    have "hd (dropWhile isdigit ?t) \<noteq> CHR '':''" if "dropWhile isdigit ?t \<noteq> []"
    proof (cases "dropWhile isdigit v")
      case Nil
      moreover have "\<not> isdigit CHR ''-''" by (simp add: isdigit_def)
      ultimately show ?thesis using that by (auto simp: dropWhile_append split: option.splits if_splits)
    next
      case (Cons c w)
      then have "v = takeWhile isdigit v @ c # w" by (metis takeWhile_dropWhile_id)
      then have "c \<in> set v" by (metis in_set_conv_decomp)
      moreover have "\<not> (\<forall>x \<in> set v. isdigit x)" using Cons by (metis dropWhile_eq_Nil_conv list.distinct(1))
      then have "dropWhile isdigit (v @ x) = c # (w @ x)" for x using Cons by (auto simp: dropWhile_append)
      ultimately show ?thesis using v by auto
    qed
    then show ?thesis using ParseEVR_no_epoch [of ?t] cut None tx by simp
  qed
qed

lemma evr_start_line: "evr_start (rpm_line (e, v, r)) = Inr (evr_text (Some (case e of None \<Rightarrow> 0 | Some n \<Rightarrow> n)) v (Some r))"
proof (cases e)
  case None
  have "show_nat 0 = ''0''" by code_simp
  with None show ?thesis by (simp add: evr_start_def rpm_line_def evr_text_def strncmp_eq_def)
next
  case (Some n)
  obtain c t where n: "show_nat n = c # t" "isdigit c" using show_nat_digits [of n] show_nat_nonempty [of n]
    by (cases "show_nat n") auto
  then have "c \<noteq> CHR ''(''" by (auto simp: isdigit_def)
  with Some n show ?thesis by (simp add: evr_start_def rpm_line_def evr_text_def strncmp_eq_def)
qed

lemma strcmp_values: "strcmp s t \<in> {- 1, 0, 1}"
  by (induction s t rule: strcmp.induct) auto

lemma compare_segments_values: "compare_segments xs ys \<in> {- 1, 0, 1}"
  using strcmp_values by (induction xs ys rule: compare_segments.induct) auto

lemma sense_match_meets: "n \<in> {- 1, 0, 1} \<Longrightarrow> sense_match cmp (sense_of n) = meets cmp n"
  by (cases cmp) (auto simp: sense_match_def sense_of_def meets_def)

lemma atoi_show: "n < 2 ^ 31 \<Longrightarrow> atoi (show_nat n) = int n"
  using scan_int_show [of "[]" n] by (simp add: atoi_def scan_long_or_def scan_long_def long_clip_def as_int_def)

lemma rpm_compare_order:
  assumes "evr_ok (Some n) v (Some r)" and "evr_ok e' v' r'"
  shows "rpm_compare (ParseEVR (evr_text e' v' r')) (evr_text (Some n) v (Some r))
    = Inr (sense_of (evr_order (Some n, v, r) (e', v', r')))"
proof -
  have w: "ends_well v" "ends_well v'" "ends_well r" "n < 2 ^ 31" "\<And>t. r' = Some t \<Longrightarrow> ends_well t" "\<And>m. e' = Some m \<Longrightarrow> m < 2 ^ 31"
    and c: "clip (evr_text (Some n) v (Some r)) = evr_text (Some n) v (Some r)"
    using assms by (auto simp: evr_ok_def clip_def)
  have p: "ParseEVR (evr_text (Some n) v (Some r)) = (Some (show_nat n), v, Some r)"
    using ParseEVR_text [OF assms(1)] by simp
  have v: "rpmvercmp v v' = compare_segments (segments v) (segments v')" by (rule rpmvercmp_segments [OF w(1,2)])
  have eb: "(case map_option show_nat e' of None \<Rightarrow> 0 | Some b \<Rightarrow> if b = [] then 0 else atoi b)
      = int (case e' of None \<Rightarrow> 0 | Some m \<Rightarrow> m)"
    using w(6) by (cases e') (simp_all add: atoi_show)
  have rr: "r' = Some t \<Longrightarrow> rpmvercmp r t = compare_segments (segments r) (segments t)" for t
    by (rule rpmvercmp_segments [OF w(3,5)])
  have z: "sense_of 0 = cmpsense_eq" "sense_of 1 = cmpsense_gt" "sense_of (- 1) = cmpsense_lt" by (simp_all add: sense_of_def)
  have nz: "sense_of x = cmpsense_eq \<longleftrightarrow> x = 0" if "x \<in> {- 1, 0, 1}" for x using that by (auto simp: sense_of_def)
  obtain b where b: "(case e' of None \<Rightarrow> 0 | Some m \<Rightarrow> m) = b" by blast
  show ?thesis
    unfolding rpm_compare_def c p ParseEVR_text [OF assms(2)] evr_order_def Let_def prod.case option.case eb b atoi_show [OF w(4)] v
    using rr nz [OF compare_segments_values] z by (cases r') auto
qed

text \<open>
  C37. \<open>RPMPackageCheck\<close> answers yes exactly if one of the versions rpm lists as installed stands in the
  demanded relation to the version asked for, by epoch, then version, then release where one is given.
\<close>

theorem RPMPackageCheck_correct:
  assumes "cfpopen env (rpm_command env package) = Some (map rpm_line ps, 0)" and "ps \<noteq> []"
    and "\<forall>(e, v, r) \<in> set ps. evr_ok (Some (case e of None \<Rightarrow> 0 | Some n \<Rightarrow> n)) v (Some r)"
    and "evr_ok e' v' r'" and "evr_text e' v' r' \<noteq> []"
  shows "RPMPackageCheck env package (evr_text e' v' r') cmp
    = Inr (\<exists>p \<in> set ps. meets cmp (evr_order p (e', v', r')))"
proof -
  have line: "rpm_line p \<noteq> []" for p by (auto simp: rpm_line_def split: prod.splits option.splits)
  have lines: "good_lines (map rpm_line ps, 0) = map rpm_line ps"
    using line by (simp add: good_lines_def filter_empty_conv)
  have clipped: "clip (evr_text e' v' r') = evr_text e' v' r'" using assms(4) by (auto simp: evr_ok_def clip_def)
  have order: "evr_order (Some (case e of None \<Rightarrow> 0 | Some n \<Rightarrow> n), v, r) q = evr_order (e, v, r) q" for e v r q
    by (cases e; cases q) (auto simp: evr_order_def Let_def)
  have vals: "evr_order p q \<in> {- 1, 0, 1}" for p q
    using compare_segments_values by (auto simp: evr_order_def Let_def split: prod.splits option.splits)
  have "rpm_any cmp (ParseEVR (evr_text e' v' r')) (map rpm_line ps)
      = Inr (\<exists>p \<in> set ps. meets cmp (evr_order p (e', v', r')))"
    using assms(3)
  proof (induction ps)
    case (Cons p ps)
    obtain e v r where p: "p = (e, v, r)" by (cases p)
    have "rpm_compare (ParseEVR (evr_text e' v' r')) (evr_text (Some (case e of None \<Rightarrow> 0 | Some n \<Rightarrow> n)) v (Some r))
        = Inr (sense_of (evr_order p (e', v', r')))"
      using rpm_compare_order [OF _ assms(4)] Cons(2) order p by fastforce
    then show ?case
      using Cons sense_match_meets [OF vals] by (simp add: p evr_start_line)
  qed simp
  then show ?thesis
    using assms(1,2,5) by (simp add: RPMPackageCheck_def lines clipped)
qed

theorem RPMPackageCheck_correct_witness:
  "RPMPackageCheck \<lparr>cfpopen = \<lambda>_. Some ([''(none):1.10-3''], 0), cfpopen_sh = \<lambda>_. None, context_value = \<lambda>_. None,
     DONTDO = False\<rparr> ''x'' ''1.9-1'' cmpsense_gt = Inr True"
proof -
  let ?env = "\<lparr>cfpopen = \<lambda>_. Some ([''(none):1.10-3''], 0), cfpopen_sh = \<lambda>_. None, context_value = \<lambda>_. None, DONTDO = False\<rparr>"
  have q: "cfpopen ?env (rpm_command ?env ''x'') = Some (map rpm_line [(None, ''1.10'', ''3'')], 0)"
    by (simp add: rpm_line_def)
  have z: "show_nat 0 = ''0''" by code_simp
  have ok: "evr_ok (Some 0) ''1.10'' (Some ''3'')" "evr_ok None ''1.9'' (Some ''1'')"
    by (simp_all add: evr_ok_def evr_text_def ends_well_def ctype_defs CF_BUFSIZE_def z)
  have t: "evr_text None ''1.9'' (Some ''1'') = ''1.9-1''" by (simp add: evr_text_def)
  have "meets cmpsense_gt (evr_order (None, ''1.10'', ''3'') (None, ''1.9'', Some ''1''))" by code_simp
  then show ?thesis
    using RPMPackageCheck_correct [OF q _ _ ok(2), of cmpsense_gt] ok(1) t by simp
qed

text \<open>
  Without a version every check succeeds but nothing is listed: any version is greater than the empty one.
\<close>

lemma rpmvercmp_empty: "v \<noteq> [] \<Longrightarrow> rpmvercmp v [] = 1"
  by (simp add: rpmvercmp_def rpm_loop.simps)

end
