(* ===== verification/Packages.thy ===== *)
theory Packages
  imports Versions
begin

text \<open>
  package.c: the other package managers, and the commands that install, upgrade and remove packages.
  The result of an operation is paired with the commands it has run, in their order. A command line
  is given to the package manager as \<open>cfpopen\<close> of \<open>pkg_env\<close>; what it does to the system is outside.
\<close>

datatype pkgmgrs = pkgmgr_rpm | pkgmgr_dpkg | pkgmgr_sun | pkgmgr_aix | pkgmgr_portage | pkgmgr_freebsd
  | pkgmgr_none

text \<open>The word behind a literal, as \<open>sscanf (line, " LITERAL %s", buffer)\<close> finds it.\<close>

definition scan_word :: "string \<Rightarrow> string \<Rightarrow> string option" where
  "scan_word literal line =
     (let s = dropWhile isspace line; n = length literal;
          w = takeWhile (\<lambda>c. \<not> isspace c) (dropWhile isspace (drop n s)) in
      if strncmp_eq s literal n \<and> w \<noteq> [] then Some w else None)"

definition scan_words :: "string \<Rightarrow> string list \<Rightarrow> string list" where
  "scan_words literal lines = List.map_filter (scan_word literal) lines"

text \<open>Numbers compared one after the other, as the nested tests do.\<close>

fun compare_numbers :: "int list \<Rightarrow> int list \<Rightarrow> cmpsense" where
  "compare_numbers (a # as) (b # bs) =
     (if b < a then cmpsense_gt else if a < b then cmpsense_lt else compare_numbers as bs)"
| "compare_numbers _ _ = cmpsense_eq"

subsection \<open>Sun\<close>

text \<open>The rest behind the third dot is a pointer into a copy that is freed on return.\<close>

definition dot_field :: "string \<Rightarrow> string \<times> string option" where
  "dot_field s = (takeWhile (\<lambda>c. c \<noteq> CHR ''.'') s,
     case dropWhile (\<lambda>c. c \<noteq> CHR ''.'') s of [] \<Rightarrow> None | _ # r \<Rightarrow> Some r)"

definition ParseSUNVR :: "string \<Rightarrow> int \<times> int \<times> int \<times> string option" where
  "ParseSUNVR vr =
     (case dot_field vr of (major, r1) \<Rightarrow>
      case (case r1 of None \<Rightarrow> ([], None) | Some s \<Rightarrow> dot_field s) of (minor, r2) \<Rightarrow>
      case (case r2 of None \<Rightarrow> ([], None) | Some s \<Rightarrow> dot_field s) of (micro, r3) \<Rightarrow>
        (atoi major, atoi minor, atoi micro, r3))"

definition sun_compare :: "int \<times> int \<times> int \<times> string option \<Rightarrow> int \<times> int \<times> int \<times> string option \<Rightarrow> cmpsense outcome" where
  "sun_compare A B =
     (case (A, B) of ((majorA, minorA, microA, revisA), (majorB, minorB, microB, revisB)) \<Rightarrow>
       let result = compare_numbers [majorA, minorA, microA] [majorB, minorB, microB] in
       if result = cmpsense_eq \<and> (revisA \<noteq> None \<or> revisB \<noteq> None) then Inl (Undefined ''strncasecmp: freed copy'')
       else Inr result)"

fun sun_any :: "cmpsense \<Rightarrow> int \<times> int \<times> int \<times> string option \<Rightarrow> string list \<Rightarrow> bool outcome" where
  "sun_any cmp B [] = Inr False"
| "sun_any cmp B (evr # evrs) = bind_outcome (sun_compare (ParseSUNVR evr) B) (\<lambda>result.
     if sense_match cmp result then Inr True else sun_any cmp B evrs)"

text \<open>The package without its directory and its version.\<close>

definition sun_name :: "string \<Rightarrow> string" where
  "sun_name package = (case cut_last CHR ''/'' (clip package) of
       (whole, None) \<Rightarrow> fst (cut_last CHR ''-'' whole)
     | (_, Some name) \<Rightarrow> fst (cut_last CHR ''-'' name))"

definition SUNPackageCheck :: "pkg_env \<Rightarrow> string \<Rightarrow> string \<Rightarrow> cmpsense \<Rightarrow> bool outcome" where
  "SUNPackageCheck env package version cmp =
     (case cfpopen env (clip (''/usr/bin/pkginfo -i -q '' @ sun_name package)) of
        None \<Rightarrow> Inr False
      | Some (_, status) \<Rightarrow>
          if status \<noteq> 0 then Inr False
          else if version = [] then Inr True
          else (case cfpopen env (clip (''/usr/bin/pkginfo -i -l '' @ sun_name package)) of
              None \<Rightarrow> Inr False
            | Some (lines, status) \<Rightarrow>
                if status \<noteq> 0 then Inr False
                else sun_any cmp (ParseSUNVR version) (scan_words ''VERSION:'' lines)))"

text \<open>Here an empty version stands for any above 0; the version becomes 0 in the caller, too.\<close>

definition SUNPackageList :: "pkg_env \<Rightarrow> string \<Rightarrow> string \<Rightarrow> cmpsense \<Rightarrow> item list \<Rightarrow> (item list \<times> int) outcome" where
  "SUNPackageList env package version cmp pkglist =
     (let cmp' = (if version = [] then cmpsense_gt else cmp); version' = (if version = [] then ''0'' else version) in
      case cfpopen env (clip (''/usr/bin/pkginfo -i -l '' @ sun_name package)) of
        None \<Rightarrow> Inr (pkglist, 0)
      | Some (lines, status) \<Rightarrow>
          if status \<noteq> 0 then Inr (pkglist, 0)
          else bind_outcome (sun_any cmp' (ParseSUNVR version') (scan_words ''VERSION:'' lines)) (\<lambda>match.
            Inr (if match then (appended pkglist (sun_name package) None, 1) else (pkglist, 0))))"

subsection \<open>AIX\<close>

text \<open>The third of the fields between colons, none of which may be empty.\<close>

definition next_field :: "char \<Rightarrow> string \<Rightarrow> (string \<times> string) option" where
  "next_field sep s = (let f = takeWhile (\<lambda>c. c \<noteq> sep) s in
     if f = [] then None else Some (f, dropWhile (\<lambda>c. c \<noteq> sep) s))"

fun after_fields :: "char \<Rightarrow> nat \<Rightarrow> string \<Rightarrow> string option" where
  "after_fields sep 0 s = Some s"
| "after_fields sep (Suc k) s = (case next_field sep s of
       None \<Rightarrow> None
     | Some (_, r) \<Rightarrow> if r = [] then None else after_fields sep k (tl r))"

definition lslpp_version :: "string \<Rightarrow> string option" where
  "lslpp_version line = (case after_fields CHR '':'' 2 line of
       None \<Rightarrow> None
     | Some s \<Rightarrow> map_option fst (next_field CHR '':'' s))"

definition aix_number :: "nat \<Rightarrow> string \<Rightarrow> int" where
  "aix_number k vr = (case after_fields CHR ''.'' k vr of
       None \<Rightarrow> 0
     | Some s \<Rightarrow> (case scan_long s of None \<Rightarrow> 0 | Some (v, _) \<Rightarrow> as_int v))"

definition ParseAIXVR :: "string \<Rightarrow> int list" where
  "ParseAIXVR vr = map (\<lambda>k. aix_number k vr) [0, 1, 2, 3]"

definition AIXPackageCheck :: "pkg_env \<Rightarrow> string \<Rightarrow> string \<Rightarrow> cmpsense \<Rightarrow> bool" where
  "AIXPackageCheck env package version cmp =
     (case cfpopen env (clip (''/usr/bin/lslpp -qcl '' @ package)) of
        None \<Rightarrow> False
      | Some (_, status) \<Rightarrow>
          if status \<noteq> 0 then False
          else if version = [] then True
          else (case cfpopen env (clip (''/usr/bin/lslpp -qcL '' @ package)) of
              None \<Rightarrow> False
            | Some (lines, status) \<Rightarrow>
                status = 0 \<and> list_ex (\<lambda>evr. sense_match cmp (compare_numbers (ParseAIXVR evr) (ParseAIXVR version)))
                  (List.map_filter lslpp_version lines)))"

definition AIXPackageList :: "string \<Rightarrow> string \<Rightarrow> cmpsense \<Rightarrow> item list \<Rightarrow> item list \<times> int" where
  "AIXPackageList package version cmp pkglist = (pkglist, 0)"

subsection \<open>Debian\<close>

definition quotes :: string where
  "quotes = [CHR 0x22, CHR 0x22]"

definition dpkg_relation :: "pkg_env \<Rightarrow> string \<Rightarrow> string \<Rightarrow> string \<Rightarrow> bool option" where
  "dpkg_relation env a relation b = map_option (\<lambda>(_, status). status = 0)
     (cfpopen env (clip (''/usr/bin/dpkg --compare-versions '' @ a @ '' '' @ relation @ '' '' @ b)))"

definition dpkg_compare :: "pkg_env \<Rightarrow> string \<Rightarrow> string \<Rightarrow> cmpsense option" where
  "dpkg_compare env installed version =
     (let missing = strncmp_eq installed ''(none)'' 6; a = (if missing then quotes else installed);
          b = (if strncmp_eq version ''(none)'' 6 then quotes else version);
          result = (if missing then cmpsense_none else cmpsense_eq) in
      case dpkg_relation env a ''gt'' b of
        None \<Rightarrow> None
      | Some gt \<Rightarrow> (case dpkg_relation env a ''lt'' b of
            None \<Rightarrow> None
          | Some lt \<Rightarrow> Some (if lt then cmpsense_lt else if gt then cmpsense_gt else result)))"

definition DPKGPackageCheck :: "pkg_env \<Rightarrow> string \<Rightarrow> string \<Rightarrow> cmpsense \<Rightarrow> bool" where
  "DPKGPackageCheck env package version cmp =
     (case cfpopen_sh env (clip (''LC_ALL=C /usr/bin/apt-cache policy '' @ package @ '' 2>&1 | grep -v ''
          @ [CHR 0x22] @ ''W: Unable to locate package '' @ [CHR 0x22])) of
        None \<Rightarrow> False
      | Some (_, status) \<Rightarrow>
          if status \<noteq> 0 then False
          else (case cfpopen_sh env (clip (''LC_ALL=C /usr/bin/apt-cache policy '' @ package)) of
              None \<Rightarrow> False
            | Some (lines, status) \<Rightarrow>
                if status \<noteq> 0 then False
                else (case scan_words ''Installed:'' lines of
                    [] \<Rightarrow> False
                  | installed # _ \<Rightarrow> (case dpkg_compare env installed version of
                        None \<Rightarrow> False
                      | Some result \<Rightarrow> sense_match cmp result))))"

definition DPKGPackageList :: "string \<Rightarrow> string \<Rightarrow> cmpsense \<Rightarrow> item list \<Rightarrow> item list \<times> int" where
  "DPKGPackageList package version cmp pkglist = (appended pkglist package (Some []), 1)"

subsection \<open>Portage\<close>

lemma index_from_nonempty: "index_from P i xs = Some k \<Longrightarrow> xs \<noteq> []"
  by (cases xs) auto

text \<open>The position in front of the first digit that follows a dash; the search starts at the slash.\<close>

function version_dash :: "string \<Rightarrow> nat \<Rightarrow> nat option" where
  "version_dash s i =
     (if Suc i < length s \<and> isdigit (s ! Suc i) then Some i
      else (case index_from (\<lambda>c. c = CHR ''-'') 0 (drop (Suc i) s) of
          None \<Rightarrow> None
        | Some k \<Rightarrow> version_dash s (Suc i + k)))"
  by pat_completeness auto

termination
  by (relation "measure (\<lambda>(s, i). length s - i)") (auto dest!: index_from_nonempty)

declare version_dash.simps [simp del]

text \<open>
  A package atom such as \<open>>=app/foo-1.2\<close> loses its version and its operator. The search for the first
  letter goes on behind the terminator. \<open>Inr None\<close> is the message that there is no version.
\<close>

definition portage_name :: "string \<Rightarrow> string option outcome" where
  "portage_name package =
     (let pkgname = clip package in
      if pkgname \<noteq> [] \<and> hd pkgname \<in> set ''=<>'' then
        (case version_dash pkgname (case index_from (\<lambda>c. c = CHR ''/'') 0 pkgname of None \<Rightarrow> 0 | Some k \<Rightarrow> k) of
           None \<Rightarrow> Inr None
         | Some i \<Rightarrow>
             (let name = dropWhile (\<lambda>c. \<not> isalpha c) (pkgname[i := nul]) in
              if name = [] then Inl (Undefined ''pkgname: no letter'')
              else Inr (Some (takeWhile (\<lambda>c. c \<noteq> nul) name))))
      else Inr (Some pkgname))"

definition symbol_match :: "cmpsense \<Rightarrow> char \<Rightarrow> bool" where
  "symbol_match cmp c = (case cmp of
       cmpsense_gt \<Rightarrow> c = CHR ''>''
     | cmpsense_ge \<Rightarrow> c = CHR ''>'' \<or> c = CHR ''=''
     | cmpsense_lt \<Rightarrow> c = CHR ''<''
     | cmpsense_le \<Rightarrow> c = CHR ''<'' \<or> c = CHR ''=''
     | cmpsense_eq \<Rightarrow> c = CHR ''=''
     | cmpsense_ne \<Rightarrow> c \<noteq> CHR ''=''
     | cmpsense_none \<Rightarrow> False)"

text \<open>The sign behind the first space of the first line; behind the end there is the terminator.\<close>

definition qatom_match :: "pkg_env \<Rightarrow> string \<Rightarrow> string \<Rightarrow> string \<Rightarrow> cmpsense \<Rightarrow> bool" where
  "qatom_match env installed name version cmp =
     (case cfpopen env (clip (''/usr/bin/qatom -cC '' @ installed @ '' '' @ name @ ''-'' @ version)) of
        None \<Rightarrow> False
      | Some (lines, _) \<Rightarrow> (case dropWhile (\<lambda>c. c \<noteq> CHR '' '') (case lines of [] \<Rightarrow> [] | l # _ \<Rightarrow> l) of
            [] \<Rightarrow> False
          | _ # r \<Rightarrow> symbol_match cmp (case r of [] \<Rightarrow> nul | c # _ \<Rightarrow> c)))"

text \<open>The installed versions, or what is returned at once.\<close>

definition qlist :: "pkg_env \<Rightarrow> string \<Rightarrow> (int + string \<times> string list) outcome" where
  "qlist env package = bind_outcome (portage_name package) (\<lambda>n. case n of
       None \<Rightarrow> Inr (Inl (- 1))
     | Some name \<Rightarrow> (case cfpopen env (clip (''/usr/bin/qlist -IevC '' @ name)) of
           None \<Rightarrow> Inr (Inl (- 1))
         | Some (lines, _) \<Rightarrow> (let ebuilds = filter (\<lambda>l. l \<noteq> []) lines in
             if ebuilds = [] then Inr (Inl 0) else Inr (Inr (name, ebuilds)))))"

definition PortagePackageCheck :: "pkg_env \<Rightarrow> string \<Rightarrow> string \<Rightarrow> cmpsense \<Rightarrow> int outcome" where
  "PortagePackageCheck env package version cmp = bind_outcome (qlist env package) (\<lambda>q. Inr (case q of
       Inl r \<Rightarrow> r
     | Inr (name, ebuilds) \<Rightarrow>
         if version = [] then 1
         else if list_ex (\<lambda>e. qatom_match env e name version cmp) ebuilds then 1 else 0))"

definition PortagePackageList :: "pkg_env \<Rightarrow> string \<Rightarrow> string \<Rightarrow> cmpsense \<Rightarrow> item list \<Rightarrow> (item list \<times> int) outcome" where
  "PortagePackageList env package version cmp pkglist = bind_outcome (qlist env package) (\<lambda>q. Inr (case q of
       Inl r \<Rightarrow> (pkglist, r)
     | Inr (name, ebuilds) \<Rightarrow>
         (let found = filter (\<lambda>e. version = [] \<or> qatom_match env e name version cmp) ebuilds in
          (foldl (\<lambda>l e. appended l (CHR ''='' # take (CF_BUFSIZE - 2) e) (Some [])) pkglist found,
           if found = [] then 0 else 1))))"

subsection \<open>FreeBSD\<close>

text \<open>The name of the package is shorter than its buffer.\<close>

definition CMPSENSEOPERAND :: "cmpsense \<Rightarrow> string" where
  "CMPSENSEOPERAND cmp = (case cmp of cmpsense_eq \<Rightarrow> ''=='' | cmpsense_gt \<Rightarrow> ''>'' | cmpsense_lt \<Rightarrow> ''<''
     | cmpsense_ge \<Rightarrow> ''>='' | cmpsense_le \<Rightarrow> ''<='' | cmpsense_ne \<Rightarrow> ''!='' | cmpsense_none \<Rightarrow> ''(null)'')"

definition pkg_info_query :: "string \<Rightarrow> string \<Rightarrow> string \<Rightarrow> cmpsense \<Rightarrow> string" where
  "pkg_info_query option package version cmp =
     (let name = fst (cut_last CHR ''-'' (clip package)) in
      clip (''/usr/sbin/pkg_info '' @ option @ '' '' @ [CHR 0x27] @ name
        @ (if version = [] then ''>0'' else CMPSENSEOPERAND cmp @ version) @ [CHR 0x27]))"

definition pkg_info_result :: "int \<Rightarrow> int" where
  "pkg_info_result status = (if status = 0 then 1 else if status = 1 \<or> status = 256 then 0 else - 1)"

definition FreeBSDPackageCheck :: "pkg_env \<Rightarrow> string \<Rightarrow> string \<Rightarrow> cmpsense \<Rightarrow> int" where
  "FreeBSDPackageCheck env package version cmp =
     (case cfpopen env (pkg_info_query ''-qE'' package version cmp) of
        None \<Rightarrow> - 1
      | Some (_, status) \<Rightarrow> pkg_info_result status)"

definition FreeBSDPackageList :: "pkg_env \<Rightarrow> string \<Rightarrow> string \<Rightarrow> cmpsense \<Rightarrow> item list \<Rightarrow> item list \<times> int" where
  "FreeBSDPackageList env package version cmp pkglist =
     (case cfpopen env (pkg_info_query ''-E'' package version cmp) of
        None \<Rightarrow> (pkglist, - 1)
      | Some (lines, status) \<Rightarrow>
          (foldl (\<lambda>l line. if 1 < length line then appended l line (Some []) else l) pkglist lines, pkg_info_result status))"

subsection \<open>The choice of the package manager\<close>

definition PackageCheck :: "pkg_env \<Rightarrow> string \<Rightarrow> pkgmgrs \<Rightarrow> string \<Rightarrow> cmpsense \<Rightarrow> int outcome" where
  "PackageCheck env package pkgmgr version cmp = (case pkgmgr of
       pkgmgr_rpm \<Rightarrow> bind_outcome (RPMPackageCheck env package version cmp) (\<lambda>b. Inr (of_bool b))
     | pkgmgr_dpkg \<Rightarrow> Inr (of_bool (DPKGPackageCheck env package version cmp))
     | pkgmgr_sun \<Rightarrow> bind_outcome (SUNPackageCheck env package version cmp) (\<lambda>b. Inr (of_bool b))
     | pkgmgr_aix \<Rightarrow> Inr (of_bool (AIXPackageCheck env package version cmp))
     | pkgmgr_portage \<Rightarrow> PortagePackageCheck env package version cmp
     | pkgmgr_freebsd \<Rightarrow> Inr (FreeBSDPackageCheck env package version cmp)
     | pkgmgr_none \<Rightarrow> Inr 0)"

definition PackageList :: "pkg_env \<Rightarrow> string \<Rightarrow> pkgmgrs \<Rightarrow> string \<Rightarrow> cmpsense \<Rightarrow> item list \<Rightarrow> (item list \<times> int) outcome" where
  "PackageList env package pkgmgr version cmp pkglist = (case pkgmgr of
       pkgmgr_rpm \<Rightarrow> RPMPackageList env package version cmp pkglist
     | pkgmgr_dpkg \<Rightarrow> Inr (DPKGPackageList package version cmp pkglist)
     | pkgmgr_sun \<Rightarrow> SUNPackageList env package version cmp pkglist
     | pkgmgr_aix \<Rightarrow> Inr (AIXPackageList package version cmp pkglist)
     | pkgmgr_portage \<Rightarrow> PortagePackageList env package version cmp pkglist
     | pkgmgr_freebsd \<Rightarrow> Inr (FreeBSDPackageList env package version cmp pkglist)
     | pkgmgr_none \<Rightarrow> Inr (pkglist, 0))"

section \<open>Commands\<close>

definition CF_MAXSHELLARGS :: nat where
  "CF_MAXSHELLARGS = 64"

text \<open>
  The names that are put behind the command, each with a space: at most \<open>CF_MAXSHELLARGS\<close> arguments in
  all, and only as long as the buffer lasts. \<open>position\<close> is \<open>cmd_ptr - resolvedcmd\<close>.
\<close>

fun add_packages :: "nat \<Rightarrow> nat \<Rightarrow> item list \<Rightarrow> string" where
  "add_packages cmd_args position [] = []"
| "add_packages cmd_args position (p # ps) =
     (if cmd_args = CF_MAXSHELLARGS then add_packages cmd_args position ps
      else if 2 * CF_BUFSIZE < position + length (it_name p) + 2 then add_packages cmd_args position ps
      else it_name p @ '' '' @ add_packages (cmd_args + 1) (position + length (it_name p) + 1) ps)"

text \<open>The text before and behind \<open>%s\<close>.\<close>

fun split_percent :: "string \<Rightarrow> string \<times> string option" where
  "split_percent [] = ([], None)"
| "split_percent (c # s) =
     (if c = CHR ''%'' \<and> s \<noteq> [] \<and> hd s = CHR ''s'' then ([], Some (tl s))
      else (case split_percent s of (a, b) \<Rightarrow> (c # a, b)))"

definition BuildCommandLine :: "string \<Rightarrow> item list \<Rightarrow> (string \<times> bool) outcome" where
  "BuildCommandLine rawcmd pkglist =
     (if rawcmd = [] then Inl (Undefined ''strchr behind the terminator'')
      else (case split_percent rawcmd of (head, tail) \<Rightarrow>
        let cmd_args = 2 + length (filter (\<lambda>c. c = CHR '' '') (tl rawcmd)) - (if tail = None then 0 else 1);
            names = add_packages cmd_args (length head) pkglist in
        if names = [] then Inr (head, False)
        else (let line = head @ butlast names; rest = (case tail of None \<Rightarrow> [] | Some t \<Rightarrow> t) in
          if rest \<noteq> [] \<and> 2 * CF_BUFSIZE \<le> length line + length rest
          then Inl (Undefined ''resolvedcmd: no terminator'')
          else Inr (line @ rest, True))))"

text \<open>Whether a command ended well; with \<open>DONTDO\<close> nothing is run and all is well.\<close>

definition run_package_command :: "pkg_env \<Rightarrow> string \<Rightarrow> item list \<Rightarrow> (bool \<times> string list) outcome" where
  "run_package_command env rawcmd pkglist = bind_outcome (BuildCommandLine rawcmd pkglist) (\<lambda>(cmd, some).
     Inr (if \<not> some then (False, [])
       else if DONTDO env then (True, [])
       else (case cfpopen env cmd of None \<Rightarrow> False | Some (_, status) \<Rightarrow> status = 0, [cmd])))"

definition install_macro :: "pkgmgrs \<Rightarrow> string option" where
  "install_macro pkgmgr = (case pkgmgr of
       pkgmgr_rpm \<Rightarrow> Some ''RPMInstallCommand'' | pkgmgr_dpkg \<Rightarrow> Some ''DPKGInstallCommand''
     | pkgmgr_sun \<Rightarrow> Some ''SUNInstallCommand'' | pkgmgr_aix \<Rightarrow> Some ''AIXInstallCommand''
     | pkgmgr_portage \<Rightarrow> Some ''PortageInstallCommand'' | pkgmgr_freebsd \<Rightarrow> Some ''FreeBSDInstallCommand''
     | pkgmgr_none \<Rightarrow> None)"

definition InstallPackage :: "pkg_env \<Rightarrow> pkgmgrs \<Rightarrow> item list \<Rightarrow> (bool \<times> string list) outcome" where
  "InstallPackage env pkgmgr pkglist = (case install_macro pkgmgr of
       None \<Rightarrow> Inl (Undefined ''rawinstcmd: not initialised'')
     | Some m \<Rightarrow> (case context_value env m of
           None \<Rightarrow> Inr (False, [])
         | Some rawcmd \<Rightarrow> if CF_BUFSIZE \<le> length rawcmd then Inl (Undefined ''rawinstcmd: no terminator'')
             else run_package_command env rawcmd pkglist))"

text \<open>The variable, and the command where it is not set.\<close>

definition remove_macro :: "pkgmgrs \<Rightarrow> (string \<times> string option) option" where
  "remove_macro pkgmgr = (case pkgmgr of
       pkgmgr_rpm \<Rightarrow> Some (''RPMRemoveCommand'', Some ''/bin/rpm -e %s'')
     | pkgmgr_sun \<Rightarrow> Some (''SunRemoveCommand'', Some ''/usr/sbin/pkgrm -n %s'')
     | pkgmgr_dpkg \<Rightarrow> Some (''DPKGRemoveCommand'', None)
     | pkgmgr_freebsd \<Rightarrow> Some (''FreeBSDRemoveCommand'', Some ''/usr/sbin/pkg_delete %s'')
     | pkgmgr_portage \<Rightarrow> Some (''PortageRemoveCommand'', Some ''/usr/bin/emerge -C %s'')
     | _ \<Rightarrow> None)"

definition RemovePackage :: "pkg_env \<Rightarrow> pkgmgrs \<Rightarrow> item list \<Rightarrow> (bool \<times> string list) outcome" where
  "RemovePackage env pkgmgr pkglist =
     (case remove_macro pkgmgr of
        None \<Rightarrow> Inl (Undefined ''rawdelcmd: not initialised'')
      | Some (m, preset) \<Rightarrow> (case (context_value env m, preset) of
            (None, None) \<Rightarrow> Inl (Undefined ''rawdelcmd: not initialised'')
          | (None, Some rawcmd) \<Rightarrow> run_package_command env rawcmd pkglist
          | (Some rawcmd, _) \<Rightarrow> if CF_BUFSIZE - 1 \<le> length rawcmd then Inl (Undefined ''rawdelcmd: no terminator'')
              else run_package_command env rawcmd pkglist))"

definition UpgradePackage :: "pkg_env \<Rightarrow> string \<Rightarrow> pkgmgrs \<Rightarrow> string \<Rightarrow> cmpsense \<Rightarrow> (bool \<times> string list) outcome" where
  "UpgradePackage env name pkgmgr version cmp =
     (let addlist = appended [] name None in
      if pkgmgr = pkgmgr_freebsd \<or> pkgmgr = pkgmgr_sun then
        bind_outcome (PackageList env name pkgmgr version cmp []) (\<lambda>(removelist, _).
        bind_outcome (RemovePackage env pkgmgr removelist) (\<lambda>(removed, ran1).
          if removed then bind_outcome (InstallPackage env pkgmgr addlist) (\<lambda>(installed, ran2). Inr (installed, ran1 @ ran2))
          else Inr (False, ran1)))
      else InstallPackage env pkgmgr addlist)"

section \<open>What the commands contain\<close>

lemma add_packages_all:
  assumes "cmd_args + length ps \<le> CF_MAXSHELLARGS"
    and "position + length (concat (map (\<lambda>p. it_name p @ '' '') ps)) + 1 \<le> 2 * CF_BUFSIZE"
  shows "add_packages cmd_args position ps = concat (map (\<lambda>p. it_name p @ '' '') ps)"
  using assms
proof (induction ps arbitrary: cmd_args position)
  case (Cons p ps)
  then show ?case using Cons.IH [of "cmd_args + 1" "position + length (it_name p) + 1"] by simp
qed simp

lemma split_percent_first:
  "CHR ''%'' \<notin> set a \<Longrightarrow> split_percent (a @ ''%s'' @ b) = (a, Some b)"
  by (induction a) auto

text \<open>
  A command with \<open>%s\<close> gets all the names in its place, with one space between two of them, if there are
  few enough of them and they fit; more of them are left out without an error.
\<close>

lemma BuildCommandLine_names:
  assumes "CHR ''%'' \<notin> set a" and "ps \<noteq> []"
    and "1 + length (filter (\<lambda>c. c = CHR '' '') (tl (a @ ''%s'' @ b))) + length ps \<le> CF_MAXSHELLARGS"
    and "length a + length (concat (map (\<lambda>p. it_name p @ '' '') ps)) + length b + 1 \<le> 2 * CF_BUFSIZE"
  shows "BuildCommandLine (a @ ''%s'' @ b) ps
    = Inr (a @ butlast (concat (map (\<lambda>p. it_name p @ '' '') ps)) @ b, True)"
proof -
  have names: "add_packages (2 + length (filter (\<lambda>c. c = CHR '' '') (tl (a @ ''%s'' @ b))) - 1) (length a) ps
      = concat (map (\<lambda>p. it_name p @ '' '') ps)"
    using assms(3,4) by (intro add_packages_all) simp_all
  have some: "concat (map (\<lambda>p. it_name p @ '' '') ps) \<noteq> []" using assms(2) by (cases ps) auto
  show ?thesis
    unfolding BuildCommandLine_def split_percent_first [OF assms(1)] using names some assms(4)
    by (simp add: Let_def) arith
qed

text \<open>
  Where installing and removing are separate, nothing is installed unless the old versions have been
  removed, and an upgrade that succeeds has run both commands, in this order.
\<close>

lemma run_package_command_True:
  assumes "run_package_command env rawcmd pkgs = Inr (True, cmds)" and "\<not> DONTDO env"
  shows "\<exists>cmd lines. cmds = [cmd] \<and> BuildCommandLine rawcmd pkgs = Inr (cmd, True) \<and> cfpopen env cmd = Some (lines, 0)"
  using assms by (auto simp: run_package_command_def split: option.splits if_splits elim!: bind_outcome_InrE)

lemma UpgradePackage_order:
  assumes "UpgradePackage env name pkgmgr version cmp = Inr (True, cmds)" and "\<not> DONTDO env"
    and "pkgmgr = pkgmgr_freebsd \<or> pkgmgr = pkgmgr_sun"
  shows "\<exists>remove install l1 l2 pkglist r raw rawi. cmds = [remove, install]
    \<and> PackageList env name pkgmgr version cmp [] = Inr (pkglist, r)
    \<and> BuildCommandLine raw pkglist = Inr (remove, True) \<and> cfpopen env remove = Some (l1, 0)
    \<and> BuildCommandLine rawi [mk_item name None] = Inr (install, True) \<and> cfpopen env install = Some (l2, 0)"
proof -
  obtain pkglist r ran1 ran2 where l: "PackageList env name pkgmgr version cmp [] = Inr (pkglist, r)"
    and rm: "RemovePackage env pkgmgr pkglist = Inr (True, ran1)"
    and i: "InstallPackage env pkgmgr [mk_item name None] = Inr (True, ran2)" and cmds: "cmds = ran1 @ ran2"
    using assms(1,3) by (auto simp: UpgradePackage_def appended_def Let_def elim!: bind_outcome_InrE split: prod.splits if_splits)
  obtain raw where "run_package_command env raw pkglist = Inr (True, ran1)"
    using rm by (auto simp: RemovePackage_def split: option.splits prod.splits if_splits)
  moreover obtain rawi where "run_package_command env rawi [mk_item name None] = Inr (True, ran2)"
    using i by (auto simp: InstallPackage_def split: option.splits if_splits)
  ultimately obtain c1 l1 c2 l2 where
    c: "ran1 = [c1]" "ran2 = [c2]" and "BuildCommandLine raw pkglist = Inr (c1, True)" and "cfpopen env c1 = Some (l1, 0)"
    and "BuildCommandLine rawi [mk_item name None] = Inr (c2, True)" and "cfpopen env c2 = Some (l2, 0)"
    using run_package_command_True assms(2) by metis
  moreover have "cmds = [c1, c2]" using cmds c by simp
  ultimately show ?thesis using l by blast
qed

text \<open>A version that rpm or Sun shows with four parts is compared through freed memory.\<close>

lemma sun_compare_freed: "sun_compare (ParseSUNVR ''1.2.3.REV=4'') (ParseSUNVR ''1.2.3'') = Inl (Undefined ''strncasecmp: freed copy'')"
  by code_simp

text \<open>Without \<open>DPKGRemoveCommand\<close> the message is written, and then the buffer is used as it is.\<close>

lemma RemovePackage_dpkg_unset:
  "context_value env ''DPKGRemoveCommand'' = None \<Longrightarrow>
   RemovePackage env pkgmgr_dpkg pkgs = Inl (Undefined ''rawdelcmd: not initialised'')"
  by (simp add: RemovePackage_def remove_macro_def)

text \<open>A whole version prefix of a package atom is cut at the first digit behind a dash, also within the name.\<close>

lemma portage_name_digit: "portage_name ''=dev-db/mysql-5.0'' = Inr (Some ''dev-db/mysql'')"
  "portage_name ''=media/libmp-3lame-1.0'' = Inr (Some ''media/libmp'')"
  by code_simp+

end
