(* ===== verification/ItemFile.thy ===== *)
theory ItemFile
  imports ItemReplace Filenames
begin

text \<open>
  item-file.c and read.c: reading a file into a list of lines, writing the list back with a backup of
  the old file, comparing the list with the file, and inserting a file. A file that is open for reading
  is the bytes that are left and the flag \<open>feof\<close> tests. The disk is a map from names to contents; what
  the system permits is a parameter (\<open>file_env\<close>).
\<close>

definition newline :: char where
  "newline = CHR 0x0A"

subsection \<open>Reading lines\<close>

text \<open>
  \<open>fgets\<close> with room for \<open>n\<close> bytes: the bytes up to and with the newline, what is left and whether the end
  of the file was met.
\<close>

definition fgets :: "nat \<Rightarrow> string \<Rightarrow> (string \<times> string \<times> bool) option" where
  "fgets n s =
     (if s = [] then None
      else (let line = takeWhile (\<lambda>c. c \<noteq> newline) s;
                got = take (n - 1) (if newline \<in> set s then line @ [newline] else line) in
        Some (got, drop (length got) s, newline \<notin> set s \<and> length s < n - 1)))"

text \<open>
  What is left of a line that did not fit. There is no newline in the buffer either when a zero byte
  hides it, and then it is the line after it that is discarded.
\<close>

definition discard_line :: "string \<Rightarrow> string \<times> bool" where
  "discard_line s = (case dropWhile (\<lambda>c. c \<noteq> newline) s of [] \<Rightarrow> ([], True) | _ # r \<Rightarrow> (r, False))"

text \<open>The line, what is left, the flag of \<open>feof\<close> and the result.\<close>

definition ReadLine :: "nat \<Rightarrow> string \<Rightarrow> string \<times> string \<times> bool \<times> bool" where
  "ReadLine n s = (case fgets n s of
       None \<Rightarrow> ([], [], True, False)
     | Some (got, rest, eof) \<Rightarrow>
         (let buff = until_nul got in
          if newline \<in> set buff then (takeWhile (\<lambda>c. c \<noteq> newline) buff, rest, eof, True)
          else if eof then (buff, rest, eof, True)
          else (case discard_line rest of (rest', eof') \<Rightarrow> (buff, rest', eof', True))))"

lemma fgets_shorter: "1 < n \<Longrightarrow> fgets n s = Some (got, rest, eof) \<Longrightarrow> length rest < length s"
proof -
  assume n: "1 < n" and g: "fgets n s = Some (got, rest, eof)"
  then have s: "s \<noteq> []" by (auto simp: fgets_def)
  have rest: "rest = drop (length got) s"
    using g s by (simp only: fgets_def Let_def if_False option.inject prod.inject) blast
  have "got \<noteq> []"
    using g n s by (cases s) (auto simp: fgets_def Let_def split: if_splits)
  then show "length rest < length s" using s rest by (simp add: diff_less length_greater_0_conv)
qed

lemma ReadLine_shorter: "1 < n \<Longrightarrow> ReadLine n s = (line, rest, False, ok) \<Longrightarrow> length rest < length s"
proof -
  assume n: "1 < n" and r: "ReadLine n s = (line, rest, False, ok)"
  then obtain got rest' eof where g: "fgets n s = Some (got, rest', eof)"
    by (auto simp: ReadLine_def split: option.splits)
  have "snd (discard_line x) = False \<Longrightarrow> length (fst (discard_line x)) < length x" for x
    using length_dropWhile_le [of "\<lambda>c. c \<noteq> newline" x] by (auto simp: discard_line_def split: list.splits)
  from this [of rest'] fgets_shorter [OF n g] r g show "length rest < length s"
    by (auto simp: ReadLine_def Let_def split: if_splits prod.splits)
qed

function load_lines :: "string \<Rightarrow> item list \<Rightarrow> item list" where
  "load_lines s liststart = (case ReadLine CF_BUFSIZE s of (line, rest, eof, ok) \<Rightarrow>
     let l = (if \<not> eof \<or> line \<noteq> [] then appended liststart line None else liststart) in
     if eof then l else load_lines rest l)"
  by pat_completeness auto

termination
  by (relation "measure (\<lambda>(s, l). length s)") (auto simp: CF_BUFSIZE_def intro!: ReadLine_shorter [of 4096, OF _ sym])

declare load_lines.simps [simp del]

subsection \<open>Files\<close>

type_synonym disk = "string \<Rightarrow> string option"

record file_env =
  EDITFILESIZE :: nat
  plain_file :: "string \<Rightarrow> bool"
  can_read :: "string \<Rightarrow> bool"
  can_write :: "string \<Rightarrow> bool"
  rename_works :: "string \<Rightarrow> string \<Rightarrow> bool"
  IMAGEBACKUP :: char
  stamp :: string
  VREPOSLIST :: "item list"
  Repository :: "string \<Rightarrow> bool"

definition LoadItemList :: "file_env \<Rightarrow> disk \<Rightarrow> item list \<Rightarrow> string \<Rightarrow> item list option" where
  "LoadItemList env disk liststart file = (case disk file of
       None \<Rightarrow> None
     | Some contents \<Rightarrow>
         if EDITFILESIZE env \<noteq> 0 \<and> EDITFILESIZE env < length contents then None
         else if \<not> plain_file env file then None
         else if \<not> can_read env file then None
         else Some (load_lines contents liststart))"

definition file_text :: "item list \<Rightarrow> string" where
  "file_text xs = concat (map (\<lambda>p. it_name p @ [newline]) xs)"

definition CF_EDITED :: string where "CF_EDITED = ''.cfedited''"
definition CF_SAVED :: string where "CF_SAVED = ''.cfsaved''"

definition edited_name :: "string \<Rightarrow> string" where
  "edited_name file = file @ CF_EDITED"

definition backup_name :: "file_env \<Rightarrow> string \<Rightarrow> string" where
  "backup_name env file = file @ (if IMAGEBACKUP env = CHR ''s'' then stamp env else []) @ CF_SAVED"

text \<open>\<open>rename\<close>, where the system lets it happen.\<close>

definition move_file :: "string \<Rightarrow> string \<Rightarrow> disk \<Rightarrow> disk" where
  "move_file a b disk = (if a = b then disk else disk(b := disk a, a := None))"

definition SaveItemList :: "file_env \<Rightarrow> item list \<Rightarrow> string \<Rightarrow> disk \<Rightarrow> (disk \<times> bool) outcome" where
  "SaveItemList env xs file disk =
     (if disk file = None then Inr (disk, False)
      else if CF_BUFSIZE \<le> length (edited_name file) \<or> CF_BUFSIZE \<le> length (backup_name env file)
      then Inl (Undefined ''SaveItemList: strcat'')
      else (let new = edited_name file; backup = backup_name env file; disk1 = disk(new := None) in
        if \<not> can_write env new then Inr (disk1, False)
        else (let disk2 = disk1(new := Some (file_text xs));
                  saves = (IMAGEBACKUP env \<noteq> CHR ''n'' \<and> \<not> IsItemIn (VREPOSLIST env) (Some new)) in
          if saves \<and> \<not> rename_works env file backup then Inr (disk2(new := None), False)
          else (let disk3 = (if \<not> saves then disk2
                             else (let moved = move_file file backup disk2 in
                               if Repository env backup then moved(backup := None) else moved)) in
            if \<not> rename_works env new file then Inr (disk3, False)
            else Inr (move_file new file disk3, True)))))"

text \<open>An empty list is never the same as the file.\<close>

definition CompareToFile :: "file_env \<Rightarrow> disk \<Rightarrow> item list \<Rightarrow> string \<Rightarrow> bool" where
  "CompareToFile env disk xs file = (case disk file of
       None \<Rightarrow> False
     | Some contents \<Rightarrow> xs \<noteq> [] \<and> length contents = length (file_text xs) \<and> can_read env file
         \<and> list_all (\<lambda>i. contents ! i = file_text xs ! i) [0 ..< length (file_text xs)])"

subsection \<open>Inserting a file\<close>

text \<open>One line after the current one: the counter of lines moves on, but not the one of edits.\<close>

definition insert_line :: "editor \<Rightarrow> string \<Rightarrow> editor outcome" where
  "insert_line ed line = bind_outcome (InsertItemAfter ed line) (\<lambda>ed'.
     Inr (ed'\<lparr>NUMBEROFEDITS := NUMBEROFEDITS ed\<rparr>))"

function insert_lines :: "string \<Rightarrow> editor \<Rightarrow> editor outcome" where
  "insert_lines s ed = (case ReadLine CF_BUFSIZE s of (line, rest, eof, ok) \<Rightarrow>
     if \<not> ok then Inr ed
     else bind_outcome (insert_line ed line) (\<lambda>ed'. if eof then Inr ed' else insert_lines rest ed'))"
  by pat_completeness auto

termination
  by (relation "measure (\<lambda>(s, ed). length s)") (auto simp: CF_BUFSIZE_def intro!: ReadLine_shorter [of 4096, OF _ sym])

declare insert_lines.simps [simp del]

definition InsertFileAfter :: "file_env \<Rightarrow> disk \<Rightarrow> editor \<Rightarrow> string \<Rightarrow> editor outcome" where
  "InsertFileAfter env disk ed string = (case disk string of
       None \<Rightarrow> Inr ed
     | Some contents \<Rightarrow>
         if \<not> can_read env string then Inr ed
         else bind_outcome (insert_lines contents ed) (\<lambda>ed'.
           Inr (ed'\<lparr>NUMBEROFEDITS := NUMBEROFEDITS ed' + 1\<rparr>)))"

section \<open>What is read\<close>

definition plain_line :: "string \<Rightarrow> bool" where
  "plain_line l = (newline \<notin> set l \<and> (\<forall>c \<in> set l. byte c \<noteq> (0 :: nat)))"

lemma until_nul_plain: "\<forall>c \<in> set l. byte c \<noteq> (0 :: nat) \<Longrightarrow> until_nul l = l"
  by (simp add: until_nul_def)

lemma takeWhile_line: "newline \<notin> set l \<Longrightarrow> takeWhile (\<lambda>c. c \<noteq> newline) (l @ newline # r) = l"
  "newline \<notin> set l \<Longrightarrow> dropWhile (\<lambda>c. c \<noteq> newline) (l @ newline # r) = newline # r"
  by (induction l) auto

lemma ReadLine_line:
  assumes "plain_line l" and "1 < n"
  shows "ReadLine n (l @ newline # r) = (take (n - 1) l, r, False, True)"
proof (cases "length l < n - 1")
  case True
  then have got: "fgets n (l @ newline # r) = Some (l @ [newline], r, False)"
    using assms by (simp add: fgets_def takeWhile_line plain_line_def)
  have "until_nul (l @ [newline]) = l @ [newline]"
    using assms by (intro until_nul_plain) (auto simp: plain_line_def newline_def)
  then show ?thesis
    using got True assms by (simp add: ReadLine_def takeWhile_line plain_line_def)
next
  case False
  then have got: "fgets n (l @ newline # r) = Some (take (n - 1) l, drop (n - 1) l @ newline # r, False)"
    using assms by (simp add: fgets_def takeWhile_line plain_line_def)
  have "until_nul (take (n - 1) l) = take (n - 1) l" "newline \<notin> set (take (n - 1) l)" "newline \<notin> set (drop (n - 1) l)"
    using assms(1) by (auto simp: plain_line_def intro!: until_nul_plain dest: in_set_takeD in_set_dropD)
  then show ?thesis
    using got by (simp add: ReadLine_def discard_line_def takeWhile_line)
qed

lemma load_lines_end: "load_lines [] acc = acc"
  by (simp add: load_lines.simps [of "[]"] ReadLine_def fgets_def)

text \<open>A file is read line by line; of a line only the first \<open>CF_BUFSIZE - 1\<close> bytes are kept.\<close>

lemma load_lines_text:
  assumes "\<forall>l \<in> set ls. plain_line l"
  shows "load_lines (concat (map (\<lambda>l. l @ [newline]) ls)) acc = acc @ map (\<lambda>l. mk_item (take (CF_BUFSIZE - 1) l) None) ls"
  using assms
proof (induction ls arbitrary: acc)
  case (Cons l ls)
  then have "ReadLine CF_BUFSIZE (l @ newline # concat (map (\<lambda>l. l @ [newline]) ls))
      = (take (CF_BUFSIZE - 1) l, concat (map (\<lambda>l. l @ [newline]) ls), False, True)"
    by (intro ReadLine_line) (auto simp: CF_BUFSIZE_def)
  then show ?case
    using Cons by (simp add: load_lines.simps [of "l @ newline # concat (map (\<lambda>l. l @ [newline]) ls)"] appended_def)
qed (simp add: load_lines_end)

lemma file_text_lines: "file_text xs = concat (map (\<lambda>l. l @ [newline]) (map it_name xs))"
  by (simp add: file_text_def comp_def)

section \<open>Saving and reading back\<close>

lemma suffix_differs: "rev a \<noteq> rev b \<Longrightarrow> length a = length b \<Longrightarrow> x @ a \<noteq> y @ b"
  by auto

lemma names_differ:
  "edited_name file \<noteq> file" "backup_name env file \<noteq> file" "edited_name file \<noteq> backup_name env file"
proof -
  show "edited_name file \<noteq> file" "backup_name env file \<noteq> file"
    by (simp_all add: edited_name_def backup_name_def CF_EDITED_def CF_SAVED_def)
  have "rev (edited_name file) ! 2 \<noteq> rev (backup_name env file) ! 2"
    by (simp add: edited_name_def backup_name_def CF_EDITED_def CF_SAVED_def)
  then show "edited_name file \<noteq> backup_name env file" by metis
qed

lemmas names_apart = names_differ names_differ [THEN not_sym]

lemma SaveItemList_writes:
  "SaveItemList env xs file disk = Inr (disk', True) \<Longrightarrow> disk' file = Some (file_text xs)"
  by (auto simp: SaveItemList_def Let_def move_file_def names_apart split: if_splits)



text \<open>When the second renaming fails, there is no file of the name any more.\<close>

lemma SaveItemList_file_gone:
  assumes "disk file \<noteq> None" and "length (edited_name file) < CF_BUFSIZE" and "length (backup_name env file) < CF_BUFSIZE"
    and "can_write env (edited_name file)" and "IMAGEBACKUP env \<noteq> CHR ''n''"
    and "\<not> IsItemIn (VREPOSLIST env) (Some (edited_name file))"
    and "rename_works env file (backup_name env file)" and "\<not> rename_works env (edited_name file) file"
  shows "\<exists>disk'. SaveItemList env xs file disk = Inr (disk', False) \<and> disk' file = None"
  using assms
  by (auto simp: SaveItemList_def Let_def move_file_def names_apart)

text \<open>Lines that were saved are read back, as far as the buffer of one line reaches.\<close>

lemma SaveItemList_LoadItemList:
  assumes "SaveItemList env xs file disk = Inr (disk', True)"
    and "\<forall>p \<in> set xs. plain_line (it_name p)" and "EDITFILESIZE env = 0" and "plain_file env file" and "can_read env file"
  shows "LoadItemList env disk' acc file = Some (acc @ map (\<lambda>p. mk_item (take (CF_BUFSIZE - 1) (it_name p)) None) xs)"
proof -
  have "disk' file = Some (file_text xs)" by (rule SaveItemList_writes [OF assms(1)])
  then show ?thesis
    using assms(2-5) load_lines_text [of "map it_name xs" acc] by (simp add: LoadItemList_def file_text_lines comp_def)
qed

text \<open>The comparison is exact, except that a list without lines never counts as the same.\<close>

lemma list_all_nth_eq: "length a = length b \<Longrightarrow> list_all (\<lambda>i. a ! i = b ! i) [0 ..< length b] = (a = b)"
  by (auto simp: list_all_iff intro: nth_equalityI)

lemma CompareToFile_iff:
  "CompareToFile env disk xs file = (xs \<noteq> [] \<and> can_read env file \<and> disk file = Some (file_text xs))"
  using list_all_nth_eq by (auto simp: CompareToFile_def split: option.splits)

text \<open>A zero byte hides the newline, and the line after it is discarded.\<close>

lemma ReadLine_zero:
  assumes "plain_line a" and "newline \<notin> set b" and "newline \<notin> set l" and "length a + length b + 2 < n"
  shows "ReadLine n (a @ char_of (0 :: nat) # b @ newline # l @ newline # r) = (a, r, False, True)"
proof -
  let ?line = "a @ char_of (0 :: nat) # b"
  have z: "newline \<noteq> char_of (0 :: nat)" by (simp add: newline_def char_of_def)
  then have line: "newline \<notin> set ?line" using assms by (auto simp: plain_line_def)
  have got: "fgets n (?line @ newline # l @ newline # r) = Some (?line @ [newline], l @ newline # r, False)"
    using assms(4) takeWhile_line(1) [OF line] unfolding fgets_def by (simp add: Let_def)
  have "until_nul (?line @ [newline]) = a"
    using assms(1) unfolding until_nul_def plain_line_def by (subst append_assoc, subst takeWhile_append2) auto
  then show ?thesis
    using got assms(1,3) takeWhile_line(2) [OF assms(3)] by (simp add: ReadLine_def discard_line_def plain_line_def)
qed

end
