(* ===== verification/Locks.thy ===== *)
theory Locks
  imports Variables ServerFiles "HOL-Library.AList" "HOL-Library.Signed_Division"
begin

text \<open>
  locks.c: the locks that keep two agents from doing the same thing at once, or too often. The lock
  database is an association list from names to the process and the time of an entry. The state of a
  process is the pair of names of its current lock and the flag that locks are ignored. The
  operating system (\<open>lock_env\<close>) is a parameter: the clock, whether the database opens and takes an
  entry, and what becomes of a signal. Time does not advance within one call. Log files are left out.
\<close>

record lock_data =
  ld_pid :: int
  ld_time :: int

type_synonym lock_db = "(string \<times> lock_data) list"

record lock_env =
  now_time :: int
  db_opens :: bool
  put_works :: bool
  kill :: "int \<Rightarrow> bool \<times> bool" \<comment> \<open>\<open>err == 0\<close> in the end, \<open>errno == ESRCH\<close>\<close>
  VCANONICALFILE :: string

record agent =
  my_pid :: int
  IGNORELOCK :: bool
  CFLOCK :: string
  CFLAST :: string
  SAVELOCK :: string

definition MAX_FILENAME :: nat where
  "MAX_FILENAME = 254"

subsection \<open>The state before and between locks\<close>

definition PreLockState :: "agent \<Rightarrow> agent" where
  "PreLockState p = p\<lparr>CFLOCK := ''pre-lock-state''\<rparr>"

definition SaveExecLock :: "agent \<Rightarrow> agent" where
  "SaveExecLock p = p\<lparr>SAVELOCK := CFLOCK p\<rparr>"

definition RestoreExecLock :: "agent \<Rightarrow> agent" where
  "RestoreExecLock p = p\<lparr>CFLOCK := SAVELOCK p\<rparr>"

definition InitializeLocks :: "lock_env \<Rightarrow> agent \<Rightarrow> agent" where
  "InitializeLocks env p = (if \<not> IGNORELOCK p \<and> \<not> db_opens env then p\<lparr>IGNORELOCK := True\<rparr> else p)"

subsection \<open>Entries\<close>

text \<open>The answer is whether the entry could be made.\<close>

definition PutLock :: "lock_env \<Rightarrow> string \<Rightarrow> agent \<Rightarrow> lock_db \<Rightarrow> agent \<times> lock_db \<times> bool" where
  "PutLock env name p db =
     (let p1 = InitializeLocks env p in
      if IGNORELOCK p1 then (p1, db, True)
      else (let db1 = AList.delete name db in
        if \<not> put_works env then (p1, db1, False)
        else (p1, AList.update name \<lparr>ld_pid = my_pid p, ld_time = now_time env\<rparr> db1, True)))"

definition DeleteLock :: "lock_env \<Rightarrow> string \<Rightarrow> agent \<Rightarrow> lock_db \<Rightarrow> (agent \<times> lock_db) outcome" where
  "DeleteLock env name p db =
     (if name = ''pre-lock-state'' then Inr (p, db)
      else (let p1 = InitializeLocks env p in
        if \<not> db_opens env then Inl (Undefined ''DeleteLock: database not open'')
        else Inr (p1, AList.delete name db)))"

definition GetLockTime :: "lock_env \<Rightarrow> string \<Rightarrow> lock_db \<Rightarrow> int outcome" where
  "GetLockTime env name db =
     (if \<not> db_opens env then Inl (Undefined ''GetLockTime: database not open'')
      else Inr (case map_of db name of None \<Rightarrow> - 1 | Some e \<Rightarrow> ld_time e))"

definition GetLockPid :: "lock_env \<Rightarrow> string \<Rightarrow> lock_db \<Rightarrow> int outcome" where
  "GetLockPid env name db =
     (if \<not> db_opens env then Inl (Undefined ''GetLockPid: database not open'')
      else Inr (case map_of db name of None \<Rightarrow> - 1 | Some e \<Rightarrow> ld_pid e))"

definition GetLastLock :: "lock_env \<Rightarrow> agent \<Rightarrow> lock_db \<Rightarrow> (lock_db \<times> int) outcome" where
  "GetLastLock env p db = bind_outcome (GetLockTime env (CFLAST p) db) (\<lambda>mtime.
     if mtime = - 1 then Inr (fst (snd (PutLock env (CFLAST p) p db)), 0) else Inr (db, mtime))"

definition CheckOldLock :: "lock_env \<Rightarrow> agent \<Rightarrow> lock_db \<Rightarrow> int outcome" where
  "CheckOldLock env p db = bind_outcome (GetLockTime env (CFLOCK p) db) (\<lambda>mtime.
     Inr (if mtime = - 1 then 0 else mtime))"

definition SetLock :: "lock_env \<Rightarrow> agent \<Rightarrow> lock_db \<Rightarrow> (agent \<times> lock_db) outcome" where
  "SetLock env p db = (case PutLock env (CFLOCK p) p db of
       (p1, db1, ok) \<Rightarrow> if ok then Inr (p1, db1) else Inl (FatalErr ''''))"

subsection \<open>Getting and releasing a lock\<close>

text \<open>The number at the end of a name is computed of operator and operand, with signed characters.\<close>

definition lock_sum :: "string \<Rightarrow> string \<Rightarrow> int" where
  "lock_sum operator operand = Hash (operator @ operand)"

definition lock_name :: "lock_env \<Rightarrow> string \<Rightarrow> string \<Rightarrow> string \<Rightarrow> string \<Rightarrow> string" where
  "lock_name env kind host operator operand =
     clip (kind @ ''.'' @ take 100 (VCANONICALFILE env) @ ''.'' @ take 40 host @ ''.''
       @ CanonifyName (take (CF_BUFSIZE - 1) operator) @ ''.''
       @ take 100 (CanonifyName (take (CF_BUFSIZE - 1) operand)) @ ''_'' @ show_int (lock_sum operator operand))"

definition minutes :: "int \<Rightarrow> int" where
  "minutes t = t sdiv 60"

text \<open>
  An expired lock: the process is killed. \<open>None\<close> means that a corrupt entry is ignored, \<open>Some\<close> is the
  process that is gone. The \<open>unlink\<close> that follows removes a file of the name of the lock, not the entry.
\<close>

definition kill_expired :: "lock_env \<Rightarrow> agent \<Rightarrow> lock_db \<Rightarrow> int option outcome" where
  "kill_expired env p db = bind_outcome (GetLockPid env (CFLOCK p) db) (\<lambda>pid.
     if pid = - 1 then Inr None
     else if fst (kill env pid) \<or> snd (kill env pid) then Inr (Some pid)
     else Inl (FatalErr ''''))"

definition GetLock :: "lock_env \<Rightarrow> string \<Rightarrow> string \<Rightarrow> int \<Rightarrow> int \<Rightarrow> string \<Rightarrow> int \<Rightarrow> agent \<Rightarrow> lock_db
    \<Rightarrow> (agent \<times> lock_db \<times> bool \<times> int option) outcome" where
  "GetLock env operator operand ifelapsed expireafter host now p db =
     (if now = 0 then Inr (p, db, True, None)
      else (let p1 = p\<lparr>CFLOCK := lock_name env ''lock'' host operator operand,
                       CFLAST := lock_name env ''last'' host operator operand\<rparr> in
        if IGNORELOCK p then Inr (p1, db, True, None)
        else (let p2 = p1\<lparr>CFLOCK := take MAX_FILENAME (CFLOCK p1), CFLAST := take MAX_FILENAME (CFLAST p1)\<rparr> in
          bind_outcome (GetLastLock env p2 db) (\<lambda>(db1, lastcompleted).
            let elapsed = minutes (now - lastcompleted) in
            if elapsed < 0 \<or> elapsed < ifelapsed then Inr (p2, db1, False, None)
            else bind_outcome (CheckOldLock env p2 db1) (\<lambda>started.
              if started \<noteq> 0 \<and> minutes (now - started) < expireafter then Inr (p2, db1, False, None)
              else bind_outcome (if started = 0 then Inr None else kill_expired env p2 db1) (\<lambda>killed.
                bind_outcome (SetLock env p2 db1) (\<lambda>(p3, db2). Inr (p3, db2, True, killed))))))))"

definition ReleaseCurrentLock :: "lock_env \<Rightarrow> agent \<Rightarrow> lock_db \<Rightarrow> (agent \<times> lock_db) outcome" where
  "ReleaseCurrentLock env p db =
     (if IGNORELOCK p \<or> CFLAST p = [] then Inr (p, db)
      else bind_outcome (DeleteLock env (CFLOCK p) p db) (\<lambda>(p1, db1).
        case PutLock env (CFLAST p1) p1 db1 of
          (p2, db2, ok) \<Rightarrow> Inr (if ok then p2\<lparr>CFLOCK := ''no_active_lock''\<rparr> else p2, db2)))"

definition CountActiveLocks :: "lock_env \<Rightarrow> int \<Rightarrow> int \<Rightarrow> agent \<Rightarrow> lock_db \<Rightarrow> nat outcome" where
  "CountActiveLocks env CFSTARTTIME expire p db =
     (if IGNORELOCK p then Inr 1
      else if \<not> db_opens env then Inl (Undefined ''CountActiveLocks: database not open'')
      else Inr (length (filter (\<lambda>(key, e). minutes (CFSTARTTIME - ld_time e) < expire \<and> strncmp_eq key ''lock'' 4) db)))"

subsection \<open>Signals\<close>

datatype reaction = Quits | Debugs bool | GoesOn

definition HandleSignal :: "lock_env \<Rightarrow> nat \<Rightarrow> agent \<Rightarrow> lock_db \<Rightarrow> (agent \<times> lock_db \<times> reaction) outcome" where
  "HandleSignal env signum p db =
     (if signum = 17 then Inr (p, db, GoesOn)
      else if signum \<in> {15, 2, 1, 11, 9, 13} then
        bind_outcome (ReleaseCurrentLock env p db) (\<lambda>(p1, db1). Inr (p1, db1, Quits))
      else if signum = 10 then Inr (p, db, Debugs True)
      else if signum = 12 then Inr (p, db, Debugs False)
      else Inr (p, db, GoesOn))"

subsection \<open>The operator in the name of a lock\<close>

text \<open>
  \<open>op\<close> is the buffer of the caller. For a second underscore, and for a digit, the index moves on but
  nothing is written.
\<close>

fun extract_op :: "string \<Rightarrow> char \<Rightarrow> nat \<Rightarrow> nat \<Rightarrow> string \<Rightarrow> string \<times> nat" where
  "extract_op [] lastch dots i op = (op, i)"
| "extract_op (c # cs) lastch dots i op =
     (let op' = (if c = CHR ''_'' then (if lastch = CHR ''_'' then op else op[i := CHR ''/''])
                 else if isdigit c then op else op[i := c]);
          dots' = (if c = CHR ''.'' then dots + 1 else if isdigit c then 9 else dots) in
      if 1 < dots' then (op', i + 1) else extract_op cs c dots' (i + 1) op')"

definition ExtractOpLock :: "string \<Rightarrow> string \<Rightarrow> string \<Rightarrow> string \<Rightarrow> string outcome" where
  "ExtractOpLock canonical uqname lock op =
     (let offset = length ''lock...'' + length canonical + length uqname in
      if length lock < offset then Inl (Undefined ''ExtractOpLock: offset'')
      else (case extract_op (drop offset lock) CHR ''x'' 0 0 op of
          (op', i) \<Rightarrow> if length op \<le> i then Inl (Undefined ''ExtractOpLock: op'') else Inr (op'[i := nul])))"

section \<open>The database as a store\<close>

locale entry_store =
  fixes lookup :: "'d \<Rightarrow> string \<Rightarrow> 'e option"
    and enter :: "string \<Rightarrow> 'e \<Rightarrow> 'd \<Rightarrow> 'd"
    and remove :: "string \<Rightarrow> 'd \<Rightarrow> 'd"
  assumes lookup_enter: "lookup (enter k e d) j = (if j = k then Some e else lookup d j)"
    and lookup_remove: "lookup (remove k d) j = (if j = k then None else lookup d j)"
begin

lemma lookup_replace: "lookup (enter k e (remove k d)) j = (if j = k then Some e else lookup d j)"
  by (simp add: lookup_enter lookup_remove)

lemma lookup_moved:
  "k \<noteq> l \<Longrightarrow> lookup (enter l e (remove l (remove k d))) j = (if j = l then Some e else if j = k then None else lookup d j)"
  by (simp add: lookup_enter lookup_remove)

end

interpretation locks: entry_store map_of AList.update AList.delete
  by unfold_locales (auto simp: AList.update_conv' AList.delete_conv')

section \<open>Mutual exclusion\<close>

text \<open>
  The agents that do one and the same thing: the database, who holds the lock and the state of each
  process. A step is a whole call of \<open>GetLock\<close> or of \<open>ReleaseCurrentLock\<close> by a holder. The clock is past
  0, the database works, and a process that is killed is gone at once; that there is no such process
  is only said of one that holds nothing.
\<close>

record lock_system =
  ls_db :: lock_db
  ls_holders :: "int set"
  ls_agent :: "int \<Rightarrow> agent"

definition works :: "string \<Rightarrow> lock_system \<Rightarrow> lock_env \<Rightarrow> bool" where
  "works canonical s env =
     (db_opens env \<and> put_works env \<and> 0 < now_time env \<and> VCANONICALFILE env = canonical
      \<and> (\<forall>q \<in> ls_holders s. \<not> fst (kill env q) \<longrightarrow> \<not> snd (kill env q)))"

definition gone :: "int option \<Rightarrow> int set" where
  "gone killed = (case killed of None \<Rightarrow> {} | Some q \<Rightarrow> {q})"

inductive lock_step :: "string \<Rightarrow> string \<Rightarrow> string \<Rightarrow> string \<Rightarrow> lock_system \<Rightarrow> lock_system \<Rightarrow> bool"
  for canonical operator operand host where
  acquire: "works canonical s env \<Longrightarrow> 0 < p \<Longrightarrow> p \<notin> ls_holders s \<Longrightarrow> now \<noteq> 0 \<Longrightarrow>
    GetLock env operator operand ifelapsed expireafter host now (ls_agent s p) (ls_db s) = Inr (a, db, True, killed) \<Longrightarrow>
    lock_step canonical operator operand host s
      \<lparr>ls_db = db, ls_holders = insert p (ls_holders s - gone killed), ls_agent = (ls_agent s)(p := a)\<rparr>"
| refuse: "works canonical s env \<Longrightarrow> 0 < p \<Longrightarrow> p \<notin> ls_holders s \<Longrightarrow> now \<noteq> 0 \<Longrightarrow>
    GetLock env operator operand ifelapsed expireafter host now (ls_agent s p) (ls_db s) = Inr (a, db, False, killed) \<Longrightarrow>
    lock_step canonical operator operand host s (s\<lparr>ls_db := db, ls_agent := (ls_agent s)(p := a)\<rparr>)"
| release: "works canonical s env \<Longrightarrow> p \<in> ls_holders s \<Longrightarrow>
    ReleaseCurrentLock env (ls_agent s p) (ls_db s) = Inr (a, db) \<Longrightarrow>
    lock_step canonical operator operand host s
      \<lparr>ls_db = db, ls_holders = ls_holders s - {p}, ls_agent = (ls_agent s)(p := a)\<rparr>"

inductive lock_reachable :: "string \<Rightarrow> string \<Rightarrow> string \<Rightarrow> string \<Rightarrow> lock_system \<Rightarrow> bool"
  for canonical operator operand host where
  start: "ls_holders s = {} \<Longrightarrow> (\<And>p. my_pid (ls_agent s p) = p \<and> \<not> IGNORELOCK (ls_agent s p)) \<Longrightarrow>
    lock_reachable canonical operator operand host s"
| step: "lock_reachable canonical operator operand host s \<Longrightarrow> lock_step canonical operator operand host s s' \<Longrightarrow>
    lock_reachable canonical operator operand host s'"

definition stored_name :: "string \<Rightarrow> string \<Rightarrow> string \<Rightarrow> string \<Rightarrow> string \<Rightarrow> string" where
  "stored_name canonical kind host operator operand = take MAX_FILENAME
     (lock_name \<lparr>now_time = 0, db_opens = True, put_works = True, kill = \<lambda>_. (True, True), VCANONICALFILE = canonical\<rparr>
        kind host operator operand)"

lemma stored_name_eq:
  "VCANONICALFILE env = canonical \<Longrightarrow>
     take MAX_FILENAME (lock_name env kind host operator operand) = stored_name canonical kind host operator operand"
  by (simp add: stored_name_def lock_name_def)

lemma stored_names_differ: "stored_name canonical ''lock'' host operator operand \<noteq> stored_name canonical ''last'' host operator operand"
proof
  assume "stored_name canonical ''lock'' host operator operand = stored_name canonical ''last'' host operator operand"
  then have "take 2 (stored_name canonical ''lock'' host operator operand) = take 2 (stored_name canonical ''last'' host operator operand)"
    by simp
  then show False by (simp add: stored_name_def lock_name_def clip_def MAX_FILENAME_def CF_BUFSIZE_def)
qed

text \<open>A holder has its entry, and the names of it.\<close>

definition holds_entry :: "string \<Rightarrow> string \<Rightarrow> lock_system \<Rightarrow> int \<Rightarrow> bool" where
  "holds_entry L T s p =
     (0 < p \<and> CFLOCK (ls_agent s p) = L \<and> CFLAST (ls_agent s p) = T
      \<and> (\<exists>e. map_of (ls_db s) L = Some e \<and> ld_pid e = p \<and> 0 < ld_time e))"

definition lock_inv :: "string \<Rightarrow> string \<Rightarrow> lock_system \<Rightarrow> bool" where
  "lock_inv L T s =
     ((\<forall>p. my_pid (ls_agent s p) = p \<and> \<not> IGNORELOCK (ls_agent s p)) \<and> (\<forall>p \<in> ls_holders s. holds_entry L T s p))"

lemma lock_inv_unique: "lock_inv L T s \<Longrightarrow> p \<in> ls_holders s \<Longrightarrow> q \<in> ls_holders s \<Longrightarrow> p = q"
  unfolding lock_inv_def holds_entry_def by (metis option.inject)

lemma PutLock_works:
  assumes "db_opens env" and "put_works env" and "\<not> IGNORELOCK p"
  shows "PutLock env name p db = (p, AList.update name \<lparr>ld_pid = my_pid p, ld_time = now_time env\<rparr> (AList.delete name db), True)"
  using assms by (simp add: PutLock_def InitializeLocks_def)

lemma GetLastLock_other:
  assumes "db_opens env" and "put_works env" and "\<not> IGNORELOCK p" and "CFLAST p \<noteq> L"
    and "GetLastLock env p db = Inr (db', t)"
  shows "map_of db' L = map_of db L"
  using assms
  by (auto simp: GetLastLock_def PutLock_works locks.lookup_replace elim!: bind_outcome_InrE split: if_splits)

text \<open>What a call of \<open>GetLock\<close> does where the database works: \<open>L\<close> and \<open>T\<close> are the two names.\<close>

lemma GetLock_result:
  assumes "GetLock env operator operand ifelapsed expireafter host now p db = Inr (a, db', got, killed)"
    and "db_opens env" and "put_works env" and "VCANONICALFILE env = canonical" and "\<not> IGNORELOCK p" and "now \<noteq> 0"
    and "L = stored_name canonical ''lock'' host operator operand" and "T = stored_name canonical ''last'' host operator operand"
  shows "a = p\<lparr>CFLOCK := L, CFLAST := T\<rparr>"
    and "\<not> got \<Longrightarrow> map_of db' L = map_of db L"
    and "got \<Longrightarrow> map_of db' L = Some \<lparr>ld_pid = my_pid p, ld_time = now_time env\<rparr>"
    and "got \<Longrightarrow> map_of db L = Some e \<Longrightarrow> 0 < ld_time e \<Longrightarrow> 0 < ld_pid e \<Longrightarrow> killed = Some (ld_pid e)
      \<and> (fst (kill env (ld_pid e)) \<or> snd (kill env (ld_pid e)))"
proof -
  let ?p = "p\<lparr>CFLOCK := L, CFLAST := T\<rparr>"
  have names: "L \<noteq> T" using stored_names_differ assms(7,8) by blast
  have "p\<lparr>CFLOCK := lock_name env ''lock'' host operator operand, CFLAST := lock_name env ''last'' host operator operand\<rparr>
      \<lparr>CFLOCK := take MAX_FILENAME (lock_name env ''lock'' host operator operand),
       CFLAST := take MAX_FILENAME (lock_name env ''last'' host operator operand)\<rparr> = ?p"
    using stored_name_eq [OF assms(4)] assms(7,8) by (cases p) simp
  then obtain db1 last where first: "GetLastLock env ?p db = Inr (db1, last)"
    and rest: "(let elapsed = minutes (now - last) in
            if elapsed < 0 \<or> elapsed < ifelapsed then Inr (?p, db1, False, None)
            else bind_outcome (CheckOldLock env ?p db1) (\<lambda>started.
              if started \<noteq> 0 \<and> minutes (now - started) < expireafter then Inr (?p, db1, False, None)
              else bind_outcome (if started = 0 then Inr None else kill_expired env ?p db1) (\<lambda>killed.
                bind_outcome (SetLock env ?p db1) (\<lambda>(p3, db2). Inr (p3, db2, True, killed))))) = Inr (a, db', got, killed)"
    using assms(1,5,6) by (auto simp: GetLock_def elim!: bind_outcome_InrE simp del: Let_def) (auto elim!: bind_outcome_InrE)
  have same: "map_of db1 L = map_of db L"
    using GetLastLock_other [of env ?p L db db1 last] assms(2,3,5) names first by simp
  have set: "SetLock env ?p db1 = Inr (?p, AList.update L \<lparr>ld_pid = my_pid p, ld_time = now_time env\<rparr> (AList.delete L db1))"
    using assms(2,3,5) by (simp add: SetLock_def PutLock_works)
  show "a = ?p" and "\<not> got \<Longrightarrow> map_of db' L = map_of db L"
    and "got \<Longrightarrow> map_of db' L = Some \<lparr>ld_pid = my_pid p, ld_time = now_time env\<rparr>"
    and "got \<Longrightarrow> map_of db L = Some e \<Longrightarrow> 0 < ld_time e \<Longrightarrow> 0 < ld_pid e \<Longrightarrow> killed = Some (ld_pid e)
      \<and> (fst (kill env (ld_pid e)) \<or> snd (kill env (ld_pid e)))"
    using rest set same assms(2)
    by (auto simp: locks.lookup_replace CheckOldLock_def GetLockTime_def kill_expired_def GetLockPid_def
        elim!: bind_outcome_InrE split: if_splits option.splits)
qed

lemma ReleaseCurrentLock_result:
  assumes "ReleaseCurrentLock env p db = Inr (a, db')" and "db_opens env" and "put_works env" and "\<not> IGNORELOCK p"
    and "CFLAST p = stored_name canonical ''last'' host operator operand"
    and "CFLOCK p = stored_name canonical ''lock'' host operator operand"
  shows "a = p\<lparr>CFLOCK := ''no_active_lock''\<rparr>" and "map_of db' (CFLOCK p) = None"
proof -
  have L: "CFLOCK p \<noteq> ''pre-lock-state''" "CFLAST p \<noteq> []" "CFLOCK p \<noteq> CFLAST p"
    using assms(5,6) stored_names_differ
    by (auto simp: stored_name_def lock_name_def clip_def MAX_FILENAME_def CF_BUFSIZE_def)
  then have "DeleteLock env (CFLOCK p) p db = Inr (p, AList.delete (CFLOCK p) db)"
    using assms(2-4) by (simp add: DeleteLock_def InitializeLocks_def)
  with assms(1-4) L show "a = p\<lparr>CFLOCK := ''no_active_lock''\<rparr>" and "map_of db' (CFLOCK p) = None"
    by (auto simp: ReleaseCurrentLock_def PutLock_works locks.lookup_moved)
qed

lemma lock_inv_step:
  assumes "lock_step canonical operator operand host s s'"
    and "lock_inv (stored_name canonical ''lock'' host operator operand) (stored_name canonical ''last'' host operator operand) s"
  shows "lock_inv (stored_name canonical ''lock'' host operator operand) (stored_name canonical ''last'' host operator operand) s'"
  using assms
proof (induction rule: lock_step.induct)
  case (acquire s env p now ifelapsed expireafter a db killed)
  let ?L = "stored_name canonical ''lock'' host operator operand" and ?T = "stored_name canonical ''last'' host operator operand"
  have p: "my_pid (ls_agent s p) = p" "\<not> IGNORELOCK (ls_agent s p)" using acquire(6) by (auto simp: lock_inv_def)
  have env: "db_opens env" "put_works env" "VCANONICALFILE env = canonical" "0 < now_time env"
    using acquire(1) by (auto simp: works_def)
  note got = GetLock_result [OF acquire(5) env(1-3) p(2) acquire(4) refl refl]
  have "ls_holders s - gone killed = {}"
  proof -
    have "q \<in> gone killed" if q: "q \<in> ls_holders s" for q
    proof -
      obtain e where "map_of (ls_db s) ?L = Some e" "ld_pid e = q" "0 < ld_time e" "0 < q"
        using acquire(6) q by (auto simp: lock_inv_def holds_entry_def)
      with got(4) [of e] show ?thesis by (auto simp: gone_def)
    qed
    then show ?thesis by blast
  qed
  then show ?case using acquire(2,6) got(1,3) p env(4) by (auto simp: lock_inv_def holds_entry_def)
next
  case (refuse s env p now ifelapsed expireafter a db killed)
  have p: "my_pid (ls_agent s p) = p" "\<not> IGNORELOCK (ls_agent s p)" using refuse(6) by (auto simp: lock_inv_def)
  have env: "db_opens env" "put_works env" "VCANONICALFILE env = canonical" using refuse(1) by (auto simp: works_def)
  note not = GetLock_result [OF refuse(5) env p(2) refuse(4) refl refl]
  show ?case using refuse(3,6) not(1,2) p by (auto simp: lock_inv_def holds_entry_def)
next
  case (release s env p a db)
  have holder: "holds_entry (stored_name canonical ''lock'' host operator operand)
      (stored_name canonical ''last'' host operator operand) s p" using release(2,4) by (auto simp: lock_inv_def)
  have "ls_holders s = {p}" using lock_inv_unique [OF release(4)] release(2) by blast
  moreover have "a = ls_agent s p\<lparr>CFLOCK := ''no_active_lock''\<rparr>"
    using ReleaseCurrentLock_result(1) [OF release(3)] release(1,4) holder
    by (auto simp: works_def holds_entry_def lock_inv_def)
  ultimately show ?case using release(4) by (auto simp: lock_inv_def)
qed

lemma lock_reachable_inv:
  "lock_reachable canonical operator operand host s \<Longrightarrow>
     lock_inv (stored_name canonical ''lock'' host operator operand) (stored_name canonical ''last'' host operator operand) s"
proof (induction rule: lock_reachable.induct)
  case (start s)
  then show ?case by (simp add: lock_inv_def)
next
  case (step s s')
  then show ?case by (blast intro: lock_inv_step)
qed


text \<open>The first call for an action is granted.\<close>

lemma GetLock_first:
  assumes "db_opens env" and "put_works env" and "\<not> IGNORELOCK p" and "now \<noteq> 0" and "0 \<le> minutes now"
    and "ifelapsed \<le> minutes now"
  shows "\<exists>a db. GetLock env operator operand ifelapsed expireafter host now p [] = Inr (a, db, True, None)"
proof -
  obtain canonical where c: "VCANONICALFILE env = canonical" by blast
  have "stored_name canonical ''last'' host operator operand \<noteq> stored_name canonical ''lock'' host operator operand"
    using stored_names_differ by metis
  with assms show ?thesis
    by (simp add: GetLock_def stored_name_eq [OF c] GetLastLock_def GetLockTime_def PutLock_works locks.lookup_replace
        CheckOldLock_def SetLock_def)
qed

definition demo_env :: "int \<Rightarrow> lock_env" where
  "demo_env t = \<lparr>now_time = t, db_opens = True, put_works = True, kill = \<lambda>_. (True, False), VCANONICALFILE = ''c''\<rparr>"

definition demo_agent :: "int \<Rightarrow> agent" where
  "demo_agent p = \<lparr>my_pid = p, IGNORELOCK = False, CFLOCK = [], CFLAST = [], SAVELOCK = []\<rparr>"


section \<open>Where exclusion ends\<close>

text \<open>
  An agent that was refused has the names of the lock as its own: if it ends through \<open>FatalError\<close> or a
  signal it releases the lock of the holder.
\<close>

lemma refused_agent_releases:
  assumes "GetLock env operator operand ifelapsed expireafter host now p db = Inr (a, db', False, killed)"
    and "db_opens env" and "put_works env" and "\<not> IGNORELOCK p" and "now \<noteq> 0"
    and "HandleSignal env 15 a db' = Inr (a', db'', r)"
  shows "r = Quits \<and> map_of db'' (stored_name (VCANONICALFILE env) ''lock'' host operator operand) = None"
proof -
  note refused = GetLock_result [OF assms(1-3) refl assms(4,5) refl refl]
  have "ReleaseCurrentLock env a db' = Inr (a', db'')" "r = Quits"
    using assms(6) by (auto simp: HandleSignal_def elim!: bind_outcome_InrE)
  with ReleaseCurrentLock_result [of env a db' a' db'' "VCANONICALFILE env" host operator operand] refused(1) assms(2-4)
  show ?thesis by auto
qed

text \<open>Between the look at the lock and its setting another process gets it: both calls succeed.\<close>

lemma check_and_set_race:
  assumes "db_opens env" and "put_works env" and "\<not> IGNORELOCK p" and "\<not> IGNORELOCK q" and "CFLOCK p = CFLOCK q"
    and "CheckOldLock env p db = Inr 0"
  shows "CheckOldLock env q db = Inr 0 \<and> (\<exists>db1 db2. SetLock env p db = Inr (p, db1) \<and> SetLock env q db1 = Inr (q, db2))"
  using assms by (simp add: CheckOldLock_def SetLock_def PutLock_works)

text \<open>Without a start time no lock is taken at all.\<close>

lemma GetLock_no_time: "GetLock env operator operand ifelapsed expireafter host 0 p db = Inr (p, db, True, None)"
  by (simp add: GetLock_def)

text \<open>The byte of a digit in the buffer of the caller stays in the operator that is extracted.\<close>

lemma ExtractOpLock_stale: "ExtractOpLock [] [] ''lock...copy_1'' ''QQQQQQQQQQ'' = Inr (''copy/Q'' @ nul # ''QQQ'')"
  by code_simp

end
