(* ===== verification/EditTools.thy ===== *)
theory EditTools
  imports ItemFile ItemComment Locks Wildcards
begin

text \<open>
  edittools.c: the operations of an edit script that are not lists' own. An edit is a datatype for the
  names of \<open>editnames\<close>, grouped by what their failing does: \<open>edits\<close> cannot fail, a failing attempt throws
  to the next \<open>CatchAbort\<close>, a failing \<open>required\<close> edit ends the script. \<open>DeleteLines False Starting\<close> is
  \<open>DeleteLinesNotStarting\<close>, \<open>CommentLines Hash Matching\<close> is \<open>HashCommentLinesMatching\<close> and so on.
  A result in \<open>run\<close> is \<open>None\<close> where the code never returns.
\<close>

datatype hits = Starting | Containing | Matching

datatype signs = Hash_Sign | Slash_Sign | Percent_Sign | Set_Sign

datatype edits =
    DeleteLines bool hits | DeleteLinesAfterThisMatching
  | Append | AppendIfNoSuchLine | AppendIfNoLineMatching
  | Prepend | PrependIfNoSuchLine | PrependIfNoLineMatching
  | SetLine | SetCommentStart | SetCommentEnd | SetScript | SplitOn
  | CommentLines signs hits | UnCommentLines hits
  | InsertLine | InsertFile | ReplaceLineWith | ExpandVariables
  | EmptyEntireFilePlease | GotoLastLine
  | ReplaceAll | ReplaceFirst | With | FixEndOfLine
  | AbortAtLineMatching | UnsetAbort | AutoMountDirectResources
  | ReplaceLinesMatchingField | AppendToLineIfNotContains
  | EditUseShell | DefineInGroup | WarnIf

datatype attempts =
    LocateLineMatching | IncrementPointer | DeleteToLineMatching | DeleteNLines
  | CommentToLineMatching signs | UnCommentToLineMatching | CommentNLines | UnCommentNLines
  | RunScript | RunScriptIfNoLineMatching | RunScriptIfLineMatching

datatype required =
    DeleteLinesFileItems bool hits | AppendIfNoSuchLinesFromFile | ResetSearch

record edit_env =
  rx_of :: regcomp
  expand_of :: expand_env
  files_of :: file_env
  dry_run :: bool \<comment> \<open>\<open>DONTDO\<close>\<close>
  FileIsNewer :: "string \<Rightarrow> string \<Rightarrow> bool"
  VMOUNTABLES :: "string list"
  run_script :: "bool \<Rightarrow> string \<Rightarrow> disk \<Rightarrow> disk option"
  system_class :: string

record edit_state =
  es_ed :: editor
  es_ctx :: edit_ctx
  es_classes :: class_state
  es_disk :: disk
  es_errors :: nat
  EDITBUFF :: string
  COMMENTSTART :: string
  COMMENTEND :: string
  currenteditscript :: string
  searchstr :: string
  spliton :: char
  global_replace :: "bool option"
  useshell :: bool
  loop_fp :: "(string \<times> bool) option"

type_synonym 'a run = "'a outcome option"

definition bind_run :: "'a run \<Rightarrow> ('a \<Rightarrow> 'b run) \<Rightarrow> 'b run" where
  "bind_run m f = (case m of None \<Rightarrow> None | Some (Inl e) \<Rightarrow> Some (Inl e) | Some (Inr a) \<Rightarrow> f a)"

lemma bind_run_simps [simp]:
  "bind_run None f = None" "bind_run (Some (Inl e)) f = Some (Inl e)" "bind_run (Some (Inr a)) f = f a"
  by (simp_all add: bind_run_def)

lemma bind_run_SomeInrE:
  assumes "bind_run m f = Some (Inr b)"
  obtains a where "m = Some (Inr a)" and "f a = Some (Inr b)"
  using assms by (auto simp: bind_run_def split: option.splits sum.splits)

subsection \<open>The current line\<close>

definition current_line :: "editor \<Rightarrow> string option outcome" where
  "current_line ed = (case CURRENTLINEPTR ed of
       NullLine \<Rightarrow> Inr None
     | Dangling \<Rightarrow> Inl (Undefined ''freed current line'')
     | At i \<Rightarrow> if i < length (filestart ed) then Inr (Some (it_name (filestart ed ! i)))
         else Inl (Undefined ''current line''))"

text \<open>Deleting the node it points to leaves the pointer as it is.\<close>

definition after_delete :: "nat \<Rightarrow> lineptr \<Rightarrow> lineptr" where
  "after_delete i p = (case p of
       At c \<Rightarrow> if i < c then At (c - 1) else if i = c then Dangling else At c
     | _ \<Rightarrow> p)"

definition after_prepend :: "lineptr \<Rightarrow> lineptr" where
  "after_prepend p = (case p of At c \<Rightarrow> At (c + 1) | _ \<Rightarrow> p)"

definition IncrementEditPointer :: "string \<Rightarrow> editor \<Rightarrow> (editor \<times> bool) outcome" where
  "IncrementEditPointer str ed =
     (let n = scan_int_or 0 str; len = length (filestart ed) in
      if n = 0 then Inr (ed, False)
      else if CURRENTLINEPTR ed = NullLine \<and> len = 0 then Inr (ed, True)
      else (let ed1 = (if CURRENTLINEPTR ed = NullLine then ed\<lparr>CURRENTLINEPTR := At 0, CURRENTLINENUMBER := 1\<rparr> else ed);
                k = CURRENTLINENUMBER ed1 + n in
        if n < 0 \<and> k < 1 then Inr (ed1\<lparr>CURRENTLINEPTR := line_at (filestart ed1) 0, CURRENTLINENUMBER := 1\<rparr>, True)
        else (case CURRENTLINEPTR ed1 of
            At c \<Rightarrow>
              if n < 0 then
                Inr (if k \<le> int c then ed1\<lparr>CURRENTLINEPTR := At (nat k - 1), CURRENTLINENUMBER := k\<rparr> else ed1, True)
              else (let c' = min (c + nat n) (len - 1) in
                Inr (ed1\<lparr>CURRENTLINEPTR := At c', CURRENTLINENUMBER := CURRENTLINENUMBER ed1 + int (c' - c)\<rparr>, True))
          | _ \<Rightarrow>
              if n < 0 \<and> k \<le> int len then Inr (ed1\<lparr>CURRENTLINEPTR := At (nat k - 1), CURRENTLINENUMBER := k\<rparr>, True)
              else Inl (Undefined ''IncrementEditPointer: freed current line''))))"

definition ResetEditSearch :: "string \<Rightarrow> editor \<Rightarrow> editor \<times> bool" where
  "ResetEditSearch str ed =
     (let n = scan_int_or (- 1) str in
      if n < 1 \<or> int (length (filestart ed)) < n then (ed, False)
      else (ed\<lparr>CURRENTLINENUMBER := n, CURRENTLINEPTR := At (nat n - 1)\<rparr>, True))"

definition ReplaceEditLineWith :: "string \<Rightarrow> editor \<Rightarrow> editor outcome" where
  "ReplaceEditLineWith string ed = bind_outcome (current_line ed) (\<lambda>l. case (l, CURRENTLINEPTR ed) of
       (Some line, At i) \<Rightarrow>
         Inr (if string = line then ed
              else ed\<lparr>filestart := (filestart ed)[i := (filestart ed ! i)\<lparr>it_name := string\<rparr>],
                      NUMBEROFEDITS := NUMBEROFEDITS ed + 1\<rparr>)
     | _ \<Rightarrow> Inl (Undefined ''ReplaceEditLineWith: NULL''))"

subsection \<open>Loops over the lines\<close>

text \<open>\<open>while (DeleteItem\<dots>(\<dots>))\<close>: each turn deletes the first line that meets the criterion.\<close>

definition delete_index :: "regcomp \<Rightarrow> edit_ctx \<Rightarrow> item list \<Rightarrow> string \<Rightarrow> matchtypes \<Rightarrow> nat option" where
  "delete_index rx ctx xs s type =
     (case (if type = regexComplete \<or> type = NOTregexComplete then CfRegcomp rx s else Some (\<lambda>_. None)) of
        None \<Rightarrow> None
      | Some m \<Rightarrow> locate (aborts rx ctx) (delete_match m s type) 0 xs)"

lemma DeleteItemGeneral_index:
  "DeleteItemGeneral rx ctx (xs, edits) s type = (case delete_index rx ctx xs s type of
     None \<Rightarrow> ((xs, edits), False) | Some i \<Rightarrow> ((take i xs @ drop (i + 1) xs, edits + 1), True))"
  by (auto simp: DeleteItemGeneral_def delete_index_def Let_def split: option.splits)

lemma delete_index_less: "delete_index rx ctx xs s type = Some i \<Longrightarrow> i < length xs"
  by (auto simp: delete_index_def dest: locate_0_Some split: option.splits if_splits)

function delete_all :: "regcomp \<Rightarrow> edit_ctx \<Rightarrow> string \<Rightarrow> matchtypes \<Rightarrow> lineptr \<Rightarrow> item list \<times> nat \<Rightarrow> lineptr \<times> item list \<times> nat" where
  "delete_all rx ctx s type p (xs, edits) =
     (case DeleteItemGeneral rx ctx (xs, edits) s type of (st, ok) \<Rightarrow>
        if ok then delete_all rx ctx s type
          (case delete_index rx ctx xs s type of None \<Rightarrow> p | Some i \<Rightarrow> after_delete i p) st
        else (p, st))"
  by pat_completeness auto

termination
proof (relation "measure (\<lambda>(rx, ctx, s, type, p, xs, edits). length xs)", goal_cases)
  case (2 rx ctx s type p xs edits st ok)
  then obtain i where "delete_index rx ctx xs s type = Some i" "st = (take i xs @ drop (i + 1) xs, edits + 1)"
    by (auto simp: DeleteItemGeneral_index split: option.splits)
  then show ?case using delete_index_less by fastforce
qed simp

declare delete_all.simps [simp del]

definition delete_type :: "bool \<Rightarrow> hits \<Rightarrow> matchtypes" where
  "delete_type positive h = (case h of
       Starting \<Rightarrow> if positive then literalStart else NOTliteralStart
     | Containing \<Rightarrow> if positive then literalSomewhere else NOTliteralSomewhere
     | Matching \<Rightarrow> if positive then regexComplete else NOTregexComplete)"

definition delete_lines :: "regcomp \<Rightarrow> edit_ctx \<Rightarrow> bool \<Rightarrow> hits \<Rightarrow> string \<Rightarrow> editor \<Rightarrow> editor" where
  "delete_lines rx ctx positive h s ed =
     (case delete_all rx ctx s (delete_type positive h) (CURRENTLINEPTR ed) (filestart ed, NUMBEROFEDITS ed) of
        (p, xs, edits) \<Rightarrow> ed\<lparr>filestart := xs, NUMBEROFEDITS := edits, CURRENTLINEPTR := p\<rparr>)"

definition delete_lines_after :: "regcomp \<Rightarrow> edit_ctx \<Rightarrow> string \<Rightarrow> editor \<Rightarrow> editor outcome" where
  "delete_lines_after rx ctx s ed =
     (if filestart ed = [] then Inr ed
      else (case CURRENTLINEPTR ed of
          NullLine \<Rightarrow> Inr ed
        | Dangling \<Rightarrow> Inl (Undefined ''DeleteLinesAfterThisMatching: freed current line'')
        | At c \<Rightarrow> (case delete_all rx ctx s regexComplete NullLine (drop (c + 1) (filestart ed), NUMBEROFEDITS ed) of
            (_, xs, edits) \<Rightarrow> Inr (ed\<lparr>filestart := take (c + 1) (filestart ed) @ xs, NUMBEROFEDITS := edits\<rparr>))))"

text \<open>
  \<open>while (CommentItem\<dots>(\<dots>))\<close>: a turn that succeeds marks one more line, so no more than one turn for each
  line and one that fails are made.
\<close>

fun repeat_comment :: "nat \<Rightarrow> (item list \<Rightarrow> nat \<Rightarrow> (item list \<times> nat) \<times> bool) \<Rightarrow> item list \<times> nat \<Rightarrow> item list \<times> nat" where
  "repeat_comment 0 f st = st"
| "repeat_comment (Suc n) f st = (case f (fst st) (snd st) of (st', ok) \<Rightarrow> if ok then repeat_comment n f st' else st')"

definition sign_start :: "signs \<Rightarrow> edit_state \<Rightarrow> string" where
  "sign_start k st = (case k of Hash_Sign \<Rightarrow> ''# '' | Slash_Sign \<Rightarrow> ''//'' | Percent_Sign \<Rightarrow> ''%'' | Set_Sign \<Rightarrow> COMMENTSTART st)"

definition sign_end :: "signs \<Rightarrow> edit_state \<Rightarrow> string" where
  "sign_end k st = (case k of Set_Sign \<Rightarrow> COMMENTEND st | _ \<Rightarrow> [])"

definition comment_item :: "regcomp \<Rightarrow> edit_ctx \<Rightarrow> hits \<Rightarrow> string \<Rightarrow> string \<Rightarrow> string \<Rightarrow> item list \<Rightarrow> nat \<Rightarrow> (item list \<times> nat) \<times> bool" where
  "comment_item rx ctx h s comm end xs edits = (case h of
       Starting \<Rightarrow> CommentItemStarting rx ctx xs edits s comm end
     | Containing \<Rightarrow> CommentItemContaining rx ctx xs edits s comm end
     | Matching \<Rightarrow> CommentItemMatching rx ctx xs edits s comm end)"

definition comment_lines_all :: "regcomp \<Rightarrow> edit_ctx \<Rightarrow> hits \<Rightarrow> string \<Rightarrow> string \<Rightarrow> string \<Rightarrow> editor \<Rightarrow> editor" where
  "comment_lines_all rx ctx h s comm end ed = put_file ed
     (repeat_comment (Suc (length (filestart ed))) (comment_item rx ctx h s comm end) (filestart ed, NUMBEROFEDITS ed))"

text \<open>
  \<open>while (UnCommentItem\<dots>(\<dots>))\<close>: with an empty comment sign a turn may succeed without changing the line, and
  then every later turn does the same.
\<close>

definition total_length :: "editor \<Rightarrow> nat" where
  "total_length ed = sum_list (map (\<lambda>p. length (it_name p)) (filestart ed))"

function uncomment_all :: "(editor \<Rightarrow> (editor \<times> bool) outcome) \<Rightarrow> editor \<Rightarrow> editor run" where
  "uncomment_all f ed = (case f ed of
       Inl e \<Rightarrow> Some (Inl e)
     | Inr (ed', ok) \<Rightarrow>
         if \<not> ok then Some (Inr ed')
         else if total_length ed' < total_length ed then uncomment_all f ed'
         else None)"
  by pat_completeness auto

termination
  by (relation "measure (\<lambda>(f, ed). total_length ed)") auto

declare uncomment_all.simps [simp del]

definition uncomment_item :: "regcomp \<Rightarrow> hits \<Rightarrow> string \<Rightarrow> string \<Rightarrow> string \<Rightarrow> editor \<Rightarrow> (editor \<times> bool) outcome" where
  "uncomment_item rx h s comm end ed = (case h of
       Matching \<Rightarrow> UnCommentItemMatching rx ed s comm end
     | _ \<Rightarrow> UnCommentItemContaining ed s comm end)"

subsection \<open>Lines and other files\<close>

text \<open>\<open>Chop\<close> of each line of the other file; \<open>Chop\<close> reads before a line of spaces.\<close>

fun chop_items :: "item list \<Rightarrow> item list outcome" where
  "chop_items [] = Inr []"
| "chop_items (p # ps) = bind_outcome (Chop (it_name p)) (\<lambda>c.
     bind_outcome (chop_items ps) (\<lambda>qs. Inr (p\<lparr>it_name := c\<rparr> # qs)))"

text \<open>
  Whether a line counts as matched: for \<open>Containing\<close>, if one of the lines of the file differs from it.
\<close>

definition file_item_match :: "hits \<Rightarrow> item list \<Rightarrow> string \<Rightarrow> bool" where
  "file_item_match h items line = (case h of
       Starting \<Rightarrow> list_ex (\<lambda>q. strncmp_eq (it_name q) line (min (length (it_name q)) (length line))) items
     | Containing \<Rightarrow> list_ex (\<lambda>q. \<not> strstr (it_name q) line \<or> \<not> strstr line (it_name q)) items
     | Matching \<Rightarrow> False)"

text \<open>The first line that is deleted is freed, and then its pointer to the next one is read.\<close>

definition DeleteLinesWithFileItems :: "edit_env \<Rightarrow> bool \<Rightarrow> hits \<Rightarrow> string \<Rightarrow> edit_state \<Rightarrow> bool outcome" where
  "DeleteLinesWithFileItems env positive h infile st =
     (case LoadItemList (files_of env) (es_disk st) [] infile of
        None \<Rightarrow> Inr False
      | Some items \<Rightarrow>
          if h = Matching \<or> filestart (es_ed st) = [] then Inr True
          else bind_outcome (chop_items items) (\<lambda>items'.
            if list_ex (\<lambda>p. file_item_match h items' (it_name p) = positive) (filestart (es_ed st))
            then Inl (Undefined ''DeleteLinesWithFileItems: freed line'') else Inr True))"

function append_lines :: "string \<Rightarrow> item list \<times> nat \<Rightarrow> (item list \<times> nat) outcome" where
  "append_lines s st =
     (let put = (\<lambda>got. bind_outcome (Chop (until_nul got)) (\<lambda>line.
             Inr (if IsItemIn (fst st) (Some line) then st else AppendItem st line None))) in
      case fgets (CF_BUFSIZE - 1) s of
        None \<Rightarrow> put []
      | Some (got, rest, eof) \<Rightarrow> bind_outcome (put got) (\<lambda>st'. if eof then Inr st' else append_lines rest st'))"
  by pat_completeness auto

termination
  by (relation "measure (\<lambda>(s, st). length s)") (auto simp: CF_BUFSIZE_def intro!: fgets_shorter [of 4095])

declare append_lines.simps [simp del]

definition AppendLinesFromFile :: "edit_env \<Rightarrow> string \<Rightarrow> edit_state \<Rightarrow> (edit_state \<times> bool) outcome" where
  "AppendLinesFromFile env filename st =
     (case es_disk st filename of
        None \<Rightarrow> Inr (st, False)
      | Some s \<Rightarrow>
          if \<not> can_read (files_of env) filename then Inr (st, False)
          else bind_outcome (append_lines s (filestart (es_ed st), NUMBEROFEDITS (es_ed st))) (\<lambda>r.
            Inr (st\<lparr>es_ed := put_file (es_ed st) r\<rparr>, True)))"

text \<open>
  The scan that cuts a line at its carriage return goes on behind the cut and counts every other one.
\<close>

definition CR :: char where "CR = CHR 0x0D"

definition unix_line :: "item \<Rightarrow> item" where
  "unix_line p = p\<lparr>it_name := takeWhile (\<lambda>c. c \<noteq> CR) (it_name p)\<rparr>"

definition dos_line :: "item \<Rightarrow> item" where
  "dos_line p = (if CR \<in> set (it_name p) then p else p\<lparr>it_name := it_name p @ [CR]\<rparr>)"

definition DoFixEndOfLine :: "string \<Rightarrow> editor \<Rightarrow> editor" where
  "DoFixEndOfLine type ed =
     (if type = ''unix'' \<or> type = ''UNIX'' then
        ed\<lparr>filestart := map unix_line (filestart ed),
           NUMBEROFEDITS := NUMBEROFEDITS ed + sum_list (map (\<lambda>p. length (filter (\<lambda>c. c = CR) (it_name p))) (filestart ed))\<rparr>
      else if type = ''dos'' \<or> type = ''DOS'' then
        ed\<lparr>filestart := map dos_line (filestart ed),
           NUMBEROFEDITS := NUMBEROFEDITS ed + length (filter (\<lambda>p. CR \<notin> set (it_name p)) (filestart ed))\<rparr>
      else ed)"

text \<open>\<open>AppendItem\<close> counts an edit, and so does the statement behind it.\<close>

fun HandleAutomountResources :: "regcomp \<Rightarrow> edit_ctx \<Rightarrow> string \<Rightarrow> string list \<Rightarrow> editor \<Rightarrow> editor outcome" where
  "HandleAutomountResources rx ctx opts [] ed = Inr ed"
| "HandleAutomountResources rx ctx opts (fs # mounts) ed =
     (case dropWhile (\<lambda>c. c \<noteq> CHR '':'') fs of
        [] \<Rightarrow> Inl (Undefined ''HandleAutomountResources: no colon'')
      | _ # sp \<Rightarrow>
          (if LocateNextItemContaining rx ctx (filestart ed) sp = None then
             HandleAutomountResources rx ctx opts mounts
               (put_file ed (case AppendItem (filestart ed, NUMBEROFEDITS ed)
                    (take (CF_BUFSIZE - 1) (sp @ [CHR 0x09] @ opts @ [CHR 0x09] @ fs)) (Some []) of (xs, n) \<Rightarrow> (xs, n + 1)))
           else HandleAutomountResources rx ctx opts mounts ed))"

fun expand_lines :: "expand_env \<Rightarrow> item list \<Rightarrow> nat \<Rightarrow> (item list \<times> nat) outcome" where
  "expand_lines env [] edits = Inr ([], edits)"
| "expand_lines env (p # ps) edits = bind_outcome (ExpandVarstring env (Some (it_name p))) (\<lambda>sp.
     bind_outcome (expand_lines env ps (if sp = it_name p then edits else edits + 1)) (\<lambda>(qs, n).
       Inr (p\<lparr>it_name := sp\<rparr> # qs, n)))"

definition ExpandAllVariables :: "expand_env \<Rightarrow> editor \<Rightarrow> editor outcome" where
  "ExpandAllVariables env ed = bind_outcome (expand_lines env (filestart ed) (NUMBEROFEDITS ed)) (\<lambda>r. Inr (put_file ed r))"

subsection \<open>Classes\<close>

text \<open>
  The classes of a list. In a loop that steps on after each name the last step is over the terminator.
  If the buffer is filled with zeros the loop ends there.
\<close>

function add_class_list :: "bool \<Rightarrow> string \<Rightarrow> class_state \<Rightarrow> class_state outcome" where
  "add_class_list zeros s st =
     (if s = [] then Inr st
      else (let item = takeWhile (\<lambda>c. c \<notin> set '',:.'') s; rest = drop (length item) s in
        if CF_MAXVARSIZE \<le> length item then Inl (Undefined ''currentitem'')
        else bind_outcome (AddClassToHeap st item) (\<lambda>st'.
          if rest = [] then (if zeros then Inr st' else Inl (Undefined ''AddEditfileClasses: behind the terminator''))
          else add_class_list zeros (tl rest) st')))"
  by pat_completeness auto

termination
  by (relation "measure (\<lambda>(zeros, s, st). length s)") (auto simp: neq_Nil_conv)

declare add_class_list.simps [simp del]

datatype group_test =
    IfMatch | IfNoMatch | IfLineMatching | IfNoLineMatching | IfNoSuchLine
  | IfLineContaining | IfNoLineContaining | IfFileIsNewer | IfFileExists | IfDefined | IfNotDefined

datatype editnames =
    Edit edits | Attempt attempts | Required required | CatchAbort | BreakIfLineMatches
  | BeginGroup group_test | EndGroup | ForEachLineIn | EndLoop
  | DefineClasses | ElseDefineClasses | EditIfElapsed | EditExpireAfter | AutoCreate | EditBackup | OutputSwitch | WarnIfContainsString | WarnIfContainsFile | OtherSwitch

record edlist =
  ed_code :: editnames
  ed_data :: string
  ed_classes :: "string option"

text \<open>The loop for \<open>ElseDefineClasses\<close> tests for the end before it steps on.\<close>

fun AddEditfileClasses :: "edlist list \<Rightarrow> bool \<Rightarrow> class_state \<Rightarrow> class_state outcome" where
  "AddEditfileClasses [] editsdone st = Inr st"
| "AddEditfileClasses (ep # eps) editsdone st = bind_outcome (IsExcluded st (ed_classes ep)) (\<lambda>excluded.
     bind_outcome
       (if excluded \<or> ed_code ep \<noteq> (if editsdone then DefineClasses else ElseDefineClasses) then Inr st
        else add_class_list (\<not> editsdone) (ed_data ep) st)
       (AddEditfileClasses eps editsdone))"

end
