(* ===== verification/EditScript.thy ===== *)
theory EditScript
  imports EditTools
begin

text \<open>
  edittools.c: the interpreter of edit scripts. \<open>DoEditFile\<close> runs through the list of edits; the rest of the
  list that is still to do is the pointer \<open>ep\<close>, so that \<open>ThrowAbort\<close>, \<open>SkipToEndGroup\<close> and the loop over
  the lines of a file return a rest of the list, with the edit they stop at as its head.
\<close>

subsection \<open>The edits\<close>

definition put_buffer :: "string \<Rightarrow> (string \<Rightarrow> 'a) \<Rightarrow> 'a outcome" where
  "put_buffer s f = (if CF_BUFSIZE \<le> length s then Inl (Undefined ''strncpy: no terminator'') else Inr (f s))"

definition on_editor :: "edit_state \<Rightarrow> editor outcome \<Rightarrow> edit_state outcome" where
  "on_editor st r = bind_outcome r (\<lambda>ed. Inr (st\<lparr>es_ed := ed\<rparr>))"

definition on_lines :: "edit_state \<Rightarrow> item list \<times> nat \<Rightarrow> edit_state" where
  "on_lines st r = st\<lparr>es_ed := put_file (es_ed st) r\<rparr>"

definition append_line :: "edit_state \<Rightarrow> string \<Rightarrow> edit_state" where
  "append_line st s = on_lines st (AppendItem (filestart (es_ed st), NUMBEROFEDITS (es_ed st)) s None)"

definition prepend_line :: "edit_state \<Rightarrow> string \<Rightarrow> edit_state" where
  "prepend_line st s =
     on_lines (st\<lparr>es_ed := (es_ed st)\<lparr>CURRENTLINEPTR := after_prepend (CURRENTLINEPTR (es_ed st))\<rparr>\<rparr>)
       (PrependItem (filestart (es_ed st), NUMBEROFEDITS (es_ed st)) s None)"

definition next_matching :: "edit_env \<Rightarrow> edit_state \<Rightarrow> string \<Rightarrow> bool" where
  "next_matching env st s = (LocateNextItemMatching (rx_of env) (es_ctx st) (filestart (es_ed st)) s \<noteq> None)"

definition replace_lines :: "edit_env \<Rightarrow> edit_state \<Rightarrow> string \<Rightarrow> edit_state outcome" where
  "replace_lines env st expdata = (case global_replace st of
       None \<Rightarrow> Inr st
     | Some g \<Rightarrow> bind_outcome
         (if g then GlobalReplace (rx_of env) (es_ctx st) (es_ed st) (searchstr st) expdata
          else SingleReplace (rx_of env) (es_ed st) (searchstr st) expdata)
         (\<lambda>(ed, _). Inr (st\<lparr>es_ed := ed, global_replace := None\<rparr>)))"

definition append_to_current :: "edit_state \<Rightarrow> string \<Rightarrow> edit_state outcome" where
  "append_to_current st expdata = (let ed = es_ed st in case CURRENTLINEPTR ed of
       NullLine \<Rightarrow> Inr (prepend_line st expdata)
     | Dangling \<Rightarrow> Inl (Undefined ''AppendToLine: freed current line'')
     | At i \<Rightarrow> bind_outcome (AppendToLine (Some (filestart ed ! i)) (NUMBEROFEDITS ed) expdata) (\<lambda>(p, n).
         Inr (st\<lparr>es_ed := ed\<lparr>filestart := (filestart ed)[i := p], NUMBEROFEDITS := n\<rparr>\<rparr>)))"

definition define_in_group :: "edit_state \<Rightarrow> string \<Rightarrow> edit_state outcome" where
  "define_in_group st expdata =
     (if EDITGROUPLEVEL (es_ctx st) < 1 then
        (if 10 < es_errors st + 1 then Inl (FatalErr ''Too many errors'') else Inr (st\<lparr>es_errors := es_errors st + 1\<rparr>))
      else bind_outcome (add_class_list True expdata (es_classes st)) (\<lambda>c. Inr (st\<lparr>es_classes := c\<rparr>)))"

definition exec_edit :: "edit_env \<Rightarrow> edits \<Rightarrow> string \<Rightarrow> edit_state \<Rightarrow> edit_state run" where
  "exec_edit env code expdata st =
     (let ed = es_ed st; rx = rx_of env; ctx = es_ctx st; lines = filestart ed in
      case code of
        DeleteLines positive h \<Rightarrow> Some (Inr (st\<lparr>es_ed := delete_lines rx ctx positive h expdata ed\<rparr>))
      | DeleteLinesAfterThisMatching \<Rightarrow> Some (on_editor st (delete_lines_after rx ctx expdata ed))
      | Append \<Rightarrow> Some (Inr (append_line st expdata))
      | AppendIfNoSuchLine \<Rightarrow> Some (Inr (if IsItemIn lines (Some expdata) then st else append_line st expdata))
      | AppendIfNoLineMatching \<Rightarrow> Some (Inr
          (if EDITBUFF st = [] then st
           else if next_matching env st (if expdata = ''ThisLine'' then EDITBUFF st else expdata) then st
           else append_line st (EDITBUFF st)))
      | Prepend \<Rightarrow> Some (Inr (prepend_line st expdata))
      | PrependIfNoSuchLine \<Rightarrow> Some (Inr (if IsItemIn lines (Some expdata) then st else prepend_line st expdata))
      | PrependIfNoLineMatching \<Rightarrow> Some (Inr
          (if EDITBUFF st = [] \<or> next_matching env st expdata then st else prepend_line st (EDITBUFF st)))
      | SetLine \<Rightarrow> Some (put_buffer expdata (\<lambda>s. st\<lparr>EDITBUFF := s\<rparr>))
      | SetCommentStart \<Rightarrow> Some (Inr (st\<lparr>COMMENTSTART := take (CF_MAXVARSIZE - 1) expdata\<rparr>))
      | SetCommentEnd \<Rightarrow> Some (Inr (st\<lparr>COMMENTEND := take (CF_MAXVARSIZE - 1) expdata\<rparr>))
      | SetScript \<Rightarrow> Some (Inr (st\<lparr>currenteditscript := take (CF_BUFSIZE - 1) expdata\<rparr>))
      | SplitOn \<Rightarrow> Some (Inr (st\<lparr>spliton := (case expdata of [] \<Rightarrow> nul | c # _ \<Rightarrow> c)\<rparr>))
      | CommentLines k h \<Rightarrow> Some (Inr (st\<lparr>es_ed := comment_lines_all rx ctx h expdata (sign_start k st) (sign_end k st) ed\<rparr>))
      | UnCommentLines h \<Rightarrow> bind_run (uncomment_all (uncomment_item rx h expdata (COMMENTSTART st) (COMMENTEND st)) ed)
          (\<lambda>ed'. Some (Inr (st\<lparr>es_ed := ed'\<rparr>)))
      | InsertLine \<Rightarrow> Some (if lines = [] then Inr (append_line st expdata) else on_editor st (InsertItemAfter ed expdata))
      | InsertFile \<Rightarrow> Some (on_editor st (InsertFileAfter (files_of env) (es_disk st) ed expdata))
      | ReplaceLineWith \<Rightarrow> Some (on_editor st (ReplaceEditLineWith expdata ed))
      | ExpandVariables \<Rightarrow> Some (on_editor st (ExpandAllVariables (expand_of env) ed))
      | EmptyEntireFilePlease \<Rightarrow> Some (Inr (st\<lparr>es_ed := \<lparr>filestart = [], CURRENTLINEPTR = NullLine, CURRENTLINENUMBER = 0,
          NUMBEROFEDITS = NUMBEROFEDITS ed + 1\<rparr>\<rparr>))
      | GotoLastLine \<Rightarrow> Some (Inr (st\<lparr>es_ed := GotoLastItem ed\<rparr>))
      | ReplaceAll \<Rightarrow> Some (put_buffer expdata (\<lambda>s. st\<lparr>searchstr := s, global_replace := Some True\<rparr>))
      | ReplaceFirst \<Rightarrow> Some (put_buffer expdata (\<lambda>s. st\<lparr>searchstr := s, global_replace := Some False\<rparr>))
      | With \<Rightarrow> Some (replace_lines env st expdata)
      | FixEndOfLine \<Rightarrow> Some (Inr (st\<lparr>es_ed := DoFixEndOfLine expdata ed\<rparr>))
      | AbortAtLineMatching \<Rightarrow> Some (put_buffer expdata (\<lambda>s. st\<lparr>es_ctx := ctx\<lparr>EDABORTMODE := True, VEDITABORT := s\<rparr>\<rparr>))
      | UnsetAbort \<Rightarrow> Some (Inr (st\<lparr>es_ctx := ctx\<lparr>EDABORTMODE := False\<rparr>\<rparr>))
      | AutoMountDirectResources \<Rightarrow> Some (on_editor st (HandleAutomountResources rx ctx expdata (VMOUNTABLES env) ed))
      | ReplaceLinesMatchingField \<Rightarrow> Some (bind_outcome
          (ReplaceWithFieldMatch (lines, NUMBEROFEDITS ed) expdata (Some (EDITBUFF st)) (spliton st)) (\<lambda>r. Inr (on_lines st r)))
      | AppendToLineIfNotContains \<Rightarrow> Some (append_to_current st expdata)
      | EditUseShell \<Rightarrow> Some (Inr (if expdata = ''false'' then st\<lparr>useshell := False\<rparr> else st))
      | DefineInGroup \<Rightarrow> Some (define_in_group st expdata)
      | WarnIf \<Rightarrow> Some (Inr st))"

subsection \<open>Scripts and edits that may fail\<close>

text \<open>
  The file is saved, the script changes it on the disk, and it is read again. If the script cannot be
  started, the list was freed and every way on reads it.
\<close>

definition RunEditScript :: "edit_env \<Rightarrow> edlist list \<Rightarrow> string \<Rightarrow> string \<Rightarrow> edit_state \<Rightarrow> (edit_state \<times> bool) outcome" where
  "RunEditScript env actions fname script st =
     (if dry_run env then Inr (st, True)
      else bind_outcome
        (if 0 < NUMBEROFEDITS (es_ed st) then bind_outcome (SaveItemList (files_of env) (filestart (es_ed st)) fname (es_disk st))
           (\<lambda>(disk, _). Inr disk)
         else Inr (es_disk st)) (\<lambda>disk.
        bind_outcome (AddEditfileClasses actions (0 < NUMBEROFEDITS (es_ed st)) (es_classes st)) (\<lambda>classes.
          let st1 = st\<lparr>es_disk := disk, es_classes := classes\<rparr>;
              dangling = (if CURRENTLINEPTR (es_ed st) = NullLine then NullLine else Dangling) in
          case run_script env (useshell st) (clip (script @ '' '' @ fname @ '' '' @ system_class env @ ''  2>&1'')) disk of
            None \<Rightarrow> if filestart (es_ed st) = [] then Inr (st1, False)
              else Inl (Undefined ''RunEditScript: freed list'')
          | Some disk' \<Rightarrow>
              (case LoadItemList (files_of env) disk' [] fname of
                 None \<Rightarrow> Inr (st1\<lparr>es_disk := disk', es_ed := (es_ed st)\<lparr>filestart := [], CURRENTLINEPTR := dangling\<rparr>\<rparr>, False)
               | Some xs \<Rightarrow> Inr (st1\<lparr>es_disk := disk', es_ed := \<lparr>filestart = xs, CURRENTLINEPTR = line_at xs 0,
                   CURRENTLINENUMBER = 1, NUMBEROFEDITS = 0\<rparr>\<rparr>, True)))))"

definition attempt_editor :: "edit_state \<Rightarrow> (editor \<times> bool) outcome \<Rightarrow> (edit_state \<times> bool) outcome" where
  "attempt_editor st r = bind_outcome r (\<lambda>(ed, ok). Inr (st\<lparr>es_ed := ed\<rparr>, ok))"

definition locate_line_matching :: "edit_env \<Rightarrow> edit_state \<Rightarrow> string \<Rightarrow> (editor \<times> bool) outcome" where
  "locate_line_matching env st expdata = (let ed = es_ed st in case CURRENTLINEPTR ed of
       NullLine \<Rightarrow> Inr (ed, False)
     | Dangling \<Rightarrow> Inl (Undefined ''LocateLineMatching: freed current line'')
     | At i \<Rightarrow> (case LocateItemMatchingRegExp (rx_of env) (es_ctx st) ed i expdata of (ed', found) \<Rightarrow> Inr (ed', found \<noteq> None)))"

text \<open>Up to a matching line the signs are \<open>#\<close> and \<open>%\<close>, without the space of the other edits.\<close>

definition exec_attempt :: "edit_env \<Rightarrow> edlist list \<Rightarrow> string \<Rightarrow> attempts \<Rightarrow> string \<Rightarrow> edit_state \<Rightarrow> (edit_state \<times> bool) outcome" where
  "exec_attempt env actions filename code expdata st =
     (let ed = es_ed st; rx = rx_of env; ctx = es_ctx st; cs = COMMENTSTART st; ce = COMMENTEND st;
          run = (\<lambda>script. RunEditScript env actions filename script st) in
      case code of
        LocateLineMatching \<Rightarrow> attempt_editor st (locate_line_matching env st expdata)
      | IncrementPointer \<Rightarrow> attempt_editor st (IncrementEditPointer expdata ed)
      | DeleteToLineMatching \<Rightarrow> attempt_editor st (DeleteToRegExp rx ctx ed expdata)
      | DeleteNLines \<Rightarrow> attempt_editor st (DeleteSeveralLines rx ctx ed expdata)
      | CommentToLineMatching k \<Rightarrow> attempt_editor st (CommentToRegExp rx ctx ed expdata
          (case k of Hash_Sign \<Rightarrow> ''#'' | Slash_Sign \<Rightarrow> ''//'' | Percent_Sign \<Rightarrow> ''%'' | Set_Sign \<Rightarrow> cs) (sign_end k st))
      | UnCommentToLineMatching \<Rightarrow> attempt_editor st (UnCommentToRegExp rx ctx ed expdata cs ce)
      | CommentNLines \<Rightarrow> attempt_editor st (CommentSeveralLines ed expdata cs ce)
      | UnCommentNLines \<Rightarrow> attempt_editor st (UnCommentSeveralLines ed expdata cs ce)
      | RunScript \<Rightarrow> run expdata
      | RunScriptIfNoLineMatching \<Rightarrow> if next_matching env st expdata then Inr (st, True) else run (currenteditscript st)
      | RunScriptIfLineMatching \<Rightarrow> if next_matching env st expdata then run (currenteditscript st) else Inr (st, True))"

definition exec_required :: "edit_env \<Rightarrow> required \<Rightarrow> string \<Rightarrow> edit_state \<Rightarrow> (edit_state \<times> bool) outcome" where
  "exec_required env code expdata st = (case code of
       DeleteLinesFileItems positive h \<Rightarrow> bind_outcome (DeleteLinesWithFileItems env positive h expdata st) (\<lambda>ok. Inr (st, ok))
     | AppendIfNoSuchLinesFromFile \<Rightarrow> AppendLinesFromFile env expdata st
     | ResetSearch \<Rightarrow> (case ResetEditSearch expdata (es_ed st) of (ed, ok) \<Rightarrow> Inr (st\<lparr>es_ed := ed\<rparr>, ok)))"

subsection \<open>Groups\<close>

text \<open>
  Entering a group counts its level, except for the two tests of the current line where there is none:
  then the group is entered, whatever the test, and is not counted.
\<close>

datatype gate = Enter | EnterUncounted | Skip | SkipFirst

definition gate_of :: "bool \<Rightarrow> gate" where
  "gate_of b = (if b then Enter else Skip)"

definition group_gate :: "edit_env \<Rightarrow> string \<Rightarrow> bool \<Rightarrow> group_test \<Rightarrow> string \<Rightarrow> edit_state \<Rightarrow> (edit_state \<times> gate) outcome" where
  "group_gate env filename autocreated test expdata st =
     (let ed = es_ed st; rx = rx_of env; ctx = es_ctx st;
          search = (case LocateItemMatchingRegExp rx ctx ed 0 expdata of (ed', found) \<Rightarrow> (st\<lparr>es_ed := ed'\<rparr>, found \<noteq> None));
          contains = (LocateNextItemContaining rx ctx (filestart ed) expdata \<noteq> None);
          here = (\<lambda>wanted. bind_outcome (current_line ed) (\<lambda>l. Inr (st, case l of
              None \<Rightarrow> EnterUncounted
            | Some line \<Rightarrow> gate_of (LineMatches rx line expdata = wanted)))) in
      case test of
        IfMatch \<Rightarrow> here True
      | IfNoMatch \<Rightarrow> here False
      | IfLineMatching \<Rightarrow> Inr (fst search, gate_of (snd search))
      | IfNoLineMatching \<Rightarrow> Inr (fst search, gate_of (\<not> snd search))
      | IfNoSuchLine \<Rightarrow> Inr (st, gate_of (\<not> IsItemIn (filestart ed) (Some expdata)))
      | IfLineContaining \<Rightarrow> Inr (st, gate_of contains)
      | IfNoLineContaining \<Rightarrow> Inr (st, gate_of (\<not> contains))
      | IfFileIsNewer \<Rightarrow> Inr (st, if \<not> autocreated \<and> \<not> FileIsNewer env filename expdata then SkipFirst else Enter)
      | IfFileExists \<Rightarrow> Inr (st, gate_of (es_disk st expdata \<noteq> None))
      | IfDefined \<Rightarrow> bind_outcome (IsExcluded (es_classes st) (Some expdata)) (\<lambda>x. Inr (st, gate_of (\<not> x)))
      | IfNotDefined \<Rightarrow> bind_outcome (IsExcluded (es_classes st) (Some expdata)) (\<lambda>x. Inr (st, gate_of x)))"

definition begins_group :: "editnames \<Rightarrow> bool" where
  "begins_group code = (case code of BeginGroup _ \<Rightarrow> True | _ \<Rightarrow> False)"

text \<open>From the edit that begins the group, at level -1, to the one that ends it, or to the last edit.\<close>

fun skip_to_end :: "int \<Rightarrow> edlist list \<Rightarrow> edlist list" where
  "skip_to_end level [] = []"
| "skip_to_end level (ep # eps) =
     (let level1 = (if begins_group (ed_code ep) then level + 1 else level) in
      if ed_code ep = EndGroup \<and> level1 = 0 then ep # eps
      else if eps = [] then [ep]
      else skip_to_end (if ed_code ep = EndGroup then level1 - 1 else level1) eps)"

definition SkipToEndGroup :: "edlist list \<Rightarrow> edlist list" where
  "SkipToEndGroup eps = skip_to_end (- 1) eps"

fun ThrowAbort :: "edlist list \<Rightarrow> edlist list" where
  "ThrowAbort [] = []"
| "ThrowAbort (ep # eps) = (if ed_code ep = CatchAbort \<or> eps = [] then ep # eps else ThrowAbort eps)"

text \<open>The loops that look for an edit without testing for the end of the list.\<close>

definition skip_past :: "editnames \<Rightarrow> edlist list \<Rightarrow> edlist list outcome" where
  "skip_past code eps = (case dropWhile (\<lambda>ep. ed_code ep \<noteq> code) eps of
       [] \<Rightarrow> Inl (Undefined ''ep->code: NULL'')
     | _ # rest \<Rightarrow> Inr rest)"

subsection \<open>The loop over the lines of a file\<close>

function read_nonblank :: "string \<Rightarrow> string \<times> string \<times> bool" where
  "read_nonblank s = (case ReadLine CF_BUFSIZE s of (line, rest, eof, ok) \<Rightarrow>
     if ok \<and> line = [] \<and> \<not> eof then read_nonblank rest else (line, rest, eof))"
  by pat_completeness auto

termination
  by (relation "measure length") (auto simp: CF_BUFSIZE_def intro!: ReadLine_shorter [of 4096, OF _ sym])

declare read_nonblank.simps [simp del]

text \<open>
  What \<open>ForEachLineIn\<close> does: with no loop it opens the file and comes to itself again; in a loop it takes
  the next line into \<open>EDITBUFF\<close> or ends the loop. \<open>eps\<close> is the rest of the list from this edit on, and so
  is the third part of the result the start of the loop.
\<close>

definition for_each :: "edit_env \<Rightarrow> string \<Rightarrow> edlist list \<Rightarrow> edlist list option \<Rightarrow> edit_state
    \<Rightarrow> (edlist list \<times> edlist list option \<times> edit_state) outcome" where
  "for_each env expdata eps loopstart st = (case loopstart of
       None \<Rightarrow>
         (case (es_disk st expdata, can_read (files_of env) expdata) of
            (Some s, True) \<Rightarrow> Inr (eps, Some eps, st\<lparr>loop_fp := Some (s, False)\<rparr>)
          | _ \<Rightarrow> bind_outcome (skip_past EndLoop eps) (\<lambda>rest. Inr (rest, Some eps, st\<lparr>loop_fp := None\<rparr>)))
     | Some start \<Rightarrow>
         (case loop_fp st of
            None \<Rightarrow> Inl (Undefined ''feof (NULL)'')
          | Some (s, eof) \<Rightarrow>
              if eof then bind_outcome (skip_past EndLoop eps) (\<lambda>rest. Inr (rest, None, st))
              else (case read_nonblank s of (line, s', eof') \<Rightarrow>
                let st' = st\<lparr>EDITBUFF := line, loop_fp := Some (s', eof')\<rparr> in
                if line = [] then bind_outcome (skip_past EndLoop eps) (\<lambda>rest. Inr (rest, None, st'))
                else Inr (tl eps, loopstart, st'))))"

section \<open>The interpreter\<close>

definition set_level :: "(int \<Rightarrow> int) \<Rightarrow> edit_state \<Rightarrow> edit_state" where
  "set_level f st = st\<lparr>es_ctx := (es_ctx st)\<lparr>EDITGROUPLEVEL := f (EDITGROUPLEVEL (es_ctx st))\<rparr>\<rparr>"

text \<open>One edit: where to go on, the start of the loop and the state; \<open>None\<close> in the first place is \<open>goto abort\<close>.\<close>

definition edit_step :: "edit_env \<Rightarrow> edlist list \<Rightarrow> string \<Rightarrow> bool \<Rightarrow> edlist \<Rightarrow> edlist list \<Rightarrow> edlist list option \<Rightarrow> edit_state
    \<Rightarrow> (edlist list option \<times> edlist list option \<times> edit_state) run" where
  "edit_step env actions filename autocreated ep rest loopstart st =
     bind_run (Some (ExpandVarstring (expand_of env) (Some (ed_data ep)))) (\<lambda>expdata.
     case ed_code ep of
       Edit e \<Rightarrow> bind_run (exec_edit env e expdata st) (\<lambda>st'. Some (Inr (Some rest, loopstart, st')))
     | Attempt a \<Rightarrow> Some (bind_outcome (exec_attempt env actions filename a expdata st) (\<lambda>(st', ok).
         Inr (Some (if ok then rest else tl (ThrowAbort (ep # rest))), loopstart, st')))
     | Required r \<Rightarrow> Some (bind_outcome (exec_required env r expdata st) (\<lambda>(st', ok).
         Inr (if ok then Some rest else None, loopstart, st')))
     | BreakIfLineMatches \<Rightarrow> Some (bind_outcome (current_line (es_ed st)) (\<lambda>l.
         Inr (case l of Some line \<Rightarrow> if LineMatches (rx_of env) line expdata then None else Some rest | None \<Rightarrow> Some rest,
              loopstart, st)))
     | BeginGroup t \<Rightarrow> Some (bind_outcome (group_gate env filename autocreated t expdata st) (\<lambda>(st', gate). case gate of
           Enter \<Rightarrow> Inr (Some rest, loopstart, set_level (\<lambda>n. n + 1) st')
         | EnterUncounted \<Rightarrow> Inr (Some rest, loopstart, st')
         | Skip \<Rightarrow> Inr (Some (tl (SkipToEndGroup (ep # rest))), loopstart, st')
         | SkipFirst \<Rightarrow> bind_outcome (skip_past EndGroup (ep # rest)) (\<lambda>r. Inr (Some r, loopstart, st'))))
     | EndGroup \<Rightarrow> Some (Inr (Some rest, loopstart, set_level (\<lambda>n. n - 1) st))
     | ForEachLineIn \<Rightarrow> Some (bind_outcome (for_each env expdata (ep # rest) loopstart st) (\<lambda>(eps, l, st').
         Inr (Some eps, l, st')))
     | EndLoop \<Rightarrow> Some (Inr (Some (case loopstart of None \<Rightarrow> [] | Some eps \<Rightarrow> eps), loopstart, st))
     | _ \<Rightarrow> Some (Inr (Some rest, loopstart, st)))"

text \<open>The result is the state and whether an edit was passed over because of its classes.\<close>

fun edit_loop :: "nat \<Rightarrow> edit_env \<Rightarrow> edlist list \<Rightarrow> string \<Rightarrow> bool \<Rightarrow> edlist list \<Rightarrow> edlist list option \<Rightarrow> bool \<Rightarrow> edit_state
    \<Rightarrow> (edit_state \<times> bool) run" where
  "edit_loop fuel env actions filename autocreated [] loopstart outstanding st = Some (Inr (st, outstanding))"
| "edit_loop 0 env actions filename autocreated (ep # eps) loopstart outstanding st = None"
| "edit_loop (Suc fuel) env actions filename autocreated (ep # eps) loopstart outstanding st =
     bind_run (Some (IsExcluded (es_classes st) (ed_classes ep))) (\<lambda>excluded.
       if excluded then edit_loop fuel env actions filename autocreated eps loopstart True st
       else bind_run (edit_step env actions filename autocreated ep eps loopstart st) (\<lambda>(next_eps, loopstart', st').
         case next_eps of
           None \<Rightarrow> Some (Inr (st', outstanding))
         | Some eps' \<Rightarrow> edit_loop fuel env actions filename autocreated eps' loopstart' outstanding st'))"

end
