(* ===== verification/BinaryEdit.thy ===== *)
theory BinaryEdit
  imports EditScript
begin

text \<open>
  edittools.c: editing a binary file in memory. The memory is the bytes of the file, \<open>None\<close> if they could not be
  read, which the code does not look at. A regular expression is matched against the bytes up to the next
  zero byte; without one the code reads on behind what was loaded.
\<close>

definition CF_NEW :: string where "CF_NEW = ''.cfnew''"

text \<open>The whole file, read in pieces of \<open>CF_BUFSIZE\<close> bytes.\<close>

definition LoadBinaryFile :: "file_env \<Rightarrow> disk \<Rightarrow> string \<Rightarrow> string option" where
  "LoadBinaryFile env disk source = (if can_read env source then disk source else None)"

definition bytes_at :: "string \<Rightarrow> nat \<Rightarrow> string outcome" where
  "bytes_at mem sp = (if nul \<in> set (drop sp mem) then Inr (until_nul (drop sp mem))
     else Inl (Undefined ''regexec: no terminator''))"

text \<open>
  A match is overwritten with the replacement and filled up with \<open>PADCHAR\<close>; one that is shorter than the
  replacement is left. After a failed match as many bytes as the replacement has are passed over.
\<close>

definition overwrite :: "char \<Rightarrow> string \<Rightarrow> nat \<Rightarrow> nat \<Rightarrow> string \<Rightarrow> string" where
  "overwrite pad replace so eo mem = take so mem @ replace @ replicate (eo - (so + length replace)) pad @ drop eo mem"

lemma overwrite_length:
  "so + length replace \<le> eo \<Longrightarrow> eo \<le> length mem \<Longrightarrow> length (overwrite pad replace so eo mem) = length mem"
  by (simp add: overwrite_def)

lemma nul_byte: "\<not> byte nul \<noteq> (0 :: nat)"
  unfolding nul_def by simp

lemma bytes_at_length: "bytes_at mem sp = Inr s \<Longrightarrow> sp + length s < length mem"
proof -
  assume b: "bytes_at mem sp = Inr s"
  then have z: "nul \<in> set (drop sp mem)" and s: "s = until_nul (drop sp mem)" by (auto simp: bytes_at_def split: if_splits)
  have shorter: "length (takeWhile P xs) < length xs" if "\<exists>x \<in> set xs. \<not> P x" for P and xs :: string
    using that by (induction xs) auto
  have "\<exists>x \<in> set (drop sp mem). \<not> byte x \<noteq> (0 :: nat)" by (rule bexI [of _ nul]) (rule nul_byte, rule z)
  then have "length s < length (drop sp mem)" unfolding s until_nul_def by (rule shorter)
  then show ?thesis by simp
qed

function replace_from :: "matcher \<Rightarrow> char \<Rightarrow> string \<Rightarrow> nat \<Rightarrow> string \<Rightarrow> bool \<Rightarrow> (string \<times> bool) run" where
  "replace_from m pad replace sp mem match =
     (if length mem \<le> sp + length replace then Some (Inr (mem, match))
      else (case bytes_at mem sp of
          Inl e \<Rightarrow> Some (Inl e)
        | Inr s \<Rightarrow>
            (case m s of
               None \<Rightarrow> replace_from m pad replace (sp + length replace + 1) mem match
             | Some (so, eo) \<Rightarrow>
                 if eo < so \<or> length s < eo then Some (Inl (Undefined ''regexec: span''))
                 else if eo - so < length replace then replace_from m pad replace (sp + 1) mem match
                 else if eo = so then None
                 else replace_from m pad replace (sp + (eo - so)) (overwrite pad replace (sp + so) (sp + eo) mem) True)))"
  by pat_completeness auto

termination
proof (relation "measure (\<lambda>(m, pad, replace, sp, mem, match). length mem - sp)", goal_cases)
  case (4 m pad replace sp mem match s a so eo)
  then have "length (overwrite pad replace (sp + so) (sp + eo) mem) = length mem"
    using bytes_at_length [of mem sp s] by (intro overwrite_length) auto
  then show ?case using 4 by auto
qed auto

declare replace_from.simps [simp del]

definition BinaryReplaceRegex :: "regcomp \<Rightarrow> char \<Rightarrow> string \<Rightarrow> string \<Rightarrow> string \<Rightarrow> (string \<times> bool) run" where
  "BinaryReplaceRegex rx pad mem search replace = (case CfRegcomp rx search of
       None \<Rightarrow> Some (Inr (mem, False))
     | Some m \<Rightarrow> replace_from m pad replace 0 mem False)"

text \<open>The warnings only read. The last position where the text may be is not looked at.\<close>

definition contains_literal :: "string \<Rightarrow> string \<Rightarrow> bool" where
  "contains_literal mem s = list_ex (\<lambda>sp. take (length s) (drop sp mem) = s) [0 ..< length mem - length s]"

fun contains_regex :: "matcher \<Rightarrow> string \<Rightarrow> nat list \<Rightarrow> bool outcome" where
  "contains_regex m mem [] = Inr False"
| "contains_regex m mem (sp # sps) = bind_outcome (bytes_at mem sp) (\<lambda>s.
     if m s \<noteq> None then Inr True else contains_regex m mem sps)"

definition WarnIfContainsRegex :: "regcomp \<Rightarrow> string \<Rightarrow> string \<Rightarrow> bool outcome" where
  "WarnIfContainsRegex rx mem s =
     (if contains_literal mem s then Inr True
      else (case CfRegcomp rx s of None \<Rightarrow> Inr False | Some m \<Rightarrow> contains_regex m mem [0 ..< length mem - length s]))"

text \<open>The last byte of the pattern is not compared.\<close>

definition WarnIfContainsFilePattern :: "file_env \<Rightarrow> disk \<Rightarrow> string \<Rightarrow> string \<Rightarrow> bool outcome" where
  "WarnIfContainsFilePattern env disk mem file = (case disk file of
       None \<Rightarrow> Inr False
     | Some contents \<Rightarrow>
         if \<not> plain_file env file \<or> length mem < length contents then Inr False
         else (case LoadBinaryFile env disk file of
             None \<Rightarrow> Inr False
           | Some pattern \<Rightarrow>
               if pattern = [] \<and> mem \<noteq> [] then Inl (Undefined ''memcmp: length -1'')
               else Inr (list_ex (\<lambda>sp. take (length pattern - 1) (drop sp mem) = take (length pattern - 1) pattern)
                 [0 ..< length mem - length pattern])))"

definition SaveBinaryFile :: "file_env \<Rightarrow> string \<Rightarrow> string \<Rightarrow> disk \<Rightarrow> (disk \<times> bool) outcome" where
  "SaveBinaryFile env mem file disk =
     (let new = file @ CF_NEW; backup = file @ CF_EDITED; disk1 = disk(new := None) in
      if CF_BUFSIZE \<le> length backup then Inl (Undefined ''SaveBinaryFile: strcat'')
      else if \<not> can_write env new then Inr (disk1, False)
      else (let disk2 = disk1(new := Some mem) in
        if IsItemIn (VREPOSLIST env) (Some new) then
          Inr (if rename_works env new file then (move_file new file disk2, True) else (disk2, False))
        else if \<not> rename_works env file backup then Inr (disk2(new := None), False)
        else (let disk3 = move_file file backup disk2 in
          if \<not> rename_works env new file then Inr (disk3, False)
          else (let disk4 = move_file new file disk3 in
            Inr (if Repository env backup then disk4(backup := None) else disk4, True)))))"

record binary_state =
  bs_mem :: "string option"
  bs_search :: string
  bs_edits :: nat

definition with_memory :: "binary_state \<Rightarrow> (string \<Rightarrow> 'a run) \<Rightarrow> 'a run" where
  "with_memory bs f = (case bs_mem bs of None \<Rightarrow> Some (Inl (Undefined ''memseg: not initialised'')) | Some mem \<Rightarrow> f mem)"

text \<open>What the edits of a binary file are; every other name is an error message.\<close>

definition binary_step :: "edit_env \<Rightarrow> char \<Rightarrow> disk \<Rightarrow> edlist \<Rightarrow> string \<Rightarrow> binary_state \<Rightarrow> binary_state run" where
  "binary_step env pad disk ep expdata bs = (case ed_code ep of
       WarnIfContainsString \<Rightarrow> with_memory bs (\<lambda>mem.
         bind_run (Some (WarnIfContainsRegex (rx_of env) mem expdata)) (\<lambda>_. Some (Inr bs)))
     | WarnIfContainsFile \<Rightarrow> with_memory bs (\<lambda>mem.
         bind_run (Some (WarnIfContainsFilePattern (files_of env) disk mem expdata)) (\<lambda>_. Some (Inr bs)))
     | Edit e \<Rightarrow>
         if e = ReplaceAll then Some (put_buffer expdata (\<lambda>s. bs\<lparr>bs_search := s\<rparr>))
         else if e = With \<and> expdata \<noteq> bs_search bs then with_memory bs (\<lambda>mem.
           bind_run (BinaryReplaceRegex (rx_of env) pad mem (bs_search bs) expdata) (\<lambda>(mem', match).
             Some (Inr (bs\<lparr>bs_mem := Some mem', bs_edits := bs_edits bs + (if match then 1 else 0)\<rparr>))))
         else Some (Inr bs)
     | _ \<Rightarrow> Some (Inr bs))"

fun binary_steps :: "edit_env \<Rightarrow> char \<Rightarrow> disk \<Rightarrow> class_state \<Rightarrow> edlist list \<Rightarrow> binary_state \<Rightarrow> binary_state run" where
  "binary_steps env pad disk classes [] bs = Some (Inr bs)"
| "binary_steps env pad disk classes (ep # eps) bs = bind_run (Some (IsExcluded classes (ed_classes ep))) (\<lambda>excluded.
     if excluded then binary_steps env pad disk classes eps bs
     else bind_run (Some (ExpandVarstring (expand_of env) (Some (ed_data ep)))) (\<lambda>expdata.
       bind_run (binary_step env pad disk ep expdata bs) (binary_steps env pad disk classes eps)))"

definition BinaryEditFile :: "edit_env \<Rightarrow> char \<Rightarrow> nat \<Rightarrow> edlist list \<Rightarrow> string \<Rightarrow> disk \<times> class_state \<Rightarrow> (disk \<times> class_state) run" where
  "BinaryEditFile env pad EDITBINFILESIZE actions filename st = (case st of (disk, classes) \<Rightarrow>
     (case disk filename of
        None \<Rightarrow> Some (Inr st)
      | Some contents \<Rightarrow>
          if EDITBINFILESIZE \<noteq> 0 \<and> EDITBINFILESIZE < length contents \<or> \<not> plain_file (files_of env) filename then Some (Inr st)
          else bind_run (binary_steps env pad disk classes actions
              \<lparr>bs_mem = LoadBinaryFile (files_of env) disk filename, bs_search = [], bs_edits = 0\<rparr>) (\<lambda>bs.
            let save = (\<not> dry_run env \<and> 0 < bs_edits bs) in
            bind_run (if save then with_memory bs (\<lambda>mem. Some (SaveBinaryFile (files_of env) mem filename disk)) else Some (Inr (disk, True)))
              (\<lambda>(disk', _). bind_run (Some (AddEditfileClasses actions save classes)) (\<lambda>classes'.
                Some (Inr (disk', classes')))))))"

end
