(* ===== verification/EditGroups.thy ===== *)
theory EditGroups
  imports EditScript
begin

text \<open>
  The groups of an edit script. The interpreter of edittools.c runs through a flat list and counts levels to
  find the end of a group it passes over. Here a script is a tree, with an evaluator that enters a group or
  not, and the interpreter on the flattened tree is shown to be that evaluator, for scripts without loops.
\<close>

section \<open>Scripts without loops\<close>

text \<open>A step of the interpreter makes the list shorter, so the length of the list is fuel enough.\<close>

definition no_loop :: "edlist \<Rightarrow> bool" where
  "no_loop ep = (ed_code ep \<noteq> ForEachLineIn \<and> ed_code ep \<noteq> EndLoop)"

lemma ThrowAbort_suffix: "\<exists>p. eps = p @ ThrowAbort eps"
proof (induction eps)
  case (Cons ep eps)
  then obtain p where "eps = p @ ThrowAbort eps" by blast
  then have "ep # eps = (if ed_code ep = CatchAbort \<or> eps = [] then [] else ep # p) @ ThrowAbort (ep # eps)" by simp
  then show ?case by blast
qed simp

lemma skip_to_end_suffix: "\<exists>p. eps = p @ skip_to_end level eps"
proof (induction eps arbitrary: level)
  case (Cons ep eps)
  have IH: "\<exists>p. ep # eps = p @ skip_to_end k eps" for k
    using Cons [of k] by (metis append_Cons)
  show ?case
    by (cases "ed_code ep = EndGroup \<and> (if begins_group (ed_code ep) then level + 1 else level) = 0 \<or> eps = []")
      (auto simp: Let_def IH intro: exI [of _ "[]"])
qed simp

lemma suffix_tail: "\<exists>p. ep # eps = p @ xs \<Longrightarrow> \<exists>q. eps = q @ tl xs"
proof -
  assume "\<exists>p. ep # eps = p @ xs"
  then obtain p where p: "ep # eps = p @ xs" by blast
  show ?thesis
  proof (cases p)
    case Nil
    with p show ?thesis by (intro exI [of _ "[]"]) (cases xs, auto)
  next
    case (Cons q qs)
    with p have "eps = qs @ xs" by simp
    then show ?thesis by (cases xs) (auto intro: exI [of _ "qs @ [hd xs]"])
  qed
qed

lemma skip_past_suffix: "skip_past code eps = Inr rest \<Longrightarrow> \<exists>q. tl eps = q @ rest"
proof -
  assume "skip_past code eps = Inr rest"
  then obtain ep where d: "dropWhile (\<lambda>ep. ed_code ep \<noteq> code) eps = ep # rest"
    by (auto simp: skip_past_def split: list.splits)
  have e: "eps = takeWhile (\<lambda>ep. ed_code ep \<noteq> code) eps @ ep # rest" using d by (metis takeWhile_dropWhile_id)
  then obtain x xs where "eps = x # xs" by (cases eps) auto
  moreover have "\<exists>p. eps = p @ ep # rest" using e by blast
  ultimately show ?thesis using suffix_tail [of x xs "ep # rest"] by simp
qed

lemma edit_step_suffix:
  assumes "edit_step env actions filename autocreated ep rest loopstart st = Some (Inr (Some eps, l, st'))" and "no_loop ep"
  shows "\<exists>q. rest = q @ eps"
proof (cases "ed_code ep")
  case (Attempt a)
  with assms obtain ok where "eps = (if ok then rest else tl (ThrowAbort (ep # rest)))"
    by (auto simp: edit_step_def elim!: bind_run_SomeInrE bind_outcome_InrE)
  then show ?thesis using suffix_tail [OF ThrowAbort_suffix [of "ep # rest"]] by (cases ok) auto
next
  case (BeginGroup t)
  with assms have "eps = rest \<or> eps = tl (SkipToEndGroup (ep # rest)) \<or> skip_past EndGroup (ep # rest) = Inr eps"
    by (auto simp: edit_step_def elim!: bind_run_SomeInrE bind_outcome_InrE split: gate.splits)
  then show ?thesis
    using suffix_tail [OF skip_to_end_suffix [of "ep # rest"]] skip_past_suffix [of EndGroup "ep # rest" eps]
    unfolding SkipToEndGroup_def by force
qed (use assms in \<open>auto simp: edit_step_def no_loop_def elim!: bind_run_SomeInrE bind_outcome_InrE split: if_splits option.splits\<close>)

lemma edit_loop_fuel:
  "list_all no_loop eps \<Longrightarrow> length eps \<le> f1 \<Longrightarrow> length eps \<le> f2
   \<Longrightarrow> edit_loop f1 env actions filename autocreated eps loopstart outstanding st
     = edit_loop f2 env actions filename autocreated eps loopstart outstanding st"
proof (induction "length eps" arbitrary: eps f1 f2 loopstart outstanding st rule: less_induct)
  case less
  show ?case
  proof (cases eps)
    case (Cons ep rest)
    with less.prems obtain n1 n2 where f: "f1 = Suc n1" "f2 = Suc n2" "length rest \<le> n1" "length rest \<le> n2"
      by (cases f1; cases f2) auto
    have shorter: "edit_loop n1 env actions filename autocreated q l out st1
        = edit_loop n2 env actions filename autocreated q l out st1" if "\<exists>p. rest = p @ q" for q l out st1
      using that less.prems Cons f by (intro less.hyps) auto
    have again: "edit_loop n1 env actions filename autocreated rest l out st1
        = edit_loop n2 env actions filename autocreated rest l out st1" for l out st1
      by (rule shorter) (rule exI [of _ "[]"], simp)
    have go: "(case r of (next_eps, l, st1) \<Rightarrow> case next_eps of None \<Rightarrow> Some (Inr (st1, outstanding))
          | Some q \<Rightarrow> edit_loop n1 env actions filename autocreated q l outstanding st1)
      = (case r of (next_eps, l, st1) \<Rightarrow> case next_eps of None \<Rightarrow> Some (Inr (st1, outstanding))
          | Some q \<Rightarrow> edit_loop n2 env actions filename autocreated q l outstanding st1)"
      if "edit_step env actions filename autocreated ep rest loopstart st = Some (Inr r)" for r
      using that edit_step_suffix [of env actions filename autocreated ep rest loopstart st _ "fst (snd r)" "snd (snd r)"]
        less.prems(1) Cons by (cases r) (auto split: option.splits intro!: shorter)
    show ?thesis
      unfolding Cons f edit_loop.simps bind_run_def
      using again go by (auto split: option.splits sum.splits)
  qed simp
qed

section \<open>Scripts as trees\<close>

datatype script = Plain edlist | Group edlist "script list"

definition end_group :: edlist where
  "end_group = \<lparr>ed_code = EndGroup, ed_data = [], ed_classes = None\<rparr>"

fun flatten :: "script list \<Rightarrow> edlist list" where
  "flatten [] = []"
| "flatten (Plain ep # ss) = ep # flatten ss"
| "flatten (Group ep body # ss) = ep # flatten body @ end_group # flatten ss"

text \<open>
  The edits of a tree are none of the markers; a group begins in all classes, and not with the test that
  skips to the first end of a group.
\<close>

definition plain_code :: "editnames \<Rightarrow> bool" where
  "plain_code code = (case code of BeginGroup _ \<Rightarrow> False | EndGroup \<Rightarrow> False | ForEachLineIn \<Rightarrow> False | EndLoop \<Rightarrow> False
     | CatchAbort \<Rightarrow> False | _ \<Rightarrow> True)"

definition group_code :: "editnames \<Rightarrow> bool" where
  "group_code code = (case code of BeginGroup t \<Rightarrow> t \<noteq> IfFileIsNewer | _ \<Rightarrow> False)"

fun well_nested :: "script list \<Rightarrow> bool" where
  "well_nested [] = True"
| "well_nested (Plain ep # ss) = (plain_code (ed_code ep) \<and> well_nested ss)"
| "well_nested (Group ep body # ss) = (group_code (ed_code ep) \<and> ed_classes ep = None \<and> well_nested body \<and> well_nested ss)"

text \<open>One edit that is no marker; the answer is whether the script goes on.\<close>

definition exec_plain :: "edit_env \<Rightarrow> edlist list \<Rightarrow> string \<Rightarrow> edlist \<Rightarrow> edit_state \<Rightarrow> (edit_state \<times> bool) run" where
  "exec_plain env actions filename ep st = bind_run (Some (ExpandVarstring (expand_of env) (Some (ed_data ep)))) (\<lambda>expdata.
     case ed_code ep of
       Edit e \<Rightarrow> bind_run (exec_edit env e expdata st) (\<lambda>st'. Some (Inr (st', True)))
     | Attempt a \<Rightarrow> Some (exec_attempt env actions filename a expdata st)
     | Required r \<Rightarrow> Some (exec_required env r expdata st)
     | BreakIfLineMatches \<Rightarrow> Some (bind_outcome (current_line (es_ed st)) (\<lambda>l.
         Inr (st, case l of Some line \<Rightarrow> \<not> LineMatches (rx_of env) line expdata | None \<Rightarrow> True)))
     | _ \<Rightarrow> Some (Inr (st, True)))"

text \<open>The result: the state, whether an edit was passed over because of its classes, whether the script goes on.\<close>

fun exec_script :: "edit_env \<Rightarrow> edlist list \<Rightarrow> string \<Rightarrow> bool \<Rightarrow> script list \<Rightarrow> bool \<Rightarrow> edit_state
    \<Rightarrow> (edit_state \<times> bool \<times> bool) run" where
  "exec_script env actions filename autocreated [] out st = Some (Inr (st, out, True))"
| "exec_script env actions filename autocreated (Plain ep # ss) out st =
     bind_run (Some (IsExcluded (es_classes st) (ed_classes ep))) (\<lambda>excluded.
       if excluded then exec_script env actions filename autocreated ss True st
       else bind_run (exec_plain env actions filename ep st) (\<lambda>(st', goes_on).
         if goes_on then exec_script env actions filename autocreated ss out st' else Some (Inr (st', out, False))))"
| "exec_script env actions filename autocreated (Group ep body # ss) out st =
     bind_run (Some (ExpandVarstring (expand_of env) (Some (ed_data ep)))) (\<lambda>expdata.
       case ed_code ep of BeginGroup t \<Rightarrow>
         bind_run (Some (group_gate env filename autocreated t expdata st)) (\<lambda>(st', gate).
           if gate = Skip then exec_script env actions filename autocreated ss out st'
           else bind_run (exec_script env actions filename autocreated body out
               (if gate = EnterUncounted then st' else set_level (\<lambda>n. n + 1) st')) (\<lambda>(st'', out', goes_on).
             if goes_on then exec_script env actions filename autocreated ss out' (set_level (\<lambda>n. n - 1) st'')
             else Some (Inr (st'', out', False))))
       | _ \<Rightarrow> Some (Inr (st, out, True)))"

lemma plain_code_no_loop: "plain_code (ed_code ep) \<Longrightarrow> no_loop ep \<and> \<not> begins_group (ed_code ep) \<and> ed_code ep \<noteq> EndGroup
    \<and> ed_code ep \<noteq> CatchAbort"
  by (auto simp: plain_code_def no_loop_def begins_group_def split: editnames.splits)

lemma group_code_begins: "group_code (ed_code ep) \<Longrightarrow> no_loop ep \<and> begins_group (ed_code ep) \<and> ed_code ep \<noteq> EndGroup
    \<and> ed_code ep \<noteq> CatchAbort"
  by (auto simp: group_code_def no_loop_def begins_group_def split: editnames.splits)

lemma flatten_no_loop: "well_nested ss \<Longrightarrow> list_all (\<lambda>ep. no_loop ep \<and> ed_code ep \<noteq> CatchAbort) (flatten ss)"
  by (induction ss rule: flatten.induct)
    (auto simp: end_group_def no_loop_def dest: plain_code_no_loop group_code_begins)

text \<open>A group that is passed over, with the groups in it, is passed over to its own end.\<close>

lemma skip_to_end_flatten:
  "well_nested ss \<Longrightarrow> 0 \<le> level \<Longrightarrow> eps \<noteq> [] \<Longrightarrow> skip_to_end level (flatten ss @ eps) = skip_to_end level eps"
proof (induction ss arbitrary: level eps rule: flatten.induct)
  case (2 ep ss)
  then show ?case using plain_code_no_loop [of ep] by simp
next
  case (3 ep body ss)
  then have "skip_to_end level (flatten (Group ep body # ss) @ eps)
      = skip_to_end (level + 1) (end_group # flatten ss @ eps)"
    using group_code_begins [of ep] by simp
  also have "\<dots> = skip_to_end level (flatten ss @ eps)"
    using 3 by (simp add: end_group_def begins_group_def)
  finally show ?case using 3 by simp
qed simp

lemma SkipToEndGroup_flatten:
  assumes "group_code (ed_code ep)" and "well_nested body"
  shows "SkipToEndGroup (ep # flatten body @ end_group # eps) = end_group # eps"
proof -
  have "SkipToEndGroup (ep # flatten body @ end_group # eps) = skip_to_end 0 (flatten body @ end_group # eps)"
    using group_code_begins [OF assms(1)] by (simp add: SkipToEndGroup_def)
  also have "\<dots> = end_group # eps"
    using skip_to_end_flatten [OF assms(2), of 0] by (simp add: end_group_def begins_group_def)
  finally show ?thesis .
qed

lemma ThrowAbort_end: "list_all (\<lambda>ep. ed_code ep \<noteq> CatchAbort) eps \<Longrightarrow> tl (ThrowAbort eps) = []"
  by (induction eps) auto

lemma edit_step_plain:
  assumes "plain_code (ed_code ep)" and "list_all (\<lambda>ep. ed_code ep \<noteq> CatchAbort) rest"
  shows "bind_run (edit_step env actions filename autocreated ep rest l st) f
    = bind_run (exec_plain env actions filename ep st) (\<lambda>(st', goes_on).
        if goes_on then f (Some rest, l, st')
        else f (case ed_code ep of Attempt _ \<Rightarrow> Some [] | _ \<Rightarrow> None, l, st'))"
  using assms ThrowAbort_end [of "ep # rest"] plain_code_no_loop [OF assms(1)]
  by (cases "ed_code ep")
    (auto simp: edit_step_def exec_plain_def bind_run_def bind_outcome_def plain_code_def
      split: option.splits sum.splits prod.splits if_splits)

section \<open>The flat list does what the tree says\<close>

lemma IsExcluded_None [simp]: "IsExcluded st None = Inr False"
  by (simp add: IsExcluded_def IsDefinedClass_def)

text \<open>One edit of the list, whatever the fuel, if there is enough.\<close>

lemma edit_loop_step:
  assumes "list_all no_loop (ep # rest)" and "length (ep # rest) \<le> fuel"
  shows "edit_loop fuel env actions filename autocreated (ep # rest) l out st =
     bind_run (Some (IsExcluded (es_classes st) (ed_classes ep))) (\<lambda>excluded.
       if excluded then edit_loop fuel env actions filename autocreated rest l True st
       else bind_run (edit_step env actions filename autocreated ep rest l st) (\<lambda>(next_eps, l', st').
         case next_eps of
           None \<Rightarrow> Some (Inr (st', out))
         | Some eps \<Rightarrow> edit_loop fuel env actions filename autocreated eps l' out st'))" (is "?loop fuel (ep # rest) l out st = _")
proof -
  from assms(2) obtain n where n: "fuel = Suc n" "length rest \<le> n" by (cases fuel) auto
  have same: "?loop n q l' out' st' = ?loop fuel q l' out' st'" if "\<exists>p. rest = p @ q" for q l' out' st'
    using that assms(1) n by (intro edit_loop_fuel) auto
  have rest: "?loop n rest l' out' st' = ?loop fuel rest l' out' st'" for l' out' st'
    by (rule same) (rule exI [of _ "[]"], simp)
  have go: "(case r of (next_eps, l', st') \<Rightarrow> case next_eps of None \<Rightarrow> Some (Inr (st', out)) | Some eps \<Rightarrow> ?loop n eps l' out st')
      = (case r of (next_eps, l', st') \<Rightarrow> case next_eps of None \<Rightarrow> Some (Inr (st', out)) | Some eps \<Rightarrow> ?loop fuel eps l' out st')"
    if "edit_step env actions filename autocreated ep rest l st = Some (Inr r)" for r
    using that edit_step_suffix [of env actions filename autocreated ep rest l st _ "fst (snd r)" "snd (snd r)"] assms(1)
    by (cases r) (auto split: option.splits intro!: same)
  have "?loop (Suc n) (ep # rest) l out st =
     bind_run (Some (IsExcluded (es_classes st) (ed_classes ep))) (\<lambda>excluded.
       if excluded then ?loop fuel rest l True st
       else bind_run (edit_step env actions filename autocreated ep rest l st) (\<lambda>(next_eps, l', st').
         case next_eps of None \<Rightarrow> Some (Inr (st', out)) | Some eps \<Rightarrow> ?loop fuel eps l' out st'))"
    unfolding edit_loop.simps bind_run_def using rest go by (auto split: option.splits sum.splits)
  then show ?thesis using n by simp
qed

definition then_rest :: "(edit_state \<times> bool \<times> bool) run \<Rightarrow> (bool \<Rightarrow> edit_state \<Rightarrow> (edit_state \<times> bool) run) \<Rightarrow> (edit_state \<times> bool) run" where
  "then_rest m f = bind_run m (\<lambda>(st, out, goes_on). if goes_on then f out st else Some (Inr (st, out)))"

lemma edit_loop_end_group:
  assumes "list_all no_loop rest" and "length (end_group # rest) \<le> fuel"
    and "ExpandVarstring (expand_of env) (Some []) = Inr []"
  shows "edit_loop fuel env actions filename autocreated (end_group # rest) l out st
    = edit_loop fuel env actions filename autocreated rest l out (set_level (\<lambda>n. n - 1) st)"
  using assms edit_loop_step [of end_group rest fuel env actions filename autocreated l out st]
  by (simp add: end_group_def no_loop_def edit_step_def)

lemma edit_loop_plain:
  assumes "plain_code (ed_code ep)" and "list_all (\<lambda>ep. no_loop ep \<and> ed_code ep \<noteq> CatchAbort) rest" and "length (ep # rest) \<le> fuel"
  shows "edit_loop fuel env actions filename autocreated (ep # rest) l out st =
     bind_run (Some (IsExcluded (es_classes st) (ed_classes ep))) (\<lambda>excluded.
       if excluded then edit_loop fuel env actions filename autocreated rest l True st
       else bind_run (exec_plain env actions filename ep st) (\<lambda>(st', goes_on).
         if goes_on then edit_loop fuel env actions filename autocreated rest l out st' else Some (Inr (st', out))))"
proof -
  have rest: "list_all no_loop (ep # rest)" "list_all (\<lambda>ep. ed_code ep \<noteq> CatchAbort) rest"
    using assms(2) plain_code_no_loop [OF assms(1)] by (auto simp: list_all_iff)
  have stop: "(case (case ed_code ep of Attempt _ \<Rightarrow> Some [] | _ \<Rightarrow> None) of None \<Rightarrow> Some (Inr (st', out))
      | Some eps \<Rightarrow> edit_loop fuel env actions filename autocreated eps l out st') = Some (Inr (st', out))" for st'
    by (cases "ed_code ep") auto
  show ?thesis
    unfolding edit_loop_step [OF rest(1) assms(3)] edit_step_plain [OF assms(1) rest(2)] by (simp add: stop cong: if_cong)
qed

lemma edit_loop_group:
  assumes "group_code (ed_code ep)" and "ed_classes ep = None" and "well_nested body"
    and "list_all (\<lambda>ep. no_loop ep \<and> ed_code ep \<noteq> CatchAbort) rest"
    and "length (ep # flatten body @ end_group # rest) \<le> fuel"
  shows "edit_loop fuel env actions filename autocreated (ep # flatten body @ end_group # rest) l out st =
     bind_run (Some (ExpandVarstring (expand_of env) (Some (ed_data ep)))) (\<lambda>expdata.
       case ed_code ep of BeginGroup t \<Rightarrow>
         bind_run (Some (group_gate env filename autocreated t expdata st)) (\<lambda>(st', gate).
           if gate = Skip then edit_loop fuel env actions filename autocreated rest l out st'
           else edit_loop fuel env actions filename autocreated (flatten body @ end_group # rest) l out
               (if gate = EnterUncounted then st' else set_level (\<lambda>n. n + 1) st'))
       | _ \<Rightarrow> Some (Inr (st, out)))"
proof -
  have "list_all no_loop (ep # flatten body @ end_group # rest)"
    using assms(4) flatten_no_loop [OF assms(3)] group_code_begins [OF assms(1)]
    by (auto simp: list_all_iff end_group_def no_loop_def)
  note step = edit_loop_step [OF this assms(5)]
  have skip: "tl (SkipToEndGroup (ep # flatten body @ end_group # rest)) = rest"
    using SkipToEndGroup_flatten [OF assms(1,3)] by simp
  from assms(1) obtain t where t: "ed_code ep = BeginGroup t" "t \<noteq> IfFileIsNewer"
    by (auto simp: group_code_def split: editnames.splits)
  have gates: "g \<noteq> SkipFirst" if "group_gate env filename autocreated t expdata st = Inr (st', g)" for expdata st' g
    using that t(2)
    by (cases t) (auto simp: group_gate_def Let_def gate_of_def elim!: bind_outcome_InrE split: option.splits if_splits prod.splits)
  show ?thesis
    unfolding step using t gates
    by (auto simp: assms(2) edit_step_def skip bind_run_def bind_outcome_def split: sum.splits gate.splits)
qed

lemma edit_loop_flatten:
  assumes "ExpandVarstring (expand_of env) (Some []) = Inr []"
  shows "well_nested ss \<Longrightarrow> list_all (\<lambda>ep. no_loop ep \<and> ed_code ep \<noteq> CatchAbort) rest \<Longrightarrow> length (flatten ss @ rest) \<le> fuel
   \<Longrightarrow> edit_loop fuel env actions filename autocreated (flatten ss @ rest) l out st
     = then_rest (exec_script env actions filename autocreated ss out st)
         (\<lambda>out st. edit_loop fuel env actions filename autocreated rest l out st)"
proof (induction ss arbitrary: rest out st rule: flatten.induct)
  case 1
  then show ?case by (simp add: then_rest_def)
next
  case (2 ep ss)
  have "list_all (\<lambda>ep. no_loop ep \<and> ed_code ep \<noteq> CatchAbort) (flatten ss @ rest)"
    using 2(2,3) flatten_no_loop [of ss] by auto
  then show ?case
    using 2 edit_loop_plain [of ep "flatten ss @ rest" fuel env actions filename autocreated l out st]
    by (auto simp: then_rest_def bind_run_def split: option.splits sum.splits prod.splits if_splits)
next
  case (3 ep body ss)
  let ?tail = "flatten ss @ rest"
  have tail: "list_all (\<lambda>ep. no_loop ep \<and> ed_code ep \<noteq> CatchAbort) ?tail"
    using 3(3,4) flatten_no_loop [of ss] by auto
  then have tail': "list_all (\<lambda>ep. no_loop ep \<and> ed_code ep \<noteq> CatchAbort) (end_group # ?tail)"
    by (simp add: end_group_def no_loop_def)
  have tail'': "list_all no_loop ?tail" using tail by (auto simp: list_all_iff)
  have len: "length (end_group # ?tail) \<le> fuel" "length (flatten body @ end_group # ?tail) \<le> fuel"
    using 3(5) by auto
  note inner = 3(1) [OF _ tail' len(2)] and outer = 3(2) [OF _ 3(4)] and close = edit_loop_end_group [OF tail'' len(1) assms]
  show ?case
    using 3(3,5) edit_loop_group [of ep body ?tail fuel env actions filename autocreated l out st] tail inner outer close
    by (auto simp: then_rest_def bind_run_def group_code_def split: option.splits sum.splits prod.splits if_splits editnames.splits)
qed



end
