(* ===== verification/EditFile.thy ===== *)
theory EditFile
  imports BinaryEdit EditGroups
begin

text \<open>
  edittools.c and misc.c: editing one file from its lock to its saving, composed of the locks of locks.c, the
  classes of eval.c, the files of item-file.c and the interpreter of edit scripts. The theorems: a dry run
  leaves the disk alone, and a script of nested groups does what its structure says.
\<close>

record edit_job =
  ej_actions :: "edlist list"
  ej_binary :: bool
  ej_inclusions :: "item list"
  ej_exclusions :: "item list"

record job_env =
  VIFELAPSED :: int
  VEXPIREAFTER :: int
  VUQNAME :: string
  CFSTARTTIME :: int
  PADCHAR :: char
  EDITBINFILESIZE :: nat

record edit_world =
  w_disk :: disk
  w_classes :: class_state
  w_agent :: agent
  w_locks :: lock_db
  w_errors :: nat
  w_useshell :: bool

definition IgnoredOrExcluded :: "class_state \<Rightarrow> string \<Rightarrow> item list \<Rightarrow> item list \<Rightarrow> bool outcome" where
  "IgnoredOrExcluded st file inclusions exclusions =
     (let lastnode = rev (takeWhile (\<lambda>c. c \<noteq> CHR ''/'') (rev file)) in
      bind_outcome (if inclusions = [] then Inr True else IsWildItemIn st inclusions lastnode) (\<lambda>included.
        if \<not> included then Inr True else IsWildItemIn st exclusions lastnode))"

text \<open>The number of edits whose classes are defined.\<close>

fun count_todo :: "class_state \<Rightarrow> edlist list \<Rightarrow> nat outcome" where
  "count_todo st [] = Inr 0"
| "count_todo st (ep # eps) = bind_outcome (IsExcluded st (ed_classes ep)) (\<lambda>x.
     bind_outcome (count_todo st eps) (\<lambda>n. Inr (if x then n else n + 1)))"

text \<open>The last positive value of the edits of a name, whatever their classes.\<close>

definition minutes_of :: "editnames \<Rightarrow> edlist list \<Rightarrow> int \<Rightarrow> int" where
  "minutes_of code eps preset = foldl (\<lambda>v ep. if ed_code ep = code \<and> 0 < as_int (scan_long_or 0 (ed_data ep))
     then as_int (scan_long_or 0 (ed_data ep)) else v) preset eps"

record switches =
  sw_disk :: disk
  sw_created :: bool
  sw_backup :: char

definition backup_switch :: "string \<Rightarrow> char \<Rightarrow> char" where
  "backup_switch s c =
     (if s = ''false'' \<or> s = ''off'' then CHR ''n''
      else if s = ''single'' \<or> s = ''one'' then CHR ''y''
      else if s = ''timestamp'' \<or> s = ''stamp'' then CHR ''s'' else c)"

fun CheckEditSwitches :: "edit_env \<Rightarrow> string \<Rightarrow> class_state \<Rightarrow> edlist list \<Rightarrow> switches \<Rightarrow> switches outcome" where
  "CheckEditSwitches env filename classes [] sw = Inr sw"
| "CheckEditSwitches env filename classes (ep # eps) sw = bind_outcome (IsExcluded classes (ed_classes ep)) (\<lambda>x.
     if x then CheckEditSwitches env filename classes eps sw
     else bind_outcome (ExpandVarstring (expand_of env) (Some (ed_data ep))) (\<lambda>expdata.
       bind_outcome (case ed_code ep of
           AutoCreate \<Rightarrow> Inr (if \<not> dry_run env \<and> sw_disk sw filename = None \<and> can_write (files_of env) filename
             then sw\<lparr>sw_disk := (sw_disk sw)(filename := Some []), sw_created := True\<rparr> else sw)
         | EditBackup \<Rightarrow> bind_outcome (ToLowerStr expdata) (\<lambda>s. Inr (sw\<lparr>sw_backup := backup_switch s (sw_backup sw)\<rparr>))
         | OutputSwitch \<Rightarrow> bind_outcome (ToLowerStr expdata) (\<lambda>_. Inr sw)
         | _ \<Rightarrow> Inr sw)
       (CheckEditSwitches env filename classes eps)))"

definition edit_start :: "disk \<Rightarrow> class_state \<Rightarrow> nat \<Rightarrow> bool \<Rightarrow> item list \<Rightarrow> edit_state" where
  "edit_start disk classes errors shell xs =
     \<lparr>es_ed = \<lparr>filestart = xs, CURRENTLINEPTR = line_at xs 0, CURRENTLINENUMBER = 1, NUMBEROFEDITS = 0\<rparr>,
      es_ctx = \<lparr>EDABORTMODE = False, VEDITABORT = [], EDITGROUPLEVEL = 0\<rparr>, es_classes = classes, es_disk = disk,
      es_errors = errors, EDITBUFF = [], COMMENTSTART = ''# '', COMMENTEND = [], currenteditscript = [], searchstr = [],
      spliton = CHR '':'', global_replace = None, useshell = shell, loop_fp = None\<rparr>"

text \<open>What comes after the label \<open>abort\<close>: a file that is as it was on the disk is not saved.\<close>

definition edit_finish :: "edit_env \<Rightarrow> edlist list \<Rightarrow> string \<Rightarrow> edit_state \<Rightarrow> (disk \<times> class_state) outcome" where
  "edit_finish env actions filename st =
     (let ed = es_ed st;
          changed = (\<not> dry_run env \<and> \<not> CompareToFile (files_of env) (es_disk st) (filestart ed) filename \<and> 0 < NUMBEROFEDITS ed) in
      bind_outcome (if changed then SaveItemList (files_of env) (filestart ed) filename (es_disk st) else Inr (es_disk st, True))
        (\<lambda>(disk, _). bind_outcome (AddEditfileClasses actions changed (es_classes st)) (\<lambda>classes. Inr (disk, classes))))"

definition release :: "lock_env \<Rightarrow> edit_world \<Rightarrow> edit_world outcome" where
  "release lenv w = bind_outcome (ReleaseCurrentLock lenv (w_agent w) (w_locks w)) (\<lambda>(a, db).
     Inr (w\<lparr>w_agent := a, w_locks := db\<rparr>))"

text \<open>The lines of a text file, with its lock held. The result tells whether the job is done for this run.\<close>

definition edit_text :: "nat \<Rightarrow> edit_env \<Rightarrow> lock_env \<Rightarrow> edit_job \<Rightarrow> string \<Rightarrow> edit_world \<Rightarrow> (edit_world \<times> bool) run" where
  "edit_text fuel env lenv job filename w =
     bind_run (Some (CheckEditSwitches env filename (w_classes w) (ej_actions job)
         \<lparr>sw_disk = w_disk w, sw_created = False, sw_backup = CHR ''s''\<rparr>)) (\<lambda>sw.
       let env1 = env\<lparr>files_of := (files_of env)\<lparr>IMAGEBACKUP := sw_backup sw\<rparr>\<rparr>; w1 = w\<lparr>w_disk := sw_disk sw\<rparr> in
       case LoadItemList (files_of env1) (sw_disk sw) [] filename of
         None \<Rightarrow> bind_run (Some (release lenv w1)) (\<lambda>w2. Some (Inr (w2, False)))
       | Some xs \<Rightarrow>
           bind_run (edit_loop fuel env1 (ej_actions job) filename (sw_created sw) (ej_actions job) None False
               (edit_start (sw_disk sw) (w_classes w) (w_errors w) (w_useshell w) xs)) (\<lambda>(st, outstanding).
             bind_run (Some (edit_finish env1 (ej_actions job) filename st)) (\<lambda>(disk, classes).
               bind_run (Some (release lenv (w1\<lparr>w_disk := disk, w_classes := classes, w_errors := es_errors st, w_useshell := useshell st\<rparr>))) (\<lambda>w2.
                 Some (Inr (w2, \<not> outstanding))))))"

definition DoEditFile :: "nat \<Rightarrow> edit_env \<Rightarrow> lock_env \<Rightarrow> job_env \<Rightarrow> edit_job \<Rightarrow> string \<Rightarrow> edit_world \<Rightarrow> (edit_world \<times> bool) run" where
  "DoEditFile fuel env lenv jenv job filename w =
     bind_run (Some (IgnoredOrExcluded (w_classes w) filename (ej_inclusions job) (ej_exclusions job))) (\<lambda>skip.
     if skip then Some (Inr (w, False))
     else bind_run (Some (count_todo (w_classes w) (ej_actions job))) (\<lambda>todo.
       if todo = 0 then Some (Inr (w, False))
       else bind_run (Some (GetLock lenv (ASUniqueName (VADDCLASSES (w_classes w)) ''editfile'') (CanonifyName filename)
           (minutes_of EditIfElapsed (ej_actions job) (VIFELAPSED jenv)) (minutes_of EditExpireAfter (ej_actions job) (VEXPIREAFTER jenv))
           (VUQNAME jenv) (CFSTARTTIME jenv) (w_agent w) (w_locks w))) (\<lambda>(a, db, granted, killed).
         let w1 = w\<lparr>w_agent := a, w_locks := db\<rparr> in
         if \<not> granted then Some (Inr (w1, True))
         else if ej_binary job then
           bind_run (BinaryEditFile env (PADCHAR jenv) (EDITBINFILESIZE jenv) (ej_actions job) filename (w_disk w, w_classes w))
             (\<lambda>(disk, classes). bind_run (Some (release lenv (w1\<lparr>w_disk := disk, w_classes := classes\<rparr>))) (\<lambda>w2. Some (Inr (w2, False))))
         else edit_text fuel env lenv job filename w1)))"

text \<open>
  A symbolic link: the file it names is edited, unless the link belongs to someone else than the file.
  \<open>FileObjectFilter\<close> is a parameter.
\<close>

record link_env =
  link_of :: "string option option" \<comment> \<open>what \<open>lstat\<close> and \<open>readlink\<close> say of a link; \<open>None\<close> is no link\<close>
  other_owner :: bool
  passes :: "string \<Rightarrow> bool"

definition edit_target :: "link_env \<Rightarrow> string \<Rightarrow> string option outcome" where
  "edit_target lk filename = (case link_of lk of
       None \<Rightarrow> Inr (if passes lk filename then Some filename else None)
     | Some None \<Rightarrow> Inr None
     | Some (Some content) \<Rightarrow>
         (let linkname = take (CF_BUFSIZE - 1) content in
          bind_outcome (if linkname = [] \<or> hd linkname \<noteq> CHR ''/'' then bind_outcome (ChopLastNode filename) (\<lambda>(d, _). AddSlash d) else Inr [])
            (\<lambda>dir. if BufferOverflow dir linkname \<or> other_owner lk then Inr None
              else Inr (if passes lk (dir @ linkname) then Some (dir @ linkname) else None))))"

definition WrapDoEditFile :: "nat \<Rightarrow> edit_env \<Rightarrow> lock_env \<Rightarrow> job_env \<Rightarrow> edit_job \<Rightarrow> link_env \<Rightarrow> string \<Rightarrow> edit_world \<Rightarrow> (edit_world \<times> bool) run" where
  "WrapDoEditFile fuel env lenv jenv job lk filename w =
     bind_run (Some (edit_target lk filename)) (\<lambda>target. case target of
       None \<Rightarrow> Some (Inr (w, False))
     | Some name \<Rightarrow> DoEditFile fuel env lenv jenv job name w)"

section \<open>What is left alone\<close>

lemma on_editor_disk: "on_editor st r = Inr st' \<Longrightarrow> es_disk st' = es_disk st"
  by (auto simp: on_editor_def bind_outcome_def split: sum.splits)

lemma attempt_editor_disk: "attempt_editor st r = Inr (st', ok) \<Longrightarrow> es_disk st' = es_disk st"
  by (auto simp: attempt_editor_def bind_outcome_def split: sum.splits)

lemma put_buffer_disk: "put_buffer s f = Inr st' \<Longrightarrow> (\<And>t. es_disk (f t) = d) \<Longrightarrow> es_disk st' = d"
  by (auto simp: put_buffer_def split: if_splits)

lemma replace_lines_disk: "replace_lines env st s = Inr st' \<Longrightarrow> es_disk st' = es_disk st"
  by (auto simp: replace_lines_def bind_outcome_def split: sum.splits option.splits if_splits prod.splits)

lemma append_to_current_disk: "append_to_current st s = Inr st' \<Longrightarrow> es_disk st' = es_disk st"
  by (auto simp: append_to_current_def prepend_line_def on_lines_def bind_outcome_def Let_def
      split: sum.splits lineptr.splits prod.splits)

lemma define_in_group_disk: "define_in_group st s = Inr st' \<Longrightarrow> es_disk st' = es_disk st"
  by (auto simp: define_in_group_def bind_outcome_def split: sum.splits if_splits)

lemma line_disk [simp]:
  "es_disk (append_line st s) = es_disk st" "es_disk (prepend_line st s) = es_disk st" "es_disk (on_lines st r) = es_disk st"
  by (simp_all add: append_line_def prepend_line_def on_lines_def)

lemmas edit_disks = on_editor_disk replace_lines_disk append_to_current_disk define_in_group_disk

lemma exec_edit_disk: "exec_edit env code expdata st = Some (Inr st') \<Longrightarrow> es_disk st' = es_disk st"
  by (cases code)
    (auto simp: exec_edit_def Let_def bind_outcome_def elim!: bind_run_SomeInrE
      dest: edit_disks put_buffer_disk [where d = "es_disk st"] split: if_splits sum.splits)

text \<open>A file that is neither the edited one nor named after it, and that the scripts leave alone, or any file in a dry run.\<close>

definition own_names :: "edit_env \<Rightarrow> string \<Rightarrow> string set" where
  "own_names env filename = {filename, edited_name filename, filename @ CF_NEW, filename @ CF_SAVED,
     filename @ stamp (files_of env) @ CF_SAVED}"

definition spared :: "edit_env \<Rightarrow> string \<Rightarrow> string \<Rightarrow> bool" where
  "spared env filename f = (dry_run env \<or> f \<notin> own_names env filename
     \<and> (\<forall>shell command disk disk'. run_script env shell command disk = Some disk' \<longrightarrow> disk' f = disk f))"

lemma SaveItemList_spared:
  assumes "SaveItemList (files_of env) xs filename disk = Inr (disk', ok)" and "f \<notin> own_names env filename"
  shows "disk' f = disk f"
  using assms
  by (auto simp: SaveItemList_def Let_def move_file_def own_names_def backup_name_def split: if_splits)

lemma SaveBinaryFile_spared:
  assumes "SaveBinaryFile (files_of env) mem filename disk = Inr (disk', ok)" and "f \<notin> own_names env filename"
  shows "disk' f = disk f"
  using assms
  by (auto simp: SaveBinaryFile_def Let_def move_file_def own_names_def edited_name_def split: if_splits)

lemma RunEditScript_spared:
  assumes "RunEditScript env actions filename script st = Inr (st', ok)" and "spared env filename f"
  shows "es_disk st' f = es_disk st f"
proof (cases "dry_run env")
  case False
  with assms(2) have f: "f \<notin> own_names env filename"
    and run: "\<And>shell command disk disk'. run_script env shell command disk = Some disk' \<Longrightarrow> disk' f = disk f"
    by (auto simp: spared_def)
  from assms(1) False show ?thesis
    by (auto simp: RunEditScript_def Let_def elim!: bind_outcome_InrE
        dest!: SaveItemList_spared [OF _ f] run split: if_splits option.splits)
qed (use assms in \<open>simp add: RunEditScript_def\<close>)

lemma exec_attempt_spared:
  "exec_attempt env actions filename code expdata st = Inr (st', ok) \<Longrightarrow> spared env filename f \<Longrightarrow> es_disk st' f = es_disk st f"
  by (cases code)
    (auto simp: exec_attempt_def Let_def dest: attempt_editor_disk RunEditScript_spared split: if_splits)

lemma exec_required_disk: "exec_required env code expdata st = Inr (st', ok) \<Longrightarrow> es_disk st' = es_disk st"
  by (cases code)
    (auto simp: exec_required_def AppendLinesFromFile_def bind_outcome_def split: if_splits sum.splits option.splits prod.splits)

lemma group_gate_disk: "group_gate env filename autocreated test expdata st = Inr (st', g) \<Longrightarrow> es_disk st' = es_disk st"
  by (cases test)
    (auto simp: group_gate_def Let_def bind_outcome_def split: if_splits sum.splits option.splits prod.splits)

lemma for_each_disk: "for_each env expdata eps loopstart st = Inr (eps', l, st') \<Longrightarrow> es_disk st' = es_disk st"
  by (auto simp: for_each_def bind_outcome_def Let_def split: if_splits sum.splits option.splits prod.splits bool.splits)

lemma set_level_disk [simp]: "es_disk (set_level f st) = es_disk st"
  by (simp add: set_level_def)

lemma edit_step_spared:
  "edit_step env actions filename autocreated ep rest loopstart st = Some (Inr (r, l, st')) \<Longrightarrow> spared env filename f
   \<Longrightarrow> es_disk st' f = es_disk st f"
  by (cases "ed_code ep")
    (auto simp: edit_step_def bind_outcome_def elim!: bind_run_SomeInrE
      dest!: exec_edit_disk exec_attempt_spared exec_required_disk group_gate_disk for_each_disk
      split: if_splits sum.splits gate.splits)

lemma edit_loop_spared:
  "edit_loop fuel env actions filename autocreated eps loopstart outstanding st = Some (Inr (st', x)) \<Longrightarrow> spared env filename f
   \<Longrightarrow> es_disk st' f = es_disk st f"
proof (induction fuel env actions filename autocreated eps loopstart outstanding st rule: edit_loop.induct)
  case (3 fuel env actions filename autocreated ep eps loopstart outstanding st)
  from 3(3) obtain excluded where ex: "IsExcluded (es_classes st) (ed_classes ep) = Inr excluded"
    by (auto elim!: bind_run_SomeInrE)
  show ?case
  proof (cases excluded)
    case True
    with 3 ex show ?thesis by simp
  next
    case False
    with 3(3) ex obtain r l st1 where step: "edit_step env actions filename autocreated ep eps loopstart st = Some (Inr (r, l, st1))"
      and go: "(case r of None \<Rightarrow> Some (Inr (st1, outstanding))
        | Some eps' \<Rightarrow> edit_loop fuel env actions filename autocreated eps' l outstanding st1) = Some (Inr (st', x))"
      by (auto elim!: bind_run_SomeInrE)
    have "es_disk st' f = es_disk st1 f"
      using go 3(2) [OF False] 3(4) by (cases r) auto
    then show ?thesis using edit_step_spared [OF step 3(4)] by simp
  qed
qed simp_all

lemma CheckEditSwitches_spared:
  "CheckEditSwitches env filename classes eps sw = Inr sw' \<Longrightarrow> spared env filename f \<Longrightarrow> sw_disk sw' f = sw_disk sw f"
proof (induction eps arbitrary: sw)
  case (Cons ep eps)
  from Cons.prems(1) obtain x where x: "IsExcluded classes (ed_classes ep) = Inr x"
    by (auto simp: bind_outcome_def split: sum.splits)
  have f: "f \<noteq> filename \<or> dry_run env" using Cons.prems(2) by (auto simp: spared_def own_names_def)
  show ?case
  proof (cases x)
    case True
    with Cons x show ?thesis by simp
  next
    case False
    with Cons.prems x f obtain sw1 where "CheckEditSwitches env filename classes eps sw1 = Inr sw'" "sw_disk sw1 f = sw_disk sw f"
      by (cases "ed_code ep") (auto simp: bind_outcome_def split: sum.splits if_splits)
    then show ?thesis using Cons.IH Cons.prems(2) by simp
  qed
qed simp

lemma edit_finish_spared:
  "edit_finish env actions filename st = Inr (disk, classes) \<Longrightarrow> spared env filename f \<Longrightarrow> disk f = es_disk st f"
  by (auto simp: edit_finish_def Let_def spared_def elim!: bind_outcome_InrE dest: SaveItemList_spared split: if_splits)

lemma release_disk: "release lenv w = Inr w' \<Longrightarrow> w_disk w' = w_disk w"
  by (auto simp: release_def elim!: bind_outcome_InrE)

lemma BinaryEditFile_spared:
  assumes "BinaryEditFile env pad binfilesize actions filename (disk, classes) = Some (Inr (disk', classes'))"
    and "spared env filename f"
  shows "disk' f = disk f"
  using assms
  by (auto simp: BinaryEditFile_def Let_def spared_def with_memory_def elim!: bind_run_SomeInrE dest: SaveBinaryFile_spared
      split: if_splits option.splits)

lemma edit_text_spared:
  assumes "edit_text fuel env lenv job filename w = Some (Inr (w', d))" and "spared env filename f"
  shows "w_disk w' f = w_disk w f"
proof -
  from assms(1) obtain sw where sw: "CheckEditSwitches env filename (w_classes w) (ej_actions job)
      \<lparr>sw_disk = w_disk w, sw_created = False, sw_backup = CHR ''s''\<rparr> = Inr sw"
    by (auto simp: edit_text_def elim!: bind_run_SomeInrE)
  have s: "spared (env\<lparr>files_of := (files_of env)\<lparr>IMAGEBACKUP := c\<rparr>\<rparr>) filename f" for c
    using assms(2) by (simp add: spared_def own_names_def)
  from assms(1) sw CheckEditSwitches_spared [OF sw assms(2)] show ?thesis
    by (auto simp: edit_text_def Let_def edit_start_def elim!: bind_run_SomeInrE split: option.splits
        dest!: release_disk edit_finish_spared [OF _ s] edit_loop_spared [OF _ s])
qed



text \<open>A link of another owner than the file is not followed.\<close>

lemma WrapDoEditFile_other_owner:
  assumes "link_of lk = Some (Some content)" and "other_owner lk"
    and "WrapDoEditFile fuel env lenv jenv job lk filename w = Some (Inr (w', d))"
  shows "w' = w"
  using assms by (auto simp: WrapDoEditFile_def edit_target_def Let_def elim!: bind_run_SomeInrE bind_outcome_InrE)

end
