(* ===== verification/EditFacts.thy ===== *)
theory EditFacts
  imports EditFile
begin

text \<open>
  edittools.c: that the loops over the lines come to their end and what they leave, that a binary file keeps
  its length, and where an edit does something else than its name says.
\<close>

section \<open>The loops over the lines\<close>

text \<open>After \<open>DeleteLines\<dots>\<close> no line is left that meets the criterion, up to a line that matches \<open>VEDITABORT\<close>.\<close>

lemma delete_all_done:
  "delete_all rx ctx s type p st = (q, ys, n) \<Longrightarrow> delete_index rx ctx ys s type = None"
proof (induction rx ctx s type p st rule: delete_all.induct)
  case (1 rx ctx s type p xs edits)
  show ?case
  proof (cases "delete_index rx ctx xs s type")
    case None
    then show ?thesis using 1(2) by (simp add: delete_all.simps [of rx ctx s type p] DeleteItemGeneral_index)
  next
    case (Some i)
    then show ?thesis
      using 1(1) [of _ True] 1(2) by (simp add: delete_all.simps [of rx ctx s type p] DeleteItemGeneral_index)
  qed
qed

text \<open>Every deleted line is counted.\<close>

lemma delete_all_counts:
  "delete_all rx ctx s type p st = (q, ys, n) \<Longrightarrow> n + length ys = snd st + length (fst st)"
proof (induction rx ctx s type p st rule: delete_all.induct)
  case (1 rx ctx s type p xs edits)
  show ?case
  proof (cases "delete_index rx ctx xs s type")
    case None
    then show ?thesis using 1(2) by (simp add: delete_all.simps [of rx ctx s type p] DeleteItemGeneral_index)
  next
    case (Some i)
    then show ?thesis
      using 1(1) [of _ True] 1(2) delete_index_less [OF Some]
      by (simp add: delete_all.simps [of rx ctx s type p] DeleteItemGeneral_index)
  qed
qed

definition uncommented :: "string \<Rightarrow> item list \<Rightarrow> nat" where
  "uncommented comm xs = length (filter (\<lambda>p. \<not> strncmp_eq (it_name p) comm (length comm)) xs)"

lemma comment_first_uncommented:
  "comment_first abort hit comm end xs edits = ((ys, n), True) \<Longrightarrow> uncommented comm ys < uncommented comm xs \<and> n = edits + 1"
proof (induction xs arbitrary: ys n)
  case (Cons p ps)
  have mark: "strncmp_eq (comment_text comm end (it_name p)) comm (length comm)" by (rule comment_has_prefix)
  from Cons show ?case
    by (auto simp: Let_def uncommented_def mark split: if_splits prod.splits)
qed simp

lemma comment_first_stays:
  "comment_first abort hit comm end xs edits = ((ys, n), False) \<Longrightarrow> ys = xs \<and> n = edits"
  by (induction xs arbitrary: ys n) (auto simp: Let_def split: if_splits prod.splits)

lemma comment_item_turn:
  "comment_item rx ctx h s comm end xs edits = ((ys, n), ok) \<Longrightarrow>
     if ok then uncommented comm ys < uncommented comm xs else ys = xs \<and> n = edits"
  by (cases h; cases ok)
    (auto simp: comment_item_def CommentItemStarting_def CommentItemContaining_def CommentItemMatching_def
      dest: comment_first_uncommented comment_first_stays split: option.splits)

lemma repeat_comment_done:
  "uncommented comm (fst st) < fuel \<Longrightarrow> repeat_comment fuel (comment_item rx ctx h s comm end) st = (ys, n)
   \<Longrightarrow> comment_item rx ctx h s comm end ys n = ((ys, n), False)"
proof (induction fuel arbitrary: st)
  case (Suc fuel)
  obtain zs k ok where turn: "comment_item rx ctx h s comm end (fst st) (snd st) = ((zs, k), ok)" by (metis surj_pair)
  show ?case
  proof (cases ok)
    case True
    then have "uncommented comm zs < fuel" using comment_item_turn [OF turn] Suc.prems(1) by simp
    then show ?thesis using Suc.IH [of "(zs, k)"] Suc.prems(2) turn True by simp
  next
    case False
    then show ?thesis using Suc.prems turn comment_item_turn [OF turn] by simp
  qed
qed simp

text \<open>The turns are enough: after \<open>CommentLines\<dots>\<close> there is no line left to comment.\<close>

lemma comment_lines_all_done:
  assumes "ed' = comment_lines_all rx ctx h s comm end ed"
  shows "comment_item rx ctx h s comm end (filestart ed') (NUMBEROFEDITS ed') = ((filestart ed', NUMBEROFEDITS ed'), False)"
proof -
  obtain ys n where r: "repeat_comment (Suc (length (filestart ed))) (comment_item rx ctx h s comm end)
      (filestart ed, NUMBEROFEDITS ed) = (ys, n)" by (metis surj_pair)
  have "uncommented comm (filestart ed) < Suc (length (filestart ed))"
    unfolding uncommented_def by (simp add: le_imp_less_Suc)
  then show ?thesis
    using repeat_comment_done [of comm "(filestart ed, NUMBEROFEDITS ed)"] r assms
    by (simp add: comment_lines_all_def put_file_def)
qed

text \<open>With no comment sign \<open>UnCommentLines\<dots>\<close> takes the first line again and again.\<close>

lemma uncomment_all_loops:
  assumes "filestart ed = p # ps" and "strstr (it_name p) s" and "s \<noteq> []"
  shows "uncomment_all (uncomment_item rx Containing s [] []) ed = None"
proof -
  have "strstr (it_name p) []" by (cases "it_name p") simp_all
  then show ?thesis
    using assms takeWhile_dropWhile_id [of isspace "it_name p"]
    by (subst uncomment_all.simps)
      (simp add: uncomment_item_def UnCommentItemContaining_def Let_def uncomment_text_def total_length_def
        dropWhile_eq_drop [symmetric] length_takeWhile_le)
qed

section \<open>The pointer to the current line\<close>

lemma delete_all_Dangling: "delete_all rx ctx s type Dangling st = (q, ys, n) \<Longrightarrow> q = Dangling"
proof (induction rx ctx s type "Dangling" st rule: delete_all.induct)
  case (1 rx ctx s type xs edits)
  then show ?case
    by (simp add: delete_all.simps [of rx ctx s type Dangling] DeleteItemGeneral_index after_delete_def
        split: option.splits)
qed

text \<open>If the first line is the current one and is deleted, an \<open>InsertLine\<close> that follows uses freed memory.\<close>

lemma delete_then_insert:
  assumes "delete_index rx ctx (filestart ed) s (delete_type positive h) = Some 0" and "CURRENTLINEPTR ed = At 0"
  shows "InsertItemAfter (delete_lines rx ctx positive h s ed) t = Inl (Undefined ''InsertItemAfter: freed current line'')"
proof -
  obtain q ys n where r: "delete_all rx ctx s (delete_type positive h) (At 0) (filestart ed, NUMBEROFEDITS ed) = (q, ys, n)"
    by (metis surj_pair)
  then have "delete_all rx ctx s (delete_type positive h) Dangling
      (drop 1 (filestart ed), NUMBEROFEDITS ed + 1) = (q, ys, n)"
    using assms(1) by (simp add: delete_all.simps [of rx ctx s _ "At 0"] DeleteItemGeneral_index after_delete_def)
  then have "q = Dangling" by (rule delete_all_Dangling)
  with r assms show ?thesis by (simp add: delete_lines_def InsertItemAfter_def)
qed

text \<open>A group for a matching current line is entered where there is no line, and its level is not counted.\<close>

lemma IfMatch_empty_file:
  assumes "CURRENTLINEPTR (es_ed st) = NullLine"
  shows "group_gate env filename autocreated IfMatch expdata st = Inr (st, EnterUncounted)"
  using assms by (simp add: group_gate_def current_line_def)

text \<open>The test for a line of the file moves the current line to it.\<close>

lemma IfLineMatching_moves:
  assumes "group_gate env filename autocreated IfLineMatching expdata st = Inr (st', Enter)"
  shows "\<exists>i. CURRENTLINEPTR (es_ed st') = At i
    \<and> CURRENTLINENUMBER (es_ed st') = CURRENTLINENUMBER (es_ed st) + int i"
  using assms
  by (auto simp: group_gate_def Let_def gate_of_def dest: LocateItemMatchingRegExp_number split: prod.splits if_splits)

text \<open>A file that is not newer: the group is left at the end of a group in it, and the rest is executed.\<close>

lemma IfFileIsNewer_inner_end:
  assumes "list_all (\<lambda>ep. ed_code ep \<noteq> EndGroup) inner"
  shows "skip_past EndGroup (inner @ end_group # rest @ end_group # eps) = Inr (rest @ end_group # eps)"
  using assms by (induction inner) (auto simp: skip_past_def end_group_def)

text \<open>A list of lines that cannot be opened leaves the loop begun; the next loop uses its null handle.\<close>

lemma ForEachLineIn_no_file:
  assumes "es_disk st file1 = None" and "for_each env file1 eps None st = Inr (rest, l, st1)"
    and "loop_fp st2 = loop_fp st1"
  shows "for_each env file2 eps2 l st2 = Inl (Undefined ''feof (NULL)'')"
  using assms by (auto simp: for_each_def elim!: bind_outcome_InrE)

section \<open>Binary files\<close>

text \<open>The replacement keeps the length of the file.\<close>

lemma replace_from_length:
  "replace_from m pad replace sp mem match = Some (Inr (mem', match')) \<Longrightarrow> length mem' = length mem"
proof (induction m pad replace sp mem match rule: replace_from.induct)
  case (1 m pad replace sp mem match)
  have keep: "length (overwrite pad replace (sp + so) (sp + eo) mem) = length mem"
    if "bytes_at mem sp = Inr s" and "eo \<le> length s" and "so + length replace \<le> eo" for s so eo
    using that bytes_at_length [OF that(1)] by (intro overwrite_length) auto
  show ?case
  proof (cases "length mem \<le> sp + length replace")
    case True
    with "1.prems" show ?thesis by (simp add: replace_from.simps [of m pad replace sp])
  next
    case False
    with "1.prems" obtain s where s: "bytes_at mem sp = Inr s"
      by (cases "bytes_at mem sp") (auto simp: replace_from.simps [of m pad replace sp])
    show ?thesis
      using "1.prems" False s keep [OF s] "1.IH"
      by (cases "m s") (auto simp: replace_from.simps [of m pad replace sp] split: if_splits)
  qed
qed

lemma BinaryReplaceRegex_length:
  "BinaryReplaceRegex rx pad mem search replace = Some (Inr (mem', match)) \<Longrightarrow> length mem' = length mem"
  by (auto simp: BinaryReplaceRegex_def dest: replace_from_length split: option.splits)

end
